(* ===== verification/Go_Prelude.thy ===== *)
theory Go_Prelude
  imports Main "HOL-Library.Word"
begin

text \<open>
  The prelude of the development: the Go types the repository uses as Isabelle types, the
  outcomes of a Go call (a value, an error, a panic, or a recursion that has used up its
  fuel), the combinator that sequences calls which thread a state, the external packages the
  sources import as a record of functions, and the generic facts on words and lists that the
  component theories share.
\<close>

section \<open>Types\<close>

type_synonym byte = "8 word"
type_synonym int32 = "32 word"
type_synonym int64 = "64 word"

named_theorems go_step \<open>unfolding rules for the outcome combinators\<close>
named_theorems go_word \<open>conversions between words, bytes and integers\<close>
named_theorems content_simps \<open>what a reader operation leaves to be read\<close>

text \<open>A Go error value: the sentinels the sources compare with, and the errors they build.\<close>

datatype goerr =
    EOF
  | ErrUnexpectedEOF
  | ErrBufferFull
  | ErrNotEnoughBuf
  | ErrIllegalRefIndex
  | ErrBodyNotEnough
  | ErrJavaException
  | ErrIllegalPackage
  | ErrNodeExists
  | ErrNoNode
  | CommonError string int string string
  | JsonError int string
  | Errorf string
  | Wrapped string goerr

text \<open>
  What a call of the sources can end in. \<open>Panic\<close> is a Go run-time panic (an index out of
  range, a failed type assertion, a negative length given to \<open>make\<close>). \<open>NoFuel\<close> is not an
  outcome of Go: it is what a fuelled model returns when its fuel is too small.
\<close>

datatype 'a outcome = Ok 'a | Err goerr | Panic | NoFuel

section \<open>Sequencing calls\<close>

text \<open>
  A call that threads a state \<open>'s\<close> has the type \<open>'s \<Rightarrow> 'a outcome \<times> 's\<close>. \<open>otry m h f\<close> is
  \<^verbatim>\<open>x, err = m(); if err != nil { h } ; f\<close>: the state after the call is kept on every path,
  as in Go, where an error does not undo what has been read.
\<close>

definition otry ::
  "'a outcome \<times> 's \<Rightarrow> (goerr \<Rightarrow> 's \<Rightarrow> 'b outcome \<times> 's) \<Rightarrow> ('a \<Rightarrow> 's \<Rightarrow> 'b outcome \<times> 's)
   \<Rightarrow> 'b outcome \<times> 's" where
  "otry m h f = (case m of (res, s) \<Rightarrow>
     (case res of Ok a \<Rightarrow> f a s | Err e \<Rightarrow> h e s | Panic \<Rightarrow> (Panic, s) | NoFuel \<Rightarrow> (NoFuel, s)))"

lemma otry_simps [simp, go_step]:
  "otry (Ok a, s) h f = f a s"
  "otry (Err e, s) h f = h e s"
  "otry (Panic, s) h f = (Panic, s)"
  "otry (NoFuel, s) h f = (NoFuel, s)"
  by (simp_all add: otry_def)

lemma otry_cong [fundef_cong]:
  assumes "m = m'"
    and "\<And>e s. m' = (Err e, s) \<Longrightarrow> h e s = h' e s"
    and "\<And>a s. m' = (Ok a, s) \<Longrightarrow> f a s = f' a s"
  shows "otry m h f = otry m' h' f'"
  using assms by (cases m') (auto simp: otry_def split: outcome.splits)

text \<open>\<^verbatim>\<open>return v, err\<close>: the caller sees an error exactly when \<open>err\<close> is not nil.\<close>

definition ret :: "'a \<Rightarrow> goerr option \<Rightarrow> 'a outcome" where
  "ret v err = (case err of None \<Rightarrow> Ok v | Some e \<Rightarrow> Err e)"

lemma ret_simps [simp, go_step]: "ret v None = Ok v" "ret v (Some e) = Err e"
  by (simp_all add: ret_def)

section \<open>External packages\<close>

text \<open>
  The functions of packages outside the repository that the sources call and whose result
  they depend on: \<^verbatim>\<open>gxstrings.Slice\<close> (goext) and \<^verbatim>\<open>Trace\<close>, \<^verbatim>\<open>Annotatef\<close> of
  \<^verbatim>\<open>github.com/juju/errors\<close>. A definition that calls one of them takes the record as its first
  argument. \<open>Errorf\<close> and \<open>New\<close> of that package build an error from a format, and are the
  constructor \<open>Errorf\<close> above.
\<close>

record ext =
  gx_Slice :: "byte list \<Rightarrow> byte list"
  je_Trace :: "goerr option \<Rightarrow> goerr option"
  je_Annotatef :: "string \<Rightarrow> goerr option \<Rightarrow> goerr option"

text \<open>Documented behaviour: \<open>Slice\<close> is the string's bytes.\<close>

definition slice_ok :: "ext \<Rightarrow> bool" where
  "slice_ok X \<longleftrightarrow> (\<forall>s. gx_Slice X s = s)"

text \<open>Documented behaviour: tracing or annotating nil is nil, and any other error stays one.\<close>

definition trace_ok :: "ext \<Rightarrow> bool" where
  "trace_ok X \<longleftrightarrow> je_Trace X None = None \<and> (\<forall>e. je_Trace X (Some e) \<noteq> None) \<and>
     (\<forall>m. je_Annotatef X m None = None) \<and> (\<forall>m e. je_Annotatef X m (Some e) \<noteq> None)"

text \<open>A concrete instance, which the witnesses use.\<close>

definition ext0 :: ext where
  "ext0 = \<lparr>gx_Slice = (\<lambda>s. s), je_Trace = map_option (Wrapped []),
     je_Annotatef = (\<lambda>m. map_option (Wrapped m))\<rparr>"

lemma ext0_ok [simp]: "slice_ok ext0" "trace_ok ext0"
  by (simp_all add: ext0_def slice_ok_def trace_ok_def)

lemma slice_okD [simp]: "slice_ok X \<Longrightarrow> gx_Slice X s = s"
  by (simp add: slice_ok_def)

lemma trace_okD:
  assumes "trace_ok X"
  shows "je_Trace X None = None" "\<exists>e'. je_Trace X (Some e) = Some e'"
    "je_Annotatef X m None = None" "\<exists>e'. je_Annotatef X m (Some e) = Some e'"
  using assms by (auto simp: trace_ok_def)

text \<open>\<^verbatim>\<open>return z, jerrors.Trace(err)\<close> on a non-nil error.\<close>

definition traced :: "ext \<Rightarrow> 'a \<Rightarrow> goerr \<Rightarrow> 's \<Rightarrow> 'a outcome \<times> 's" where
  "traced X z e r = (ret z (je_Trace X (Some e)), r)"

lemma traced_Err: "trace_ok X \<Longrightarrow> \<exists>e'. traced X z e s = (Err e', s)"
  using trace_okD(2) [of X e] by (auto simp: traced_def)

text \<open>A reported error is never taken for a success.\<close>

lemma ret_OkD: "ret v e = Ok a \<Longrightarrow> a = v \<and> e = None"
  by (simp add: ret_def split: option.splits)

lemma error_not_Ok:
  assumes "trace_ok X"
  shows "ret v (je_Trace X (Some e)) \<noteq> Ok a" "ret v (je_Annotatef X m (Some e)) \<noteq> Ok a"
    "fst (traced X v e s) \<noteq> Ok a" "traced X v e s \<noteq> (Ok a, s')"
  using trace_okD(2) [OF assms, of e] trace_okD(4) [OF assms, of m e] by (auto simp: traced_def)

section \<open>Strings and integers of Go\<close>

text \<open>A Go string literal as the bytes it stands for.\<close>

definition str :: "string \<Rightarrow> byte list" where
  "str s = map of_char s"

text \<open>Go's integer division and remainder truncate towards zero.\<close>

definition go_div :: "int \<Rightarrow> int \<Rightarrow> int" where
  "go_div a b = sgn a * sgn b * (\<bar>a\<bar> div \<bar>b\<bar>)"

definition go_mod :: "int \<Rightarrow> int \<Rightarrow> int" where
  "go_mod a b = a - b * go_div a b"

lemma go_div_nonneg: "0 \<le> a \<Longrightarrow> 0 < b \<Longrightarrow> go_div a b = a div b"
  by (cases "a = 0") (simp_all add: go_div_def)

lemma go_mod_nonneg: "0 \<le> a \<Longrightarrow> 0 < b \<Longrightarrow> go_mod a b = a mod b"
  by (simp add: go_mod_def go_div_nonneg minus_mult_div_eq_mod)

lemma go_div_neg: "a < 0 \<Longrightarrow> 0 < b \<Longrightarrow> go_div a b = - ((- a) div b)"
  by (simp add: go_div_def)

lemma go_mod_neg: "a < 0 \<Longrightarrow> 0 < b \<Longrightarrow> go_mod a b = - ((- a) mod b)"
  by (simp add: go_mod_def go_div_neg minus_div_mult_eq_mod [symmetric] algebra_simps)

lemma go_div_mod: "b * go_div a b + go_mod a b = a"
  by (simp add: go_mod_def)

section \<open>Words, bytes and integers\<close>

text \<open>
  The conversions of the sources go through signed shifts and byte truncation; as integers
  they are division by a power of two and remainder modulo 256.
\<close>

lemma byte_sar [go_word]:
  "(ucast (signed_drop_bit n (v :: 'a::len word)) :: byte) = word_of_int (sint v div 2 ^ n)"
  if "8 \<le> LENGTH('a)"
proof (rule bit_word_eqI)
  fix k assume "k < LENGTH(8)"
  moreover have "n + k = LENGTH('a) - 1" if "n + k < LENGTH('a)" "LENGTH('a) - 1 \<le> n + k"
    using that by arith
  ultimately show "bit (ucast (signed_drop_bit n v) :: byte) k =
      bit (word_of_int (sint v div 2 ^ n) :: byte) k"
    using that
    by (auto simp: bit_simps bit_sint_iff drop_bit_eq_div [symmetric] min_def ac_simps not_le
        less_diff_conv2 le_diff_conv)
qed

lemma byte_add [go_word]:
  "(ucast (a + b) :: byte) = ucast a + ucast (b :: 'a::len word)" if "8 \<le> LENGTH('a)"
proof -
  have *: "(word_of_int (x mod 2 ^ LENGTH('a)) :: byte) = word_of_int x" for x
    using that by (intro word_uint_eqI)
      (simp add: uint_word_of_int_eq min_absorb1 flip: take_bit_eq_mod)
  have "(ucast (a + b) :: byte) = word_of_int ((uint a + uint b) mod 2 ^ LENGTH('a))"
    by (simp only: ucast_eq uint_word_ariths(1))
  also have "\<dots> = word_of_int (uint a) + word_of_int (uint b)"
    by (simp only: * wi_hom_add)
  finally show ?thesis by (simp only: ucast_eq)
qed

lemma byte_ucast:
  "(ucast (v :: 'a::len word) :: byte) = word_of_int (sint v)" if "8 \<le> LENGTH('a)"
  using byte_sar [OF that, of 0 v] by simp

lemma ucast_byte_up [go_word]:
  "(ucast (word_of_int j :: byte) :: 'a::len word) = word_of_int (j mod 256)"
  by (simp add: ucast_eq uint_word_of_int)

lemma push_bit_word_of_int [go_word]:
  "push_bit n (word_of_int j :: 'a::len word) = word_of_int (j * 2 ^ n)"
  by (simp add: push_bit_eq_mult)

lemma byte_le_uint [go_word]: "(a :: byte) \<le> b \<longleftrightarrow> uint a \<le> uint b"
  by (rule word_le_def)

lemma word_eq_sint: "v = word_of_int (sint v)"
  by simp

text \<open>Four and eight big-endian bytes of an integer give it back modulo the word size.\<close>

lemma mod_byte_split:
  assumes "m = n + 8"
  shows "(i :: int) mod 2 ^ m = i div 2 ^ n mod 256 * 2 ^ n + i mod 2 ^ n"
  using zmod_zmult2_eq [of 256 i "2 ^ n"] assms by (simp add: power_add mult.commute)

lemma four_bytes:
  "i div 2 ^ 24 mod 256 * 2 ^ 24 + i div 2 ^ 16 mod 256 * 2 ^ 16 + i div 2 ^ 8 mod 256 * 2 ^ 8
     + i mod 256 = (i :: int) mod 2 ^ 32"
proof -
  note split = mod_byte_split [of _ _ i]
  have "i mod 2 ^ 32 = i div 2 ^ 24 mod 256 * 2 ^ 24 + i mod 2 ^ 24" by (rule split) simp
  also have "i mod 2 ^ 24 = i div 2 ^ 16 mod 256 * 2 ^ 16 + i mod 2 ^ 16" by (rule split) simp
  also have "i mod 2 ^ 16 = i div 2 ^ 8 mod 256 * 2 ^ 8 + i mod 2 ^ 8" by (rule split) simp
  also have "i mod 2 ^ 8 = i mod 256" by simp
  finally show ?thesis by (simp only: add.assoc)
qed

lemma eight_bytes:
  "i div 2 ^ 56 mod 256 * 2 ^ 56 + i div 2 ^ 48 mod 256 * 2 ^ 48 + i div 2 ^ 40 mod 256 * 2 ^ 40
     + i div 2 ^ 32 mod 256 * 2 ^ 32 + i div 2 ^ 24 mod 256 * 2 ^ 24
     + i div 2 ^ 16 mod 256 * 2 ^ 16 + i div 2 ^ 8 mod 256 * 2 ^ 8
     + i mod 256 = (i :: int) mod 2 ^ 64"
proof -
  note split = mod_byte_split [of _ _ i]
  have "i mod 2 ^ 64 = i div 2 ^ 56 mod 256 * 2 ^ 56 + i mod 2 ^ 56" by (rule split) simp
  also have "i mod 2 ^ 56 = i div 2 ^ 48 mod 256 * 2 ^ 48 + i mod 2 ^ 48" by (rule split) simp
  also have "i mod 2 ^ 48 = i div 2 ^ 40 mod 256 * 2 ^ 40 + i mod 2 ^ 40" by (rule split) simp
  also have "i mod 2 ^ 40 = i div 2 ^ 32 mod 256 * 2 ^ 32 + i mod 2 ^ 32" by (rule split) simp
  also note four_bytes [symmetric]
  finally show ?thesis by (simp only: add.assoc)
qed

lemma tag_minus: "t - c = word_of_int i" if "uint (t :: byte) = i + uint c" for t c
  using that by (metis add_diff_cancel_right' of_int_diff word_of_int_uint)

lemma uint_tag:
  assumes "0 \<le> i + uint c" "i + uint c < 256"
  shows "uint (word_of_int i + c :: byte) = i + uint c" "uint (c + word_of_int i :: byte) = i + uint c"
proof -
  have *: "word_of_int i + c = (word_of_int (i + uint c) :: byte)" by simp
  show "uint (word_of_int i + c :: byte) = i + uint c"
    using assms by (simp add: * uint_word_of_int del: of_int_add)
  then show "uint (c + word_of_int i :: byte) = i + uint c" by (simp add: add.commute)
qed

lemma neg_mod_shift: "x mod m = x + m" if "- m \<le> x" "x < 0" for x m :: int
proof -
  have "x mod m = (x + m) mod m" by simp
  also have "\<dots> = x + m" using that by (intro mod_pos_pos_trivial) auto
  finally show ?thesis .
qed

lemma div_range:
  fixes i m a b :: int
  assumes "0 < m" "a * m \<le> i" "i < b * m"
  shows "a \<le> i div m" "i div m < b"
proof -
  show "a \<le> i div m" using zdiv_mono1 [OF assms(2,1)] assms(1) by simp
  have "i div m * m \<le> i" using assms(1) by (simp add: minus_mod_eq_div_mult [symmetric])
  then have "i div m * m < b * m" using assms(3) by linarith
  then show "i div m < b" using assms(1) by simp
qed

lemma word_of_sint_mod: "word_of_int (sint v mod 2 ^ LENGTH('a)) = (v :: 'a::len word)"
  by (metis take_bit_eq_mod uint_sint word_of_int_uint)

lemma uint_eq_sint: "uint v = sint v" if "0 \<le> sint (v :: 'a::len word)"
proof -
  have "sint v < 2 ^ LENGTH('a)"
    using sint_lt [of v] power_increasing [of "LENGTH('a) - 1" "LENGTH('a)" "2 :: int"] by linarith
  with that have "sint v mod 2 ^ LENGTH('a) = sint v" by simp
  then show ?thesis by (metis take_bit_eq_mod uint_sint)
qed

lemma sint_word_of_int_small:
  assumes "- (2 ^ (LENGTH('a) - 1)) \<le> x" "x < 2 ^ (LENGTH('a) - 1)"
  shows "sint (word_of_int x :: 'a::len word) = x"
  using assms by (simp add: sint_sbintrunc' signed_take_bit_int_eq_self)

end
