(* ===== verification/Go_Strings.thy ===== *)
theory Go_Strings
  imports Go_Prelude
begin

text \<open>
  Functions of the packages \<^verbatim>\<open>strings\<close> and \<^verbatim>\<open>path\<close> of the Go library that the sources use, on HOL
  strings: splitting and joining, and the lexical cleaning of slash-separated paths.
\<close>

section \<open>Bytes and characters\<close>

text \<open>The characters of a Go string, one per byte; the inverse of \<open>str\<close>.\<close>

definition chars :: "byte list \<Rightarrow> string" where
  "chars bs = map (\<lambda>b. char_of (unat b)) bs"

lemma chars_simps [simp]: "chars [] = []" "chars (b # bs) = char_of (unat b) # chars bs"
  "chars (bs @ cs) = chars bs @ chars cs" "length (chars bs) = length bs"
  by (simp_all add: chars_def)

lemma str_simps [simp]: "str [] = []" "str (c # s) = of_char c # str s"
  "str (s @ t) = str s @ str t" "length (str s) = length s"
  by (simp_all add: str_def)

lemma of_char_byte: "unat (of_char c :: byte) = of_char c"
proof -
  have "(of_char c :: nat) < 256" by simp
  moreover have "(of_char c :: byte) = of_nat (of_char c)" by (simp only: of_nat_of_char)
  ultimately show ?thesis by (simp add: unat_of_nat take_bit_eq_mod del: of_nat_of_char)
qed

lemma char_byte: "of_char (char_of (unat b)) = (b :: byte)"
proof (rule word_unat_eq_iff [THEN iffD2])
  have "unat b < 256" using unsigned_less [of b, where ?'a = nat] by simp
  then show "unat (of_char (char_of (unat b)) :: byte) = unat b"
    by (simp add: of_char_byte)
qed

lemma chars_str [simp]: "chars (str s) = s"
  by (induction s) (simp_all add: of_char_byte)

lemma str_chars [simp]: "str (chars bs) = bs"
  by (induction bs) (simp_all add: char_byte)

lemma drop_str: "drop n (str s) = str (drop n s)"
  by (simp add: str_def drop_map)

lemma take_str: "take n (str s) = str (take n s)"
  by (simp add: str_def take_map)

section \<open>Splitting and joining\<close>

text \<open>\<^verbatim>\<open>strings.Split(s, c)\<close> for a separator of one character: never empty.\<close>

fun Split :: "char \<Rightarrow> string \<Rightarrow> string list" where
  "Split c [] = [[]]"
| "Split c (x # xs) = (if x = c then [] # Split c xs
     else (case Split c xs of [] \<Rightarrow> [[x]] | w # ws \<Rightarrow> (x # w) # ws))"

lemma Split_not_Nil [simp]: "Split c s \<noteq> []"
  by (induction s) (auto split: list.splits)

fun Join :: "char \<Rightarrow> string list \<Rightarrow> string" where
  "Join c [] = []"
| "Join c [w] = w"
| "Join c (w # ws) = w @ [c] @ Join c ws"

lemma Split_word: "c \<notin> set w \<Longrightarrow> Split c w = [w]"
  by (induction w) auto

lemma Split_append: "c \<notin> set w \<Longrightarrow> Split c (w @ c # s) = w # Split c s"
  by (induction w) auto

lemma Split_Join: "ws \<noteq> [] \<Longrightarrow> (\<And>w. w \<in> set ws \<Longrightarrow> c \<notin> set w) \<Longrightarrow> Split c (Join c ws) = ws"
  by (induction c ws rule: Join.induct) (simp_all add: Split_word Split_append)

text \<open>\<^verbatim>\<open>strings.HasPrefix\<close> and \<^verbatim>\<open>strings.TrimPrefix\<close>.\<close>

definition HasPrefix :: "string \<Rightarrow> string \<Rightarrow> bool" where
  "HasPrefix s p = (take (length p) s = p)"

definition TrimPrefix :: "string \<Rightarrow> string \<Rightarrow> string" where
  "TrimPrefix s p = (if HasPrefix s p then drop (length p) s else s)"

text \<open>\<^verbatim>\<open>strconv.Itoa\<close>, which is also what \<^verbatim>\<open>%d\<close> prints.\<close>

fun nat_str :: "nat \<Rightarrow> string" where
  "nat_str n = (if n < 10 then [char_of (48 + n)] else nat_str (n div 10) @ [char_of (48 + n mod 10)])"

declare nat_str.simps [simp del]

definition itoa :: "int \<Rightarrow> string" where
  "itoa i = (if i < 0 then CHR ''-'' # nat_str (nat (- i)) else nat_str (nat i))"

text \<open>\<^verbatim>\<open>strconv.Atoi\<close> on decimal digits with an optional sign, within 64 bits.\<close>

definition digit_val :: "char \<Rightarrow> nat option" where
  "digit_val c = (let n = of_char c :: nat in if 48 \<le> n \<and> n \<le> 57 then Some (n - 48) else None)"

fun digits_val :: "nat \<Rightarrow> string \<Rightarrow> nat option" where
  "digits_val acc [] = Some acc"
| "digits_val acc (c # cs) = (case digit_val c of None \<Rightarrow> None | Some d \<Rightarrow> digits_val (10 * acc + d) cs)"

definition Atoi :: "string \<Rightarrow> int option" where
  "Atoi s = (let neg = (s \<noteq> [] \<and> hd s = CHR ''-'');
       ds = (if s \<noteq> [] \<and> (hd s = CHR ''-'' \<or> hd s = CHR ''+'') then tl s else s)
     in if ds = [] then None
        else (case digits_val 0 ds of
          None \<Rightarrow> None
        | Some n \<Rightarrow>
            let i = (if neg then - int n else int n)
            in if - (2 ^ 63) \<le> i \<and> i < 2 ^ 63 then Some i else None))"

lemma digit_val_char: "d < 10 \<Longrightarrow> digit_val (char_of (48 + d :: nat)) = Some d"
  by (simp add: digit_val_def Let_def)

lemma digits_val_append: "digits_val a (xs @ ys) = (case digits_val a xs of None \<Rightarrow> None | Some b \<Rightarrow> digits_val b ys)"
  by (induction xs arbitrary: a) (auto split: option.splits)

lemma digits_val_nat_str: "digits_val 0 (nat_str n) = Some n"
proof (induction n rule: nat_str.induct)
  case (1 n)
  show ?case
  proof (cases "n < 10")
    case True
    then show ?thesis by (simp add: nat_str.simps [of n] digit_val_char)
  next
    case False
    then show ?thesis using 1 by (simp add: nat_str.simps [of n] digits_val_append digit_val_char)
  qed
qed

lemma nat_str_not_Nil [simp]: "nat_str n \<noteq> []"
  by (subst nat_str.simps) simp

lemma nat_str_hd: "hd (nat_str n) \<noteq> CHR ''-'' \<and> hd (nat_str n) \<noteq> CHR ''+''"
proof (induction n rule: nat_str.induct)
  case (1 n)
  have d: "\<forall>k \<in> set [0..<10]. char_of (48 + k :: nat) \<noteq> CHR ''-'' \<and> char_of (48 + k) \<noteq> CHR ''+''" by code_simp
  show ?case using 1 d by (cases "n < 10") (simp_all add: nat_str.simps [of n] hd_append)
qed

lemma Atoi_itoa: "0 \<le> n \<Longrightarrow> n < 2 ^ 63 \<Longrightarrow> Atoi (itoa n) = Some n"
  using nat_str_hd [of "nat n"] by (simp add: Atoi_def itoa_def digits_val_nat_str Let_def)

lemma nat_str_digit: "c \<in> set (nat_str n) \<Longrightarrow> digit_val c \<noteq> None"
proof (induction n rule: nat_str.induct)
  case (1 n)
  then show ?case by (cases "n < 10") (auto simp: nat_str.simps [of n] digit_val_char)
qed

lemma not_digit [simp]: "digit_val CHR '':'' = None" "digit_val CHR ''-'' = None"
  by (simp_all add: digit_val_def)

lemma itoa_chars: "0 \<le> n \<Longrightarrow> digit_val c = None \<Longrightarrow> c \<notin> set (itoa n)"
  using nat_str_digit [of c "nat n"] by (auto simp: itoa_def)

section \<open>Paths\<close>

text \<open>
  \<^verbatim>\<open>path.Clean\<close>: empty and \<^verbatim>\<open>.\<close> components go, \<^verbatim>\<open>..\<close> takes the component before it, or nothing at the
  root. The second argument holds the components so far, the last one first.
\<close>

fun clean_parts :: "bool \<Rightarrow> string list \<Rightarrow> string list \<Rightarrow> string list" where
  "clean_parts rooted st [] = rev st"
| "clean_parts rooted st (c # cs) =
     (if c = [] \<or> c = ''.'' then clean_parts rooted st cs
      else if c = ''..'' then
        (case st of
           [] \<Rightarrow> if rooted then clean_parts rooted [] cs else clean_parts rooted [''..''] cs
         | d # st' \<Rightarrow> if d = ''..'' then clean_parts rooted (''..'' # st) cs else clean_parts rooted st' cs)
      else clean_parts rooted (c # st) cs)"

definition Clean :: "string \<Rightarrow> string" where
  "Clean p =
     (if p = [] then ''.''
      else let rooted = (hd p = CHR ''/'');
               s = (if rooted then ''/'' else []) @ Join (CHR ''/'') (clean_parts rooted [] (Split (CHR ''/'') p))
           in if s = [] then ''.'' else s)"

definition path_Join :: "string list \<Rightarrow> string" where
  "path_Join es = (let es = dropWhile (\<lambda>e. e = []) es in if es = [] then [] else Clean (Join (CHR ''/'') es))"

text \<open>A plain component, which cleaning keeps.\<close>

definition plain :: "string \<Rightarrow> bool" where
  "plain c \<longleftrightarrow> c \<noteq> [] \<and> c \<noteq> ''.'' \<and> c \<noteq> ''..'' \<and> CHR ''/'' \<notin> set c"

definition abs_path :: "string list \<Rightarrow> string" where
  "abs_path cs = concat (map (\<lambda>c. CHR ''/'' # c) cs)"

lemma clean_parts_plain:
  "(\<And>c. c \<in> set cs \<Longrightarrow> plain c) \<Longrightarrow> clean_parts rooted st cs = rev st @ cs"
  by (induction cs arbitrary: st) (auto simp: plain_def)

lemma clean_parts_append_plain:
  assumes "\<And>c. c \<in> set cs \<Longrightarrow> plain c"
  shows "clean_parts rooted st (cs @ ds) = clean_parts rooted (rev cs @ st) ds"
  using assms by (induction cs arbitrary: st) (auto simp: plain_def)

lemma Split_abs_path:
  "(\<And>c. c \<in> set cs \<Longrightarrow> plain c) \<Longrightarrow> Split (CHR ''/'') (abs_path cs) = [] # cs"
proof (induction cs)
  case (Cons c cs)
  then have IH: "Split (CHR ''/'') (abs_path cs) = [] # cs" by simp
  have c: "CHR ''/'' \<notin> set c" using Cons.prems [of c] by (simp add: plain_def)
  then have "Split (CHR ''/'') (c @ abs_path cs) = c # cs"
  proof (cases cs)
    case Nil
    then show ?thesis using c by (simp add: abs_path_def Split_word)
  next
    case (Cons d ds)
    then have a: "abs_path cs = CHR ''/'' # (d @ abs_path ds)" by (simp add: abs_path_def)
    then show ?thesis using Split_append [OF c, of "d @ abs_path ds"] IH Cons by simp
  qed
  then show ?case by (simp add: abs_path_def)
qed (simp add: abs_path_def)

lemma Join_abs_path: "cs \<noteq> [] \<Longrightarrow> CHR ''/'' # Join (CHR ''/'') cs = abs_path cs"
  by (induction "CHR ''/''" cs rule: Join.induct) (auto simp: abs_path_def)

lemma Split_append_gen: "Split c (s @ c # t) = Split c s @ Split c t"
proof (induction s)
  case (Cons x s)
  show ?case
  proof (cases "x = c")
    case False
    obtain w ws where w: "Split c s = w # ws" by (cases "Split c s") auto
    then show ?thesis using Cons False by simp
  qed (simp add: Cons)
qed simp

text \<open>One more component after a path of plain ones, as \<^verbatim>\<open>path.Join(tmpPath, "/", str)\<close> builds it.\<close>

lemma path_Join_step:
  assumes "\<And>d. d \<in> set cs \<Longrightarrow> plain d" "plain c"
  shows "path_Join [abs_path cs, ''/'', c] = abs_path (cs @ [c])"
proof -
  have c: "Split (CHR ''/'') c = [c]" using assms(2) by (simp add: plain_def Split_word)
  have parts: "clean_parts True [] (([] # cs) @ [[], [], c]) = cs @ [c]"
    using assms(1) clean_parts_append_plain [of cs True "[]" "[[], [], c]"] assms(2) by (simp add: plain_def)
  have j: "CHR ''/'' # Join (CHR ''/'') (cs @ [c]) = abs_path (cs @ [c])" by (rule Join_abs_path) simp
  show ?thesis
  proof (cases "cs = []")
    case True
    then show ?thesis using c assms(2) j
      by (simp add: path_Join_def Clean_def Let_def abs_path_def plain_def)
  next
    case False
    then obtain d ds where d: "cs = d # ds" by (cases cs) auto
    have "Join (CHR ''/'') [abs_path cs, ''/'', c] = abs_path cs @ ''/'' @ ''/'' @ ''/'' @ c" by simp
    moreover have "Split (CHR ''/'') (abs_path cs @ CHR ''/'' # CHR ''/'' # CHR ''/'' # c) = ([] # cs) @ [[], [], c]"
      by (simp only: Split_append_gen Split_abs_path [OF assms(1)] append.simps Split.simps c) simp
    moreover have "hd (abs_path cs @ x) = CHR ''/''" for x by (simp add: d abs_path_def)
    ultimately show ?thesis using parts j False
      by (simp add: path_Join_def Clean_def Let_def d abs_path_def)
  qed
qed

end
