(* ===== verification/Zk_Client.thy ===== *)
theory Zk_Client
  imports Go_Strings "HOL-Library.AList"
begin

text \<open>
  The ZooKeeper client, \<^verbatim>\<open>registry/zk/zk_client.go\<close>: a connection that is given up when it breaks, the
  channels that wait for a change of a node, and the operations on nodes. The ZooKeeper library is
  a parameter: a record of its functions on a state of its own. The mutex of the client is held
  around each use of the connection and is not modelled.
\<close>

section \<open>The library\<close>

text \<open>
  A boolean next to the children of a node says that its \<^verbatim>\<open>Stat\<close> is not nil; a number next to a result
  is the channel of the watch. \<open>zk_Create p data eph seq\<close> has the two flags of the call.
\<close>

record 'z zkapi =
  zk_Connect :: "string list \<Rightarrow> int \<Rightarrow> 'z \<Rightarrow> unit outcome \<times> 'z"
  zk_Close :: "'z \<Rightarrow> 'z"
  zk_Create :: "string \<Rightarrow> string \<Rightarrow> bool \<Rightarrow> bool \<Rightarrow> 'z \<Rightarrow> string outcome \<times> 'z"
  zk_Delete :: "string \<Rightarrow> int \<Rightarrow> 'z \<Rightarrow> unit outcome \<times> 'z"
  zk_Children :: "string \<Rightarrow> 'z \<Rightarrow> (string list \<times> bool) outcome \<times> 'z"
  zk_ChildrenW :: "string \<Rightarrow> 'z \<Rightarrow> (string list \<times> bool \<times> nat) outcome \<times> 'z"
  zk_ExistsW :: "string \<Rightarrow> 'z \<Rightarrow> (bool \<times> nat) outcome \<times> 'z"

text \<open>
  Documented behaviour of \<^verbatim>\<open>Create\<close> without the sequence flag, with \<open>nodes\<close> the nodes that exist: it
  returns the path and adds the node if it was not there, fails with \<^verbatim>\<open>ErrNodeExists\<close> if it was, and
  any other failure changes nothing.
\<close>

definition zk_create_ok :: "'z zkapi \<Rightarrow> ('z \<Rightarrow> string set) \<Rightarrow> bool" where
  "zk_create_ok Z nodes \<longleftrightarrow> (\<forall>p data eph z res z'. zk_Create Z p data eph False z = (res, z') \<longrightarrow>
     (case res of
        Ok q \<Rightarrow> q = p \<and> p \<notin> nodes z \<and> nodes z' = insert p (nodes z)
      | Err e \<Rightarrow> (e = ErrNodeExists \<longleftrightarrow> p \<in> nodes z) \<and> nodes z' = nodes z
      | _ \<Rightarrow> False))"

text \<open>A server that keeps its nodes in a list and never fails otherwise, for the witnesses.\<close>

definition zk0 :: "string list zkapi" where
  "zk0 = \<lparr>zk_Connect = (\<lambda>_ _ z. (Ok (), z)), zk_Close = (\<lambda>z. z),
     zk_Create = (\<lambda>p _ _ _ z. if p \<in> set z then (Err ErrNodeExists, z) else (Ok p, p # z)),
     zk_Delete = (\<lambda>p _ z. if p \<in> set z then (Ok (), removeAll p z) else (Err ErrNoNode, z)),
     zk_Children = (\<lambda>p z. (Ok (map (drop (length p + 1)) (filter (\<lambda>q. HasPrefix q (p @ ''/'')) z), True), z)),
     zk_ChildrenW = (\<lambda>p z. (Ok (map (drop (length p + 1)) (filter (\<lambda>q. HasPrefix q (p @ ''/'')) z), True, 0), z)),
     zk_ExistsW = (\<lambda>p z. (Ok (p \<in> set z, 0), z))\<rparr>"

lemma zk0_ok: "zk_create_ok zk0 set"
  by (auto simp: zk_create_ok_def zk0_def split: if_splits)

section \<open>The client\<close>

definition ZK_CLIENT_CONN_NIL_ERR :: goerr where
  "ZK_CLIENT_CONN_NIL_ERR = Errorf ''zookeeperclient{conn} is nil''"

text \<open>
  \<open>zc_conn\<close> says that the connection is not nil, \<open>zc_exit\<close> that the channel \<^verbatim>\<open>exit\<close> is closed. A
  registered channel is a number, its address; the registry is a list of entries with different keys.
\<close>

record zookeeperClient =
  zc_name :: string
  zc_zkAddrs :: "string list"
  zc_conn :: bool
  zc_timeout :: int
  zc_exit :: bool
  zc_eventRegistry :: "(string \<times> nat list) list"

definition newZookeeperClient ::
  "ext \<Rightarrow> 'z zkapi \<Rightarrow> string \<Rightarrow> string list \<Rightarrow> int \<Rightarrow> 'z \<Rightarrow> zookeeperClient outcome \<times> 'z" where
  "newZookeeperClient X Z name addrs timeout z =
     (let c = \<lparr>zc_name = name, zc_zkAddrs = addrs, zc_conn = True, zc_timeout = timeout, zc_exit = False,
               zc_eventRegistry = []\<rparr>
      in otry (zk_Connect Z addrs timeout z)
           (\<lambda>e z. (ret c (je_Annotatef X ''zk.Connect(zkAddrs:%+v)'' (Some e)), z))
           (\<lambda>_ z. (Ok c, z)))"

definition stop :: "zookeeperClient \<Rightarrow> bool \<times> zookeeperClient" where
  "stop c = (if zc_exit c then (True, c) else (False, c\<lparr>zc_exit := True\<rparr>))"

definition zkConnValid :: "zookeeperClient \<Rightarrow> bool" where
  "zkConnValid c = (if zc_exit c then False else zc_conn c)"

text \<open>Closing a connection that is not nil yet.\<close>

definition drop_conn :: "'z zkapi \<Rightarrow> zookeeperClient \<Rightarrow> 'z \<Rightarrow> zookeeperClient \<times> 'z" where
  "drop_conn Z c z = (if zc_conn c then (c\<lparr>zc_conn := False\<rparr>, zk_Close Z z) else (c, z))"

definition zc_Close :: "'z zkapi \<Rightarrow> zookeeperClient \<Rightarrow> 'z \<Rightarrow> zookeeperClient \<times> 'z" where
  "zc_Close Z c z = drop_conn Z (snd (stop c)) z"

section \<open>Waiting channels\<close>

definition registerEvent :: "string \<Rightarrow> nat option \<Rightarrow> zookeeperClient \<Rightarrow> zookeeperClient" where
  "registerEvent zkPath event c = (case event of
     None \<Rightarrow> c
   | Some e \<Rightarrow>
       if zkPath = [] then c
       else (let a = (case map_of (zc_eventRegistry c) zkPath of None \<Rightarrow> [] | Some a \<Rightarrow> a)
             in c\<lparr>zc_eventRegistry := AList.update zkPath (a @ [e]) (zc_eventRegistry c)\<rparr>))"

text \<open>
  The loop of \<^verbatim>\<open>unregisterEvent\<close> ranges over the list as it was, \<open>k\<close> cells of the array from index
  \<open>i\<close>, while it cuts elements out of the same array in place; \<open>m\<close> is the length that is left. Once
  the list has become shorter, a match behind its end makes the slice expression \<^verbatim>\<open>arr[i+1:]\<close> panic.
\<close>

fun unregister_loop :: "nat \<Rightarrow> nat \<Rightarrow> nat \<Rightarrow> nat list \<Rightarrow> nat \<Rightarrow> nat list outcome" where
  "unregister_loop e i 0 arr m = Ok (take m arr)"
| "unregister_loop e i (Suc k) arr m =
     (if arr ! i = e then
        (if m < i + 1 then Panic
         else unregister_loop e (Suc i) k (take i arr @ take (m - 1 - i) (drop (i + 1) arr) @ drop (m - 1) arr) (m - 1))
      else unregister_loop e (Suc i) k arr m)"

definition unregisterEvent :: "string \<Rightarrow> nat \<Rightarrow> zookeeperClient \<Rightarrow> unit outcome \<times> zookeeperClient" where
  "unregisterEvent zkPath event c =
     (if zkPath = [] then (Ok (), c)
      else (case map_of (zc_eventRegistry c) zkPath of
        None \<Rightarrow> (Ok (), c)
      | Some a \<Rightarrow>
          (case unregister_loop event 0 (length a) a (length a) of
             Ok a' \<Rightarrow>
               (Ok (), c\<lparr>zc_eventRegistry :=
                  if a' = [] then AList.delete zkPath (zc_eventRegistry c)
                  else AList.update zkPath a' (zc_eventRegistry c)\<rparr>)
           | Err err \<Rightarrow> (Err err, c) | Panic \<Rightarrow> (Panic, c) | NoFuel \<Rightarrow> (NoFuel, c))))"

section \<open>Events of the session\<close>

text \<open>The values of \<^verbatim>\<open>event.State\<close> that \<^verbatim>\<open>handleZkEvent\<close> tells apart, which are different constants.\<close>

datatype zkState = StateDisconnected | EventNodeDataChanged | EventNodeChildrenChanged
  | StateConnecting | StateConnected | StateHasSession | StateOther

text \<open>
  One event: whether the loop goes on, the next value of its variable \<^verbatim>\<open>state\<close>, and the channels that
  are notified. The condition on \<^verbatim>\<open>state\<close> joins two inequalities by an or.
\<close>

definition handle_event ::
  "'z zkapi \<Rightarrow> zkState \<Rightarrow> zkState \<Rightarrow> string \<Rightarrow> zookeeperClient \<Rightarrow> 'z
   \<Rightarrow> (bool \<times> zkState \<times> nat list) \<times> zookeeperClient \<times> 'z" where
  "handle_event Z state ev path c z = (case ev of
     StateDisconnected \<Rightarrow> (case drop_conn Z (snd (stop c)) z of (c, z) \<Rightarrow> ((False, state, []), c, z))
   | EventNodeDataChanged \<Rightarrow>
       ((True, ev, concat (map snd (filter (\<lambda>(p, a). HasPrefix p path) (zc_eventRegistry c)))), c, z)
   | EventNodeChildrenChanged \<Rightarrow>
       ((True, ev, concat (map snd (filter (\<lambda>(p, a). HasPrefix p path) (zc_eventRegistry c)))), c, z)
   | StateOther \<Rightarrow> ((True, ev, []), c, z)
   | _ \<Rightarrow>
       if state \<noteq> StateConnecting \<or> state \<noteq> StateDisconnected then ((True, state, []), c, z)
       else ((True, ev, case map_of (zc_eventRegistry c) path of None \<Rightarrow> [] | Some a \<Rightarrow> a), c, z))"

text \<open>\<^verbatim>\<open>handleZkEvent\<close> on the events of the session, while \<^verbatim>\<open>exit\<close> is open.\<close>

fun handleZkEvent ::
  "'z zkapi \<Rightarrow> zkState \<Rightarrow> (zkState \<times> string) list \<Rightarrow> zookeeperClient \<Rightarrow> 'z
   \<Rightarrow> nat list \<times> zookeeperClient \<times> 'z" where
  "handleZkEvent Z state [] c z = ([], c, z)"
| "handleZkEvent Z state ((ev, path) # evs) c z =
     (if zc_exit c then ([], c, z)
      else (case handle_event Z state ev path c z of
        ((False, _, out), c, z) \<Rightarrow> (out, c, z)
      | ((True, state, out), c, z) \<Rightarrow>
          (case handleZkEvent Z state evs c z of (out', c, z) \<Rightarrow> (out @ out', c, z))))"

section \<open>Nodes\<close>

text \<open>A call on the connection, or the error for a nil connection.\<close>

definition on_conn :: "zookeeperClient \<Rightarrow> ('z \<Rightarrow> 'a outcome \<times> 'z) \<Rightarrow> 'z \<Rightarrow> 'a outcome \<times> 'z" where
  "on_conn c f z = (if zc_conn c then f z else (Err ZK_CLIENT_CONN_NIL_ERR, z))"

fun Create_loop ::
  "ext \<Rightarrow> 'z zkapi \<Rightarrow> zookeeperClient \<Rightarrow> string \<Rightarrow> string list \<Rightarrow> 'z \<Rightarrow> unit outcome \<times> 'z" where
  "Create_loop X Z c tmpPath [] z = (Ok (), z)"
| "Create_loop X Z c tmpPath (s # ss) z =
     (let tmpPath = path_Join [tmpPath, ''/'', s] in
      otry (on_conn c (zk_Create Z tmpPath [] False False) z)
        (\<lambda>e z. if e = ErrNodeExists then Create_loop X Z c tmpPath ss z
               else (ret () (je_Annotatef X ''zk.Create(path:%s)'' (Some e)), z))
        (\<lambda>_ z. Create_loop X Z c tmpPath ss z))"

definition Create :: "ext \<Rightarrow> 'z zkapi \<Rightarrow> zookeeperClient \<Rightarrow> string \<Rightarrow> 'z \<Rightarrow> unit outcome \<times> 'z" where
  "Create X Z c basePath z = Create_loop X Z c [] (tl (Split (CHR ''/'') basePath)) z"

definition Delete :: "ext \<Rightarrow> 'z zkapi \<Rightarrow> zookeeperClient \<Rightarrow> string \<Rightarrow> 'z \<Rightarrow> unit outcome \<times> 'z" where
  "Delete X Z c basePath z =
     otry (on_conn c (zk_Delete Z basePath (- 1)) z)
       (\<lambda>e z. (ret () (je_Annotatef X ''Delete(basePath:%s)'' (Some e)), z))
       (\<lambda>_ z. (ret () (je_Annotatef X ''Delete(basePath:%s)'' None), z))"

definition RegisterTemp ::
  "ext \<Rightarrow> 'z zkapi \<Rightarrow> zookeeperClient \<Rightarrow> string \<Rightarrow> string \<Rightarrow> 'z \<Rightarrow> string outcome \<times> 'z" where
  "RegisterTemp X Z c basePath node z =
     otry (on_conn c (zk_Create Z (path_Join [basePath] @ ''/'' @ node) [] True False) z)
       (\<lambda>e z. (ret [] (je_Annotatef X ''zk.Create(path:%s, zk.FlagEphemeral)'' (Some e)), z))
       (\<lambda>p z. (Ok p, z))"

definition RegisterTempSeq ::
  "ext \<Rightarrow> 'z zkapi \<Rightarrow> zookeeperClient \<Rightarrow> string \<Rightarrow> string \<Rightarrow> 'z \<Rightarrow> string outcome \<times> 'z" where
  "RegisterTempSeq X Z c basePath data z =
     otry (on_conn c (zk_Create Z (path_Join [basePath] @ ''/'') data True True) z)
       (\<lambda>e z. (ret [] (je_Annotatef X ''zk.Create(path:%s, zk.FlagEphemeral|zk.FlagSequence)'' (Some e)), z))
       (\<lambda>p z. (Ok p, z))"

text \<open>A node without children is an error, like a node that is not there.\<close>

definition no_children :: goerr where
  "no_children = Errorf ''path{%s} has none children''"

definition getChildren :: "ext \<Rightarrow> 'z zkapi \<Rightarrow> zookeeperClient \<Rightarrow> string \<Rightarrow> 'z \<Rightarrow> string list outcome \<times> 'z" where
  "getChildren X Z c path z =
     otry (on_conn c (zk_Children Z path) z)
       (\<lambda>e z. if e = ErrNoNode then (Err no_children, z)
              else (ret [] (je_Annotatef X ''zk.Children(path:%s)'' (Some e)), z))
       (\<lambda>(children, stat) z. if \<not> stat then (Err no_children, z)
              else if children = [] then (Err no_children, z) else (Ok children, z))"

definition getChildrenW ::
  "ext \<Rightarrow> 'z zkapi \<Rightarrow> zookeeperClient \<Rightarrow> string \<Rightarrow> 'z \<Rightarrow> (string list \<times> nat option) outcome \<times> 'z" where
  "getChildrenW X Z c path z =
     otry (on_conn c (zk_ChildrenW Z path) z)
       (\<lambda>e z. if e = ErrNoNode then (Err no_children, z)
              else (ret ([], None) (je_Annotatef X ''zk.ChildrenW(path:%s)'' (Some e)), z))
       (\<lambda>(children, stat, ch) z. if \<not> stat then (Err no_children, z)
              else if children = [] then (Err no_children, z) else (Ok (children, Some ch), z))"

definition existW :: "ext \<Rightarrow> 'z zkapi \<Rightarrow> zookeeperClient \<Rightarrow> string \<Rightarrow> 'z \<Rightarrow> nat option outcome \<times> 'z" where
  "existW X Z c path z =
     otry (on_conn c (zk_ExistsW Z path) z)
       (\<lambda>e z. (ret None (je_Annotatef X ''zk.ExistsW(path:%s)'' (Some e)), z))
       (\<lambda>(exist, ch) z. if \<not> exist then (Err (Errorf ''zkClient{%s} App zk path{%s} does not exist.''), z)
              else (Ok (Some ch), z))"

section \<open>Creating a path\<close>

lemma on_conn_True [simp]: "zc_conn c \<Longrightarrow> on_conn c f z = f z"
  by (simp add: on_conn_def)

definition prefixes_of :: "string list \<Rightarrow> string list \<Rightarrow> string set" where
  "prefixes_of ds cs = {abs_path (ds @ take k cs) |k. 0 < k \<and> k \<le> length cs}"

lemma prefixes_of_Nil [simp]: "prefixes_of ds [] = {}"
  by (simp add: prefixes_of_def)

lemma prefixes_of_Cons: "prefixes_of ds (c # cs) = insert (abs_path (ds @ [c])) (prefixes_of (ds @ [c]) cs)"
proof (rule set_eqI)
  fix x
  have "x \<in> prefixes_of ds (c # cs) \<longleftrightarrow> (\<exists>k. k \<le> length cs \<and> x = abs_path (ds @ c # take k cs))"
    by (auto simp: prefixes_of_def) (metis Suc_le_mono Suc_pred take_Suc_Cons zero_less_Suc)+
  also have "\<dots> \<longleftrightarrow> x = abs_path (ds @ [c]) \<or> x \<in> prefixes_of (ds @ [c]) cs"
    by (auto simp: prefixes_of_def intro: exI [of _ 0]) (metis gr0I take_0)
  finally show "x \<in> prefixes_of ds (c # cs) \<longleftrightarrow> x \<in> insert (abs_path (ds @ [c])) (prefixes_of (ds @ [c]) cs)" by simp
qed

lemma Create_loop_spec:
  assumes "trace_ok X" "zk_create_ok Z nodes" "zc_conn c"
    "\<And>d. d \<in> set ds \<Longrightarrow> plain d" "\<And>d. d \<in> set cs \<Longrightarrow> plain d"
    "Create_loop X Z c (abs_path ds) cs z = (res, z')"
  shows "nodes z \<subseteq> nodes z' \<and> nodes z' \<subseteq> nodes z \<union> prefixes_of ds cs \<and>
    (res = Ok () \<longleftrightarrow> prefixes_of ds cs \<subseteq> nodes z') \<and> (res = Ok () \<or> (\<exists>e. res = Err e))"
  using assms(4-6)
proof (induction cs arbitrary: ds z)
  case (Cons d cs)
  have p: "path_Join [abs_path ds, ''/'', d] = abs_path (ds @ [d])"
    by (rule path_Join_step) (use Cons.prems in auto)
  obtain r z1 where cr: "zk_Create Z (abs_path (ds @ [d])) [] False False z = (r, z1)" by fastforce
  note ok = assms(2) [unfolded zk_create_ok_def, rule_format, OF cr]
  have IH: "nodes z1 \<subseteq> nodes z' \<and> nodes z' \<subseteq> nodes z1 \<union> prefixes_of (ds @ [d]) cs \<and>
      (res = Ok () \<longleftrightarrow> prefixes_of (ds @ [d]) cs \<subseteq> nodes z') \<and> (res = Ok () \<or> (\<exists>e. res = Err e))"
    if "Create_loop X Z c (abs_path (ds @ [d])) cs z1 = (res, z')"
    by (rule Cons.IH [OF _ _ that]) (use Cons.prems in auto)
  show ?case
  proof (cases "(\<exists>q. r = Ok q) \<or> r = Err ErrNodeExists")
    case True
    then have "Create_loop X Z c (abs_path (ds @ [d])) cs z1 = (res, z')"
      using Cons.prems(3) cr assms(3) p by (auto simp: Let_def)
    from IH [OF this] True ok show ?thesis by (auto simp: prefixes_of_Cons)
  next
    case False
    then obtain e where e: "r = Err e" "e \<noteq> ErrNodeExists" using ok by (cases r) auto
    obtain e' where "res = Err e'" "z' = z1"
      using Cons.prems(3) cr assms(3) p e trace_okD(4) [OF assms(1), of "''zk.Create(path:%s)''" e] by (auto simp: Let_def)
    then show ?thesis using ok e by (auto simp: prefixes_of_Cons)
  qed
qed simp

section \<open>Waiting channels\<close>

lemma unregister_loop_absent:
  assumes "\<And>j. i \<le> j \<Longrightarrow> j < i + k \<Longrightarrow> arr ! j \<noteq> e"
  shows "unregister_loop e i k arr m = Ok (take m arr)"
  using assms by (induction k arbitrary: i) auto

lemma unregister_loop_last:
  assumes "e \<notin> set xs"
  shows "unregister_loop e 0 (length (xs @ [e])) (xs @ [e]) (length (xs @ [e])) = Ok xs"
proof -
  have "unregister_loop e i (length xs - i + 1) (xs @ [e]) (length xs + 1) = Ok xs" if "i \<le> length xs" for i
    using that
  proof (induction "length xs - i" arbitrary: i)
    case (Suc k)
    then have i: "i < length xs" "length xs - i = Suc (length xs - Suc i)" by auto
    then have "(xs @ [e]) ! i \<noteq> e" using assms nth_mem by (fastforce simp: nth_append)
    then show ?case using Suc(1) [of "Suc i"] Suc(2) i by simp
  qed simp
  from this [of 0] show ?thesis by simp
qed

definition registry_ok :: "zookeeperClient \<Rightarrow> bool" where
  "registry_ok c \<longleftrightarrow> distinct (map fst (zc_eventRegistry c)) \<and> (\<forall>p a. map_of (zc_eventRegistry c) p = Some a \<longrightarrow> a \<noteq> [])"

lemma drop_conn_simps:
  "fst (drop_conn Z c z) = c\<lparr>zc_conn := False\<rparr>" "snd (drop_conn Z c z) = (if zc_conn c then zk_Close Z z else z)"
  by (simp_all add: drop_conn_def)

lemma handleZkEvent_conn:
  assumes "handleZkEvent Z state evs c z = (out, c', z')"
  shows "z' = (if zc_conn c \<and> \<not> zc_conn c' then zk_Close Z z else z)" "\<not> zc_conn c \<Longrightarrow> \<not> zc_conn c'"
proof -
  have "z' = (if zc_conn c \<and> \<not> zc_conn c' then zk_Close Z z else z) \<and> (\<not> zc_conn c \<longrightarrow> \<not> zc_conn c')"
    using assms
  proof (induction evs arbitrary: state c z out)
    case (Cons x evs)
    obtain ev path where x: "x = (ev, path)" by (cases x)
    show ?case
    proof (cases "zc_exit c")
      case False
      note s = Cons.prems [unfolded x handleZkEvent.simps]
      show ?thesis
        using s False by (cases ev)
          (auto simp: handle_event_def drop_conn_def stop_def split: prod.splits if_splits dest!: Cons.IH)
    qed (use Cons.prems in \<open>auto simp: x\<close>)
  qed simp
  then show "z' = (if zc_conn c \<and> \<not> zc_conn c' then zk_Close Z z else z)" "\<not> zc_conn c \<Longrightarrow> \<not> zc_conn c'" by blast+
qed

section \<open>Properties\<close>



text \<open>
  A channel that waits for a path and gives up again leaves no trace: unregistering the channel
  that was registered last restores the registry, provided it was not registered for this path before.
\<close>

theorem register_unregister:
  assumes "registry_ok c" and "zkPath \<noteq> []"
    and "\<And>a. map_of (zc_eventRegistry c) zkPath = Some a \<Longrightarrow> e \<notin> set a"
  shows "\<exists>c'. unregisterEvent zkPath e (registerEvent zkPath (Some e) c) = (Ok (), c') \<and> registry_ok c' \<and>
    map_of (zc_eventRegistry c') = map_of (zc_eventRegistry c)"
proof -
  define a where "a = (case map_of (zc_eventRegistry c) zkPath of None \<Rightarrow> [] | Some a \<Rightarrow> a)"
  have e: "e \<notin> set a" using assms(3) by (auto simp: a_def split: option.splits)
  note l = unregister_loop_last [OF e]
  have d: "distinct (map fst (zc_eventRegistry c))" using assms(1) by (simp add: registry_ok_def)
  let ?r = "AList.update zkPath (a @ [e]) (zc_eventRegistry c)"
  have r: "zc_eventRegistry (registerEvent zkPath (Some e) c) = ?r"
    using assms(2) by (simp add: registerEvent_def Let_def a_def)
  have d': "distinct (map fst ?r)" by (rule distinct_update [OF d])
  show ?thesis
  proof (cases "a = []")
    case True
    then have "map_of (zc_eventRegistry c) zkPath = None"
      using assms(1) by (auto simp: a_def registry_ok_def split: option.splits)
    then show ?thesis using l assms(1,2) True d'
      by (auto simp: unregisterEvent_def r registry_ok_def update_conv' delete_conv' distinct_delete fun_eq_iff)
  next
    case False
    then have "map_of (zc_eventRegistry c) zkPath = Some a" by (auto simp: a_def split: option.splits)
    then show ?thesis using l assms(1,2) False d'
      by (auto simp: unregisterEvent_def r registry_ok_def update_conv' distinct_update fun_eq_iff)
  qed
qed

theorem register_unregister_witness:
  "\<exists>c'. unregisterEvent ''/a'' 7 (registerEvent ''/a'' (Some 7)
     \<lparr>zc_name = [], zc_zkAddrs = [], zc_conn = True, zc_timeout = 1, zc_exit = False, zc_eventRegistry = [(''/a'', [5])]\<rparr>) = (Ok (), c') \<and>
     map_of (zc_eventRegistry c') ''/a'' = Some [5]"
proof -
  let ?c = "\<lparr>zc_name = [], zc_zkAddrs = [], zc_conn = True, zc_timeout = 1, zc_exit = False,
      zc_eventRegistry = [(''/a'', [5])]\<rparr>"
  have "registry_ok ?c" by (simp add: registry_ok_def)
  from register_unregister [OF this, of "''/a''" 7] show ?thesis by fastforce
qed

text \<open>
  C28: The connection is closed exactly once. Whatever events the session delivers, and however often
  the client is closed afterwards, the library sees one close of a connection that was open, the
  client is invalid from then on, and stopping reports that it was stopped before.
\<close>

theorem conn_closed_once:
  assumes "zc_conn c" and "handleZkEvent Z StateDisconnected evs c z = (out, c1, z1)"
    and "zc_Close Z c1 z1 = (c2, z2)" and "zc_Close Z c2 z2 = (c3, z3)"
  shows "z2 = zk_Close Z z \<and> z3 = z2 \<and> c3 = c2 \<and> \<not> zkConnValid c2 \<and> fst (stop c2)"
proof -
  note h = handleZkEvent_conn [OF assms(2)]
  have c2: "c2 = (snd (stop c1))\<lparr>zc_conn := False\<rparr>" "z2 = (if zc_conn (snd (stop c1)) then zk_Close Z z1 else z1)"
    using assms(3) drop_conn_simps [of Z "snd (stop c1)" z1] by (simp_all add: zc_Close_def)
  then show ?thesis using h assms(1,4) by (auto simp: zc_Close_def drop_conn_def stop_def zkConnValid_def split: if_splits)
qed

theorem conn_closed_once_witness:
  "\<exists>c2 z2. zc_Close (zk0\<lparr>zk_Close := (\<lambda>z. ''x'' # z)\<rparr>)
     (fst (snd (handleZkEvent (zk0\<lparr>zk_Close := (\<lambda>z. ''x'' # z)\<rparr>) StateDisconnected [(StateDisconnected, [])]
        \<lparr>zc_name = [], zc_zkAddrs = [], zc_conn = True, zc_timeout = 1, zc_exit = False, zc_eventRegistry = []\<rparr> [])))
     [''x''] = (c2, z2) \<and> z2 = [''x'']"
proof -
  let ?Z = "zk0\<lparr>zk_Close := (\<lambda>z. ''x'' # z)\<rparr>"
  let ?c = "\<lparr>zc_name = [], zc_zkAddrs = [], zc_conn = True, zc_timeout = 1, zc_exit = False, zc_eventRegistry = []\<rparr>"
  have h: "handleZkEvent ?Z StateDisconnected [(StateDisconnected, [])] ?c [] =
      ([], ?c\<lparr>zc_exit := True, zc_conn := False\<rparr>, [''x''])"
    by (simp add: handle_event_def drop_conn_def stop_def)
  obtain c2 z2 where c2: "zc_Close ?Z (?c\<lparr>zc_exit := True, zc_conn := False\<rparr>) [''x''] = (c2, z2)" by fastforce
  obtain c3 z3 where c3: "zc_Close ?Z c2 z2 = (c3, z3)" by fastforce
  from conn_closed_once [OF _ h c2 c3] have "z2 = zk_Close ?Z []" by simp
  then show ?thesis using c2 h by simp
qed

end
