(* ===== verification/Go_Slice.thy ===== *)
theory Go_Slice
  imports Go_Prelude
begin

text \<open>
  Go slices of pointers where their aliasing matters: a slice is the address of a backing array and
  a length, the heap is the list of the backing arrays, whose length is their capacity. A cell is a
  pointer, \<open>None\<close> when it is nil. All slices of the sources that are modelled this way start at the
  beginning of their array. Address 0 holds the array of capacity 0 that stands for the nil slice.
\<close>

record slice =
  sl_arr :: nat
  sl_len :: nat

type_synonym 'a heap = "'a option list list"

definition nil_slice :: slice where
  "nil_slice = \<lparr>sl_arr = 0, sl_len = 0\<rparr>"

definition cells :: "'a heap \<Rightarrow> slice \<Rightarrow> 'a option list" where
  "cells h s = take (sl_len s) (h ! sl_arr s)"

text \<open>
  \<^verbatim>\<open>append(s, x)\<close> writes in place while there is capacity, and otherwise allocates an array. \<open>newcap\<close>
  is the growth strategy of the run-time system, of which only is used that the new array has room.
\<close>

definition slice_append :: "(nat \<Rightarrow> nat) \<Rightarrow> slice \<Rightarrow> 'a \<Rightarrow> 'a heap \<Rightarrow> slice \<times> 'a heap" where
  "slice_append newcap s x h = (let n = sl_len s; a = h ! sl_arr s in
     if n < length a then (s\<lparr>sl_len := n + 1\<rparr>, h[sl_arr s := a[n := Some x]])
     else (\<lparr>sl_arr = length h, sl_len = n + 1\<rparr>,
           h @ [take n a @ [Some x] @ replicate (newcap (n + 1) - (n + 1)) None]))"

text \<open>\<^verbatim>\<open>append(s[:i], s[i+1:]...)\<close>: the tail moves down in place; the last cell keeps its old value.\<close>

definition slice_delete :: "nat \<Rightarrow> slice \<Rightarrow> 'a heap \<Rightarrow> slice \<times> 'a heap" where
  "slice_delete i s h = (let n = sl_len s; a = h ! sl_arr s in
     (s\<lparr>sl_len := n - 1\<rparr>,
      h[sl_arr s := take i a @ take (n - 1 - i) (drop (i + 1) a) @ drop (n - 1) a]))"

text \<open>A slice that lies in its array and has no nil cell.\<close>

definition slice_ok_in :: "'a heap \<Rightarrow> slice \<Rightarrow> bool" where
  "slice_ok_in h s \<longleftrightarrow> sl_arr s < length h \<and> sl_len s \<le> length (h ! sl_arr s) \<and> None \<notin> set (cells h s)"

definition heap_ok :: "'a heap \<Rightarrow> bool" where
  "heap_ok h \<longleftrightarrow> h \<noteq> [] \<and> h ! 0 = []"

definition contents :: "'a heap \<Rightarrow> slice \<Rightarrow> 'a list" where
  "contents h s = map the (cells h s)"

lemma nil_slice_simps [simp]: "sl_arr nil_slice = 0" "sl_len nil_slice = 0" "cells h nil_slice = []"
  "contents h nil_slice = []"
  by (simp_all add: nil_slice_def cells_def contents_def)

lemma nil_slice_ok [simp]: "heap_ok h \<Longrightarrow> slice_ok_in h nil_slice"
  by (simp add: slice_ok_in_def heap_ok_def)

lemma length_cells: "slice_ok_in h s \<Longrightarrow> length (cells h s) = sl_len s"
  by (simp add: slice_ok_in_def cells_def)

lemma length_contents: "slice_ok_in h s \<Longrightarrow> length (contents h s) = sl_len s"
  by (simp add: contents_def length_cells)

lemma cells_contents: "slice_ok_in h s \<Longrightarrow> cells h s = map Some (contents h s)"
  unfolding contents_def slice_ok_in_def
  by (auto intro!: map_idI [symmetric]) (metis option.collapse)

lemma cells_nth:
  assumes "slice_ok_in h s" "i < sl_len s"
  shows "h ! sl_arr s ! i = Some (contents h s ! i)"
proof -
  have "h ! sl_arr s ! i = cells h s ! i" using assms(2) by (simp add: cells_def)
  also have "\<dots> = Some (contents h s ! i)"
    using assms by (simp add: cells_contents length_contents)
  finally show ?thesis .
qed

subsection \<open>Which arrays an operation touches\<close>

text \<open>
  An operation on a slice changes the array of the slice and allocates; every other array, and so
  every slice on another array, stays as it was.
\<close>

definition frame :: "nat set \<Rightarrow> 'a heap \<Rightarrow> 'a heap \<Rightarrow> bool" where
  "frame W h h' \<longleftrightarrow> length h \<le> length h' \<and> (\<forall>a < length h. a \<notin> W \<longrightarrow> h' ! a = h ! a)"

lemma frame_refl [simp]: "frame W h h"
  by (simp add: frame_def)

lemma frame_trans: "frame W h h' \<Longrightarrow> frame W' h' h'' \<Longrightarrow> W' \<inter> {..<length h} \<subseteq> W \<Longrightarrow> frame W h h''"
  unfolding frame_def by (metis (no_types, lifting) IntI lessThan_iff less_le_trans order_trans subsetD)

lemma frame_mono: "frame W h h' \<Longrightarrow> W \<subseteq> W' \<Longrightarrow> frame W' h h'"
  by (auto simp: frame_def)

lemma frame_alloc [simp]: "frame W h (h @ hs)"
  by (simp add: frame_def nth_append)

lemma frame_cells:
  assumes "frame W h h'" "sl_arr s < length h" "sl_arr s \<notin> W"
  shows "cells h' s = cells h s" "contents h' s = contents h s"
  using assms by (simp_all add: frame_def cells_def contents_def)

lemma frame_slice_ok:
  assumes "frame W h h'" "slice_ok_in h s" "sl_arr s \<notin> W"
  shows "slice_ok_in h' s"
proof -
  have "sl_arr s < length h" using assms(2) by (simp add: slice_ok_in_def)
  with assms frame_cells [OF assms(1) this assms(3)] show ?thesis
    by (auto simp: slice_ok_in_def frame_def)
qed

lemma slice_append_spec:
  assumes h: "heap_ok h" and s: "slice_ok_in h s" and e: "slice_append newcap s x h = (s', h')"
  shows "slice_ok_in h' s'" "contents h' s' = contents h s @ [x]" "heap_ok h'"
    "sl_arr s' = sl_arr s \<and> 0 < sl_arr s \<or> sl_arr s' = length h" "frame {sl_arr s} h h'"
    "0 < sl_arr s' \<and> sl_arr s' < length h'"
proof -
  let ?n = "sl_len s" and ?a = "h ! sl_arr s"
  have len: "sl_arr s < length h" "?n \<le> length ?a" and nn: "None \<notin> set (take ?n ?a)"
    using s by (simp_all add: slice_ok_in_def cells_def)
  have pos: "0 < sl_arr s" if "?n < length ?a" using that h by (intro gr0I) (auto simp: heap_ok_def)
  show "slice_ok_in h' s'" "contents h' s' = contents h s @ [x]" "heap_ok h'"
    "sl_arr s' = sl_arr s \<and> 0 < sl_arr s \<or> sl_arr s' = length h" "frame {sl_arr s} h h'"
    "0 < sl_arr s' \<and> sl_arr s' < length h'"
    using e h len nn pos
    by (auto simp: slice_append_def Let_def slice_ok_in_def contents_def cells_def heap_ok_def frame_def
        nth_append take_Suc_conv_app_nth nth_list_update split: if_splits)
qed

lemma slice_delete_spec:
  assumes h: "heap_ok h" and s: "slice_ok_in h s" and i: "i < sl_len s"
    and e: "slice_delete i s h = (s', h')"
  shows "slice_ok_in h' s'" "contents h' s' = take i (contents h s) @ drop (Suc i) (contents h s)" "heap_ok h'"
    "sl_arr s' = sl_arr s" "frame {sl_arr s} h h'" "sl_len s' = sl_len s - 1" "length h' = length h"
    "\<And>j. j < i \<Longrightarrow> h' ! sl_arr s ! j = h ! sl_arr s ! j"
    "\<And>j. i \<le> j \<Longrightarrow> j < sl_len s - 1 \<Longrightarrow> h' ! sl_arr s ! j = h ! sl_arr s ! Suc j"
    "h' ! sl_arr s ! (sl_len s - 1) = h ! sl_arr s ! (sl_len s - 1)"
    "length (h' ! sl_arr s) = length (h ! sl_arr s)"
proof -
  let ?n = "sl_len s" and ?a = "h ! sl_arr s"
  have len: "sl_arr s < length h" "?n \<le> length ?a" and nn: "None \<notin> set (take ?n ?a)"
    using s by (simp_all add: slice_ok_in_def cells_def)
  have arr: "sl_arr s' = sl_arr s" and ln: "sl_len s' = ?n - 1"
    and h': "h' = h[sl_arr s := take i ?a @ take (?n - 1 - i) (drop (i + 1) ?a) @ drop (?n - 1) ?a]"
    using e by (auto simp: slice_delete_def Let_def)
  have eq: "?n - Suc 0 = i" if "?n - Suc 0 \<le> i" using that i by simp
  have cl: "cells h' s' = take i (cells h s) @ drop (Suc i) (cells h s)"
    using len i by (simp add: cells_def arr ln h' min_def drop_take) (auto simp: eq)
  show arr: "sl_arr s' = sl_arr s" and "sl_len s' = ?n - 1" by fact+
  show "contents h' s' = take i (contents h s) @ drop (Suc i) (contents h s)"
    by (simp add: contents_def cl take_map drop_map)
  show l: "length (h' ! sl_arr s) = length ?a" "length h' = length h" using len i by (simp_all add: h')
  show "slice_ok_in h' s'"
    using s len i l by (auto simp: slice_ok_in_def cl arr ln dest: in_set_takeD in_set_dropD)
  show "heap_ok h'" using h len i by (auto simp: heap_ok_def h' nth_list_update)
  show "frame {sl_arr s} h h'" by (simp add: frame_def h')
  show "\<And>j. j < i \<Longrightarrow> h' ! sl_arr s ! j = ?a ! j"
    using len i by (simp add: h' nth_append)
  show "h' ! sl_arr s ! j = ?a ! Suc j" if "i \<le> j" "j < ?n - 1" for j
  proof -
    have "j - i < ?n - Suc i" using that by arith
    then show ?thesis using len i that by (simp add: h' nth_append)
  qed
  show "h' ! sl_arr s ! (?n - 1) = ?a ! (?n - 1)"
    using len i by (simp add: h' nth_append min_def)
qed

end
