(* ===== verification/Go_Url.thy ===== *)
theory Go_Url
  imports Go_Strings "HOL-Library.Char_ord" "HOL-Library.List_Lexorder"
begin

text \<open>
  The package \<^verbatim>\<open>net/url\<close> of the Go library and \<^verbatim>\<open>net.SplitHostPort\<close>, as far as the registry uses them:
  escaping, query strings, and parsing an url into its parts. The characters of a string are bytes.
\<close>

section \<open>Escaping\<close>

definition between :: "char \<Rightarrow> char \<Rightarrow> char \<Rightarrow> bool" where
  "between a b c \<longleftrightarrow> of_char a \<le> (of_char c :: nat) \<and> of_char c \<le> (of_char b :: nat)"

definition is_letter :: "char \<Rightarrow> bool" where
  "is_letter c \<longleftrightarrow> between CHR ''a'' CHR ''z'' c \<or> between CHR ''A'' CHR ''Z'' c"

definition is_digit :: "char \<Rightarrow> bool" where
  "is_digit c \<longleftrightarrow> between CHR ''0'' CHR ''9'' c"

definition unreserved :: "char \<Rightarrow> bool" where
  "unreserved c \<longleftrightarrow> is_letter c \<or> is_digit c \<or> c \<in> set ''-_.~''"

definition hexdigits :: string where
  "hexdigits = ''0123456789ABCDEF''"

definition unhex :: "char \<Rightarrow> nat option" where
  "unhex c =
     (if is_digit c then Some (of_char c - 48)
      else if between CHR ''a'' CHR ''f'' c then Some (of_char c - 87)
      else if between CHR ''A'' CHR ''F'' c then Some (of_char c - 55)
      else None)"

text \<open>\<^verbatim>\<open>url.QueryEscape\<close>.\<close>

definition escape_char :: "char \<Rightarrow> string" where
  "escape_char c =
     (if c = CHR '' '' then ''+''
      else if unreserved c then [c]
      else [CHR ''%'', hexdigits ! (of_char c div 16), hexdigits ! (of_char c mod 16)])"

definition QueryEscape :: "string \<Rightarrow> string" where
  "QueryEscape s = concat (map escape_char s)"

text \<open>\<^verbatim>\<open>unescape\<close>; a plus sign is a space in a query only.\<close>

fun unescape :: "bool \<Rightarrow> string \<Rightarrow> string option" where
  "unescape q [] = Some []"
| "unescape q (c # s) =
     (if c = CHR ''%'' then
        (case s of
           h # l # s' \<Rightarrow>
             (case (unhex h, unhex l) of
                (Some a, Some b) \<Rightarrow> map_option ((#) (char_of (16 * a + b))) (unescape q s')
              | _ \<Rightarrow> None)
         | _ \<Rightarrow> None)
      else map_option ((#) (if q \<and> c = CHR ''+'' then CHR '' '' else c)) (unescape q s))"

abbreviation (input) QueryUnescape :: "string \<Rightarrow> string option" where
  "QueryUnescape \<equiv> unescape True"

lemma unhex_hexdigits_all: "\<forall>n \<in> set [0..<16]. unhex (hexdigits ! n) = Some n"
  by code_simp

lemma unhex_hexdigit: "n < 16 \<Longrightarrow> unhex (hexdigits ! n) = Some n"
  using unhex_hexdigits_all by simp

lemma escape_char_unescape:
  "unescape True (escape_char c @ s) = map_option ((#) c) (unescape True s)"
proof -
  have n: "of_char c < (256 :: nat)" by simp
  have "of_char c div 16 < (16 :: nat)" using n by (intro less_mult_imp_div_less) simp
  moreover have "of_char c mod 16 < (16 :: nat)" by simp
  moreover have "16 * (of_char c div 16) + of_char c mod 16 = (of_char c :: nat)" by simp
  moreover have "\<not> unreserved CHR ''%''" "\<not> unreserved CHR ''+''"
    by (simp_all add: unreserved_def is_letter_def is_digit_def between_def)
  ultimately show ?thesis
    by (auto simp: escape_char_def unhex_hexdigit)
qed

lemma QueryUnescape_QueryEscape: "QueryUnescape (QueryEscape s) = Some s"
proof (induction s)
  case (Cons c s)
  then show ?case using escape_char_unescape [of c "QueryEscape s"] by (simp add: QueryEscape_def)
qed (simp add: QueryEscape_def)

section \<open>Query strings\<close>

text \<open>
  \<^verbatim>\<open>Values\<close> in the order of the calls of \<^verbatim>\<open>Add\<close>; \<^verbatim>\<open>Encode\<close> writes them sorted by name.
\<close>

definition encode_pair :: "string \<times> string \<Rightarrow> string" where
  "encode_pair kv = QueryEscape (fst kv) @ ''='' @ QueryEscape (snd kv)"

definition Values_Encode :: "(string \<times> string) list \<Rightarrow> string" where
  "Values_Encode ps = Join (CHR ''&'') (map encode_pair (sort_key fst ps))"

text \<open>The part before the first occurrence of a character and the part after it, if there is one.\<close>

definition cut :: "char \<Rightarrow> string \<Rightarrow> string \<times> string option" where
  "cut c s = (let a = takeWhile (\<lambda>x. x \<noteq> c) s; b = dropWhile (\<lambda>x. x \<noteq> c) s
     in (a, case b of [] \<Rightarrow> None | _ # b' \<Rightarrow> Some b'))"

text \<open>
  \<^verbatim>\<open>ParseQuery\<close>: the pieces between \<^verbatim>\<open>&\<close> or \<^verbatim>\<open>;\<close>. A piece that cannot be unescaped is skipped and makes
  the whole call an error, which is all that its caller looks at.
\<close>

definition split_query :: "string \<Rightarrow> string list" where
  "split_query q = filter (\<lambda>w. w \<noteq> []) (concat (map (Split (CHR '';'')) (Split (CHR ''&'') q)))"

definition parse_pair :: "string \<Rightarrow> (string \<times> string) option" where
  "parse_pair w = (case cut (CHR ''='') w of (k, v) \<Rightarrow>
     (case (QueryUnescape k, QueryUnescape (case v of None \<Rightarrow> [] | Some v \<Rightarrow> v)) of
        (Some k, Some v) \<Rightarrow> Some (k, v) | _ \<Rightarrow> None))"

fun parse_pairs :: "string list \<Rightarrow> (string \<times> string) list option" where
  "parse_pairs [] = Some []"
| "parse_pairs (w # ws) = (case (parse_pair w, parse_pairs ws) of
     (Some kv, Some kvs) \<Rightarrow> Some (kv # kvs) | _ \<Rightarrow> None)"

definition ParseQuery :: "string \<Rightarrow> (string \<times> string) list option" where
  "ParseQuery q = parse_pairs (split_query q)"

definition Values_of :: "(string \<times> string) list \<Rightarrow> string \<Rightarrow> string list" where
  "Values_of kvs k = map snd (filter (\<lambda>kv. fst kv = k) kvs)"

section \<open>Parsing an url\<close>

record URL =
  u_Scheme :: string
  u_Host :: string
  u_Path :: string
  u_RawQuery :: string

text \<open>\<^verbatim>\<open>getscheme\<close>; \<open>acc\<close> is what has been read. An error is \<open>None\<close>.\<close>

fun getscheme :: "string \<Rightarrow> string \<Rightarrow> string \<Rightarrow> (string \<times> string) option" where
  "getscheme raw acc [] = Some ([], raw)"
| "getscheme raw acc (c # s) =
     (if is_letter c then getscheme raw (acc @ [c]) s
      else if is_digit c \<or> c \<in> set ''+-.'' then
        (if acc = [] then Some ([], raw) else getscheme raw (acc @ [c]) s)
      else if c = CHR '':'' then (if acc = [] then None else Some (acc, s))
      else Some ([], raw))"

definition to_lower :: "char \<Rightarrow> char" where
  "to_lower c = (if between CHR ''A'' CHR ''Z'' c then char_of (of_char c + (32 :: nat)) else c)"

definition host_char :: "char \<Rightarrow> bool" where
  "host_char c \<longleftrightarrow> unreserved c \<or> c \<in> set ''!$&()*+,;=:[]<>'' \<or> c = CHR 0x27 \<or> c = CHR 0x22 \<or> 128 \<le> (of_char c :: nat)"

text \<open>Unescaping in a host name: only bytes from 128 on and the percent sign may be written with an escape.\<close>

fun unescape_host :: "string \<Rightarrow> string option" where
  "unescape_host [] = Some []"
| "unescape_host (c # s) =
     (if c = CHR ''%'' then
        (case s of
           h # l # s' \<Rightarrow>
             (case (unhex h, unhex l) of
                (Some a, Some b) \<Rightarrow>
                  if a < 8 \<and> \<not> (h = CHR ''2'' \<and> l = CHR ''5'') then None
                  else map_option ((#) (char_of (16 * a + b))) (unescape_host s')
              | _ \<Rightarrow> None)
         | _ \<Rightarrow> None)
      else if host_char c then map_option ((#) c) (unescape_host s) else None)"

text \<open>\<^verbatim>\<open>validOptionalPort\<close>.\<close>

definition valid_port :: "string \<Rightarrow> bool" where
  "valid_port p \<longleftrightarrow> (case p of [] \<Rightarrow> True | c # ds \<Rightarrow> c = CHR '':'' \<and> list_all is_digit ds)"

text \<open>The text after the last occurrence of a character.\<close>

definition after_last :: "char \<Rightarrow> string \<Rightarrow> string" where
  "after_last c s = rev (takeWhile (\<lambda>x. x \<noteq> c) (rev s))"

definition before_last :: "char \<Rightarrow> string \<Rightarrow> string" where
  "before_last c s = rev (tl (dropWhile (\<lambda>x. x \<noteq> c) (rev s)))"

text \<open>
  \<^verbatim>\<open>parseHost\<close>; a host in brackets must be closed and may only be followed by a port. The zone of an
  IPv6 address, in which Go allows a few more escapes, is read like the rest of the host.
\<close>

definition parseHost :: "string \<Rightarrow> string option" where
  "parseHost host =
     (if HasPrefix host ''['' \<and> (CHR '']'' \<notin> set host \<or> \<not> valid_port (after_last (CHR '']'') host)) then None
      else unescape_host host)"

definition userinfo_char :: "char \<Rightarrow> bool" where
  "userinfo_char c \<longleftrightarrow> is_letter c \<or> is_digit c \<or> c \<in> set ''-._:~!$&()*+,;=%@'' \<or> c = CHR 0x27"

definition parseAuthority :: "string \<Rightarrow> string option" where
  "parseAuthority a =
     (if CHR ''@'' \<notin> set a then parseHost a
      else (let userinfo = before_last (CHR ''@'') a in
        (case parseHost (after_last (CHR ''@'') a) of
           None \<Rightarrow> None
         | Some host \<Rightarrow>
             if list_all userinfo_char userinfo \<and> unescape False userinfo \<noteq> None then Some host else None)))"

text \<open>\<^verbatim>\<open>url.Parse\<close>: fragment, scheme, query, authority, path.\<close>

definition Parse :: "string \<Rightarrow> URL option" where
  "Parse rawurl = (case cut (CHR ''#'') rawurl of (u, frag) \<Rightarrow>
     if frag \<noteq> None \<and> unescape False (the frag) = None then None
     else if u = ''*'' then Some \<lparr>u_Scheme = [], u_Host = [], u_Path = ''*'', u_RawQuery = []\<rparr>
     else (case getscheme u [] u of
        None \<Rightarrow> None
      | Some (scheme, rest) \<Rightarrow>
        (let scheme = map to_lower scheme; (rest, q) = cut (CHR ''?'') rest; rawq = (case q of None \<Rightarrow> [] | Some q \<Rightarrow> q)
         in if \<not> HasPrefix rest ''/'' \<and> scheme \<noteq> [] then
              Some \<lparr>u_Scheme = scheme, u_Host = [], u_Path = [], u_RawQuery = rawq\<rparr>
            else if \<not> HasPrefix rest ''/'' \<and> CHR '':'' \<in> set (fst (cut (CHR ''/'') rest)) then None
            else if (scheme \<noteq> [] \<or> \<not> HasPrefix rest ''///'') \<and> HasPrefix rest ''//'' then
              (let a = takeWhile (\<lambda>c. c \<noteq> CHR ''/'') (drop 2 rest);
                   p = dropWhile (\<lambda>c. c \<noteq> CHR ''/'') (drop 2 rest)
               in case (parseAuthority a, unescape False p) of
                    (Some host, Some path) \<Rightarrow> Some \<lparr>u_Scheme = scheme, u_Host = host, u_Path = path, u_RawQuery = rawq\<rparr>
                  | _ \<Rightarrow> None)
            else (case unescape False rest of
                Some path \<Rightarrow> Some \<lparr>u_Scheme = scheme, u_Host = [], u_Path = path, u_RawQuery = rawq\<rparr>
              | None \<Rightarrow> None))))"

text \<open>\<^verbatim>\<open>net.SplitHostPort\<close> on a string with a colon.\<close>

definition SplitHostPort :: "string \<Rightarrow> (string \<times> string) option" where
  "SplitHostPort hp = (let port = after_last (CHR '':'') hp; host = before_last (CHR '':'') hp in
     if HasPrefix hp ''['' then
       (let inner = takeWhile (\<lambda>c. c \<noteq> CHR '']'') (drop 1 hp)
        in if CHR '']'' \<notin> set hp \<or> host \<noteq> ''['' @ inner @ '']'' \<or> CHR ''['' \<in> set (drop 1 hp) \<or> CHR '']'' \<in> set port
           then None else Some (inner, port))
     else if CHR '':'' \<in> set host \<or> CHR ''['' \<in> set hp \<or> CHR '']'' \<in> set hp then None
     else Some (host, port))"

section \<open>Reading back what was written\<close>

definition query_char :: "char \<Rightarrow> bool" where
  "query_char c \<longleftrightarrow> unreserved c \<or> c \<in> set ''%+''"

lemma hexdigit_unreserved: "n < 16 \<Longrightarrow> unreserved (hexdigits ! n)"
proof -
  have "\<forall>n \<in> set [0..<16]. unreserved (hexdigits ! n)" by code_simp
  then show "n < 16 \<Longrightarrow> unreserved (hexdigits ! n)" by simp
qed

lemma QueryEscape_chars: "c \<in> set (QueryEscape s) \<Longrightarrow> query_char c"
proof (induction s)
  case (Cons x s)
  have "of_char x div 16 < (16 :: nat)" by (intro less_mult_imp_div_less) simp
  then have "query_char c" if "c \<in> set (escape_char x)" for c
    using that hexdigit_unreserved by (auto simp: escape_char_def query_char_def split: if_splits)
  then show ?case using Cons by (auto simp: QueryEscape_def)
qed (simp add: QueryEscape_def)

lemma not_query_char [simp]: "\<not> query_char CHR ''&''" "\<not> query_char CHR '';''" "\<not> query_char CHR ''=''"
  "\<not> query_char CHR ''#''" "\<not> query_char CHR ''?''" "\<not> query_char CHR ''/''" "\<not> query_char CHR '':''"
  by (simp_all add: query_char_def unreserved_def is_letter_def is_digit_def between_def)

lemma not_in_escape [simp]: "\<not> query_char c \<Longrightarrow> c \<notin> set (QueryEscape s)"
  using QueryEscape_chars by blast

lemma cut_at: "c \<notin> set a \<Longrightarrow> cut c (a @ c # b) = (a, Some b)"
  by (simp add: cut_def takeWhile_append dropWhile_append)

lemma cut_absent: "c \<notin> set a \<Longrightarrow> cut c a = (a, None)"
proof -
  assume "c \<notin> set a"
  then have "takeWhile (\<lambda>x. x \<noteq> c) a = a" "dropWhile (\<lambda>x. x \<noteq> c) a = []" by auto
  then show "cut c a = (a, None)" by (simp only: cut_def Let_def list.case)
qed

lemma parse_encode_pair: "parse_pair (encode_pair kv) = Some kv"
  by (simp add: parse_pair_def encode_pair_def cut_at QueryUnescape_QueryEscape)

lemma split_Join_pairs:
  assumes "\<And>w. w \<in> set ws \<Longrightarrow> CHR ''&'' \<notin> set w \<and> CHR '';'' \<notin> set w \<and> w \<noteq> []"
  shows "split_query (Join (CHR ''&'') ws) = ws"
proof (cases "ws = []")
  case False
  have "concat (map (Split (CHR '';'')) ws) = ws"
    using assms by (induction ws) (auto simp: Split_word)
  moreover have "filter (\<lambda>w. w \<noteq> []) ws = ws" using assms by (intro filter_True) auto
  ultimately show ?thesis using assms Split_Join [OF False, of "CHR ''&''"] by (simp add: split_query_def)
qed (simp add: split_query_def)

text \<open>An encoded list of parameters is read back, sorted by name.\<close>

lemma ParseQuery_Encode: "ParseQuery (Values_Encode ps) = Some (sort_key fst ps)"
proof -
  have s: "split_query (Values_Encode ps) = map encode_pair (sort_key fst ps)"
    unfolding Values_Encode_def by (rule split_Join_pairs) (auto simp: encode_pair_def)
  have "parse_pairs (map encode_pair kvs) = Some kvs" for kvs
    by (induction kvs) (simp_all add: parse_encode_pair)
  then show ?thesis by (simp add: ParseQuery_def s)
qed

lemma Values_of_sort: "Values_of (sort_key fst ps) k = Values_of ps k"
proof -
  have "filter (\<lambda>kv. fst kv = k) (sort_key fst ps) = filter (\<lambda>kv. fst kv = k) ps"
    by (rule sort_key_stable)
  then show ?thesis by (simp add: Values_of_def)
qed

lemma Values_Encode_chars: "c \<in> set (Values_Encode ps) \<Longrightarrow> query_char c \<or> c = CHR ''&'' \<or> c = CHR ''=''"
proof -
  have "set (Join (CHR ''&'') ws) \<subseteq> insert (CHR ''&'') (\<Union> (set ` set ws))" for ws
    by (induction "CHR ''&''" ws rule: Join.induct) auto
  then show "c \<in> set (Values_Encode ps) \<Longrightarrow> query_char c \<or> c = CHR ''&'' \<or> c = CHR ''=''"
    by (fastforce simp: Values_Encode_def encode_pair_def dest: QueryEscape_chars)
qed

text \<open>The names that can stand in an url as they are.\<close>

definition scheme_name :: "string \<Rightarrow> bool" where
  "scheme_name s \<longleftrightarrow> s \<noteq> [] \<and> list_all (between CHR ''a'' CHR ''z'') s"

definition plain_host :: "string \<Rightarrow> bool" where
  "plain_host h \<longleftrightarrow> list_all (\<lambda>c. unreserved c \<or> c = CHR '':'') h"

definition plain_name :: "string \<Rightarrow> bool" where
  "plain_name p \<longleftrightarrow> list_all unreserved p"

lemma unreserved_not: "unreserved c \<Longrightarrow> c \<notin> set ''#?/:[]@%+''"
  by (auto simp: unreserved_def is_letter_def is_digit_def between_def)

lemma getscheme_name:
  assumes "list_all (between CHR ''a'' CHR ''z'') s" "acc @ s \<noteq> []"
  shows "getscheme raw acc (s @ CHR '':'' # rest) = Some (acc @ s, rest)"
  using assms
proof (induction s arbitrary: acc)
  case (Cons c s)
  then show ?case using Cons.IH [of "acc @ [c]"] by (simp add: is_letter_def)
qed (simp add: is_letter_def is_digit_def between_def)

lemma to_lower_scheme: "list_all (between CHR ''a'' CHR ''z'') s \<Longrightarrow> map to_lower s = s"
  by (induction s) (auto simp: to_lower_def between_def)

lemma unescape_plain: "list_all (\<lambda>c. c \<noteq> CHR ''%'') s \<Longrightarrow> unescape False s = Some s"
  by (induction s) auto

lemma unescape_host_plain: "list_all (\<lambda>c. host_char c \<and> c \<noteq> CHR ''%'') s \<Longrightarrow> unescape_host s = Some s"
  by (induction s) auto

lemma list_all_absent: "list_all P s \<Longrightarrow> \<not> P c \<Longrightarrow> c \<notin> set s"
  by (auto simp: list_all_iff)

lemma parseAuthority_plain: "plain_host h \<Longrightarrow> parseAuthority h = Some h"
proof -
  assume h: "plain_host h"
  have "CHR ''@'' \<notin> set h" by (rule list_all_absent [OF h [unfolded plain_host_def]]) (auto dest: unreserved_not)
  moreover have "CHR ''['' \<notin> set h" by (rule list_all_absent [OF h [unfolded plain_host_def]]) (auto dest: unreserved_not)
  then have "\<not> HasPrefix h ''[''" by (cases h) (auto simp: HasPrefix_def)
  moreover have "host_char c \<and> c \<noteq> CHR ''%''" if "unreserved c \<or> c = CHR '':''" for c
    using that unreserved_not [of c] by (auto simp: host_char_def)
  then have "list_all (\<lambda>c. host_char c \<and> c \<noteq> CHR ''%'') h"
    using h by (simp add: plain_host_def list_all_iff)
  ultimately show "parseAuthority h = Some h" by (simp add: parseAuthority_def parseHost_def unescape_host_plain)
qed

lemma Parse_built:
  assumes "scheme_name sch" "plain_host h" "plain_name p"
  shows "Parse (sch @ ''://'' @ h @ ''/'' @ p @ ''?'' @ Values_Encode ps) =
    Some \<lparr>u_Scheme = sch, u_Host = h, u_Path = ''/'' @ p, u_RawQuery = Values_Encode ps\<rparr>"
proof -
  let ?raw = "sch @ ''://'' @ h @ ''/'' @ p @ ''?'' @ Values_Encode ps"
  have sch: "sch \<noteq> []" "list_all (between CHR ''a'' CHR ''z'') sch" using assms(1) by (auto simp: scheme_name_def)
  have hs: "CHR ''#'' \<notin> set h" "CHR ''?'' \<notin> set h" "CHR ''/'' \<notin> set h"
    by (rule list_all_absent [OF assms(2) [unfolded plain_host_def]]; auto dest: unreserved_not)+
  have ps: "CHR ''#'' \<notin> set p" "CHR ''?'' \<notin> set p" "CHR ''%'' \<notin> set p"
    by (rule list_all_absent [OF assms(3) [unfolded plain_name_def]]; auto dest: unreserved_not)+
  have ss: "CHR ''#'' \<notin> set sch" by (rule list_all_absent [OF sch(2)]) (simp add: between_def)
  have vs: "CHR ''#'' \<notin> set (Values_Encode ps)" using Values_Encode_chars [of "CHR ''#''" ps] by auto
  have f: "cut (CHR ''#'') ?raw = (?raw, None)" by (rule cut_absent) (use hs ps ss vs in simp)
  have star: "?raw \<noteq> ''*''" by (cases sch) (auto simp: sch(1))
  have g: "getscheme ?raw [] ?raw = Some (sch, ''//'' @ h @ ''/'' @ p @ ''?'' @ Values_Encode ps)"
    using getscheme_name [OF sch(2), of "[]"] sch(1) by simp
  have q: "cut (CHR ''?'') (''//'' @ h @ ''/'' @ p @ ''?'' @ Values_Encode ps) = (''//'' @ h @ ''/'' @ p, Some (Values_Encode ps))"
    using cut_at [of "CHR ''?''" "''//'' @ h @ ''/'' @ p" "Values_Encode ps"] hs ps by simp
  have tw: "takeWhile (\<lambda>c. c \<noteq> CHR ''/'') (h @ ''/'' @ p) = h" "dropWhile (\<lambda>c. c \<noteq> CHR ''/'') (h @ ''/'' @ p) = ''/'' @ p"
    using hs(3) by (auto simp: takeWhile_append dropWhile_append)
  have up: "unescape False (''/'' @ p) = Some (''/'' @ p)" using ps(3) by (intro unescape_plain) (auto simp: list_all_iff)
  have hp: "HasPrefix (''//'' @ x) ''/'' = True" "HasPrefix (''//'' @ x) ''//'' = True" "drop 2 (''//'' @ x) = x" for x
    by (simp_all add: HasPrefix_def)
  have ne: "(sch \<noteq> []) = True" "(?raw = ''*'') = False" using sch(1) star by simp_all
  show ?thesis
    by (simp only: Parse_def f prod.case g option.case Let_def to_lower_scheme [OF sch(2)] q hp ne tw up
        parseAuthority_plain [OF assms(2)] simp_thms if_False if_True)
qed

lemma SplitHostPort_plain:
  assumes "plain_name ip" "plain_name port"
  shows "SplitHostPort (ip @ '':'' @ port) = Some (ip, port)"
proof -
  have no: "c \<notin> set ip \<and> c \<notin> set port" if "c \<in> set '':[]''" for c
    using assms that by (auto simp: plain_name_def list_all_iff dest!: unreserved_not)
  have "after_last (CHR '':'') (ip @ '':'' @ port) = port" "before_last (CHR '':'') (ip @ '':'' @ port) = ip"
    using no [of "CHR '':''"] by (auto simp: after_last_def before_last_def takeWhile_append dropWhile_append)
  moreover have "\<not> HasPrefix (ip @ '':'' @ port) ''[''"
    using no [of "CHR ''[''"] by (cases ip) (auto simp: HasPrefix_def)
  ultimately show ?thesis using no by (simp add: SplitHostPort_def Let_def)
qed

end
