(* ===== verification/Registry_Url.thy ===== *)
theory Registry_Url
  imports Go_Url
begin

text \<open>
  Service descriptions: \<^verbatim>\<open>registry/config.go\<close> (what a consumer asks for and a provider offers),
  \<^verbatim>\<open>registry/service_url.go\<close> (what the registry delivers) and the events of \<^verbatim>\<open>registry/registry.go\<close>.
  Strings are HOL strings. The values of a query are a function from names to the list of their
  values.
\<close>

section \<open>Service urls\<close>

text \<open>\<^verbatim>\<open>url.Values.Get\<close>: the first value, or the empty string.\<close>

type_synonym urlvalues = "string \<Rightarrow> string list"

definition Get :: "urlvalues \<Rightarrow> string \<Rightarrow> string" where
  "Get q k = (case q k of [] \<Rightarrow> [] | v # _ \<Rightarrow> v)"

record ServiceURL =
  su_Protocol :: string
  su_Location :: string
  su_Path :: string
  su_Ip :: string
  su_Port :: string
  su_Version :: string
  su_Group :: string
  su_Query :: urlvalues
  su_Weight :: int32
  su_PrimitiveURL :: string

datatype ServiceURLEventType = ServiceURLAdd | ServiceURLDel | ServiceURLUpdate

definition event_String :: "ServiceURLEventType \<Rightarrow> string" where
  "event_String t = (case t of ServiceURLAdd \<Rightarrow> ''add service url''
     | ServiceURLDel \<Rightarrow> ''delete service url'' | ServiceURLUpdate \<Rightarrow> ''update service url'')"

text \<open>An event; the service is a pointer and can be nil.\<close>

record ServiceURLEvent =
  ev_Action :: ServiceURLEventType
  ev_Service :: "ServiceURL option"

fun find_method :: "string \<Rightarrow> string list \<Rightarrow> bool" where
  "find_method method [] = False"
| "find_method method (m # ms) = (if m = method then True else find_method method ms)"

definition CheckMethod :: "ServiceURL \<Rightarrow> string \<Rightarrow> bool" where
  "CheckMethod s method = find_method method (Split (CHR '','') (Get (su_Query s) ''methods''))"

text \<open>
  \<^verbatim>\<open>NewServiceURL\<close>: the name of a node is unescaped, parsed, and its query and address taken apart.
\<close>

definition NewServiceURL :: "string \<Rightarrow> ServiceURL outcome" where
  "NewServiceURL urlString = (case QueryUnescape urlString of
     None \<Rightarrow> Err (Errorf ''url.QueryUnescape(%s),  error{%v}'')
   | Some raw \<Rightarrow> (case Parse raw of
     None \<Rightarrow> Err (Errorf ''url.Parse(url string{%s}),  error{%v}'')
   | Some u \<Rightarrow> (case ParseQuery (u_RawQuery u) of
     None \<Rightarrow> Err (Errorf ''url.ParseQuery(raw url string{%s}),  error{%v}'')
   | Some kvs \<Rightarrow>
       (let q = Values_of kvs; loc = u_Host u
        in case (if CHR '':'' \<in> set loc then SplitHostPort loc else Some ([], [])) of
             None \<Rightarrow> Err (Errorf ''net.SplitHostPort(Url.Host{%s}), error{%v}'')
           | Some (ip, port) \<Rightarrow>
               Ok \<lparr>su_Protocol = u_Scheme u, su_Location = loc, su_Path = u_Path u, su_Ip = ip, su_Port = port,
                   su_Version = Get q ''version'', su_Group = Get q ''group'', su_Query = q, su_Weight = 0,
                   su_PrimitiveURL = urlString\<rparr>))))"

lemma NewServiceURL_PrimitiveURL: "NewServiceURL n = Ok u \<Longrightarrow> su_PrimitiveURL u = n"
  by (auto simp: NewServiceURL_def Let_def split: option.splits if_splits)

text \<open>The service that is read back from an url built of its parts.\<close>

lemma NewServiceURL_built:
  assumes "scheme_name sch" "plain_name ip" "plain_name port" "plain_name p"
  shows "NewServiceURL (QueryEscape (sch @ ''://'' @ (ip @ '':'' @ port) @ ''/'' @ p @ ''?'' @ Values_Encode ps)) =
    Ok \<lparr>su_Protocol = sch, su_Location = ip @ '':'' @ port, su_Path = ''/'' @ p, su_Ip = ip, su_Port = port,
        su_Version = Get (Values_of ps) ''version'', su_Group = Get (Values_of ps) ''group'', su_Query = Values_of ps,
        su_Weight = 0, su_PrimitiveURL =
          QueryEscape (sch @ ''://'' @ (ip @ '':'' @ port) @ ''/'' @ p @ ''?'' @ Values_Encode ps)\<rparr>"
proof -
  have h: "plain_host (ip @ '':'' @ port)" using assms(2,3) by (auto simp: plain_host_def plain_name_def list_all_iff)
  have v: "Values_of (sort_key fst ps) = Values_of ps" by (rule ext) (rule Values_of_sort)
  show ?thesis
    unfolding NewServiceURL_def QueryUnescape_QueryEscape option.case Parse_built [OF assms(1) h assms(4)] Let_def
    by (simp add: ParseQuery_Encode SplitHostPort_plain [OF assms(2,3), simplified] v)
qed

section \<open>Service configurations\<close>

record ServiceConfig =
  sc_Protocol :: string
  sc_Service :: string
  sc_Group :: string
  sc_Version :: string

definition ServiceConfig_of :: "ServiceURL \<Rightarrow> ServiceConfig" where
  "ServiceConfig_of s = \<lparr>sc_Protocol = su_Protocol s, sc_Service = Get (su_Query s) ''interface'',
     sc_Group = su_Group s, sc_Version = su_Version s\<rparr>"

definition Key :: "ServiceConfig \<Rightarrow> string" where
  "Key c = sc_Service c @ ''@'' @ sc_Protocol c"

definition sc_String :: "ServiceConfig \<Rightarrow> string" where
  "sc_String c = sc_Service c @ ''@'' @ sc_Protocol c @ ''-'' @ sc_Group c @ ''-'' @ sc_Version c"

definition ServiceEqual :: "ServiceConfig \<Rightarrow> ServiceURL \<Rightarrow> bool" where
  "ServiceEqual c url =
     (if sc_Protocol c \<noteq> su_Protocol url then False
      else if sc_Service c \<noteq> Get (su_Query url) ''interface'' then False
      else if sc_Group c \<noteq> su_Group url then False
      else if sc_Version c \<noteq> su_Version url then False
      else True)"

record ProviderServiceConfig =
  pc_ServiceConfig :: ServiceConfig
  pc_Path :: string
  pc_Methods :: string

definition pc_String :: "ProviderServiceConfig \<Rightarrow> string" where
  "pc_String c = (let sc = pc_ServiceConfig c in
     sc_Service sc @ ''@'' @ sc_Protocol sc @ ''-'' @ sc_Group sc @ ''-'' @ sc_Version sc @ ''-'' @
     pc_Path c @ ''/'' @ pc_Methods c)"

definition pc_ServiceEqual :: "ProviderServiceConfig \<Rightarrow> ServiceURL \<Rightarrow> bool" where
  "pc_ServiceEqual c url = (let sc = pc_ServiceConfig c in
     if sc_Protocol sc \<noteq> su_Protocol url then False
     else if sc_Service sc \<noteq> Get (su_Query url) ''interface'' then False
     else if sc_Group sc \<noteq> [] \<and> sc_Group sc \<noteq> su_Group url then False
     else if sc_Version sc \<noteq> [] \<and> sc_Version sc \<noteq> su_Version url then False
     else if pc_Path c \<noteq> su_Path url then False
     else if pc_Methods c \<noteq> Get (su_Query url) ''methods'' then False
     else True)"

section \<open>Properties\<close>

lemma ServiceEqual_iff: "ServiceEqual c url \<longleftrightarrow> c = ServiceConfig_of url"
  by (cases c) (auto simp: ServiceEqual_def ServiceConfig_of_def)

lemma ServiceEqual_Key: "ServiceEqual c url \<Longrightarrow> Key c = Key (ServiceConfig_of url)"
  by (simp add: ServiceEqual_iff)

lemma find_method_iff: "find_method m ms \<longleftrightarrow> m \<in> set ms"
  by (induction ms) auto

text \<open>
  The methods of a service are the comma-separated words of its \<^verbatim>\<open>methods\<close> entry: a service registered
  with a list of names accepts exactly these names.
\<close>

theorem check_method:
  assumes "su_Query s ''methods'' = Join (CHR '','') ws # rest" and "ws \<noteq> []"
    and "\<And>w. w \<in> set ws \<Longrightarrow> CHR '','' \<notin> set w"
  shows "CheckMethod s m \<longleftrightarrow> m \<in> set ws"
  using assms by (simp add: CheckMethod_def Get_def find_method_iff Split_Join)

theorem check_method_witness:
  "CheckMethod \<lparr>su_Protocol = [], su_Location = [], su_Path = [], su_Ip = [], su_Port = [], su_Version = [],
     su_Group = [], su_Query = (\<lambda>k. if k = ''methods'' then [''get,put''] else []), su_Weight = 0,
     su_PrimitiveURL = []\<rparr> ''put''"
  by (subst check_method [where ws = "[''get'', ''put'']" and rest = "[]"]) auto

text \<open>
  The interface key of a service ignores its group and its version: the services of two
  configurations that differ only there have one key, although neither configuration matches the
  services of the other.
\<close>

theorem key_ignores_version:
  assumes "ServiceEqual c url" and "sc_Service c' = sc_Service c" and "sc_Protocol c' = sc_Protocol c"
    and "c' \<noteq> c"
  shows "Key c' = Key (ServiceConfig_of url) \<and> \<not> ServiceEqual c' url"
  using assms by (auto simp: ServiceEqual_iff Key_def)

theorem key_ignores_version_witness:
  "\<exists>url c'. Key c' = Key (ServiceConfig_of url) \<and> \<not> ServiceEqual c' url"
proof -
  let ?url = "\<lparr>su_Protocol = ''dubbo'', su_Location = [], su_Path = [], su_Ip = [], su_Port = [], su_Version = ''1'',
     su_Group = [], su_Query = (\<lambda>k. if k = ''interface'' then [''S''] else []), su_Weight = 0,
     su_PrimitiveURL = []\<rparr> :: ServiceURL"
  have "ServiceEqual (ServiceConfig_of ?url) ?url" by (simp add: ServiceEqual_iff)
  from key_ignores_version [OF this, of "(ServiceConfig_of ?url)\<lparr>sc_Version := ''2''\<rparr>"]
  have "Key ((ServiceConfig_of ?url)\<lparr>sc_Version := ''2''\<rparr>) = Key (ServiceConfig_of ?url) \<and>
      \<not> ServiceEqual ((ServiceConfig_of ?url)\<lparr>sc_Version := ''2''\<rparr>) ?url" by (simp add: ServiceConfig_of_def)
  then show ?thesis by blast
qed

end
