(* ===== verification/Selector_Mode.thy ===== *)
theory Selector_Mode
  imports Go_Prelude "HOL-Library.Multiset"
begin

text \<open>
  The load balancing modes of \<^verbatim>\<open>selector/mode.go\<close>. A \<^verbatim>\<open>Next\<close> is a closure over the list of services;
  the model passes its state, the counter of the round robin or nothing, explicitly. The indices
  are 64-bit integers, whose sum can wrap around.
\<close>

section \<open>Modes\<close>

definition ErrNotFound :: goerr where "ErrNotFound = Errorf ''not found''"
definition ErrNoneAvailable :: goerr where "ErrNoneAvailable = Errorf ''none available''"

text \<open>\<^verbatim>\<open>services[i]\<close> with a 64-bit remainder, which has the sign of the dividend.\<close>

definition pick_at :: "'a list \<Rightarrow> int64 \<Rightarrow> 'a outcome" where
  "pick_at services i = (let k = go_mod (sint i) (int (length services)) in
     if k < 0 \<or> int (length services) \<le> k then Panic else Ok (services ! nat k))"

text \<open>\<open>rnd\<close> is the result of \<^verbatim>\<open>rand.Int()\<close>.\<close>

definition random :: "int64 \<Rightarrow> 'a list \<Rightarrow> int64 \<Rightarrow> unit \<Rightarrow> 'a outcome \<times> unit" where
  "random rnd services ID st =
     (if services = [] then (Err ErrNoneAvailable, st) else (pick_at services (rnd + ID), st))"

definition roundRobin :: "'a list \<Rightarrow> int64 \<Rightarrow> int64 \<Rightarrow> 'a outcome \<times> int64" where
  "roundRobin services ID i =
     (if services = [] then (Err ErrNoneAvailable, i)
      else (case pick_at services (ID + i) of
        Ok node \<Rightarrow> (Ok node, i + 1) | res \<Rightarrow> (res, i)))"

datatype Mode = SM_BEGIN | SM_Random | SM_RoundRobin | SM_END

definition mode_String :: "Mode \<Rightarrow> string" where
  "mode_String s = (case s of SM_Random \<Rightarrow> ''Random'' | SM_RoundRobin \<Rightarrow> ''RoundRobin'' | _ \<Rightarrow> [])"

text \<open>\<^verbatim>\<open>SelectorNext\<close>: a mode is a number; outside its range it counts as random.\<close>

definition SelectorNext :: "int \<Rightarrow> Mode" where
  "SelectorNext mode =
     (let mode = (if mode < 0 \<or> 3 < mode then 1 else mode)
      in if mode = 2 then SM_RoundRobin else SM_Random)"

section \<open>What a mode promises\<close>

text \<open>
  The contract of a \<^verbatim>\<open>Next\<close>: it fails on no services, and a node it returns is one of them.
\<close>

locale chooser =
  fixes next_of :: "'a list \<Rightarrow> int64 \<Rightarrow> 's \<Rightarrow> 'a outcome \<times> 's"
  assumes next_empty: "next_of [] ID s = (Err ErrNoneAvailable, s)"
    and next_member: "next_of xs ID s = (Ok x, s') \<Longrightarrow> x \<in> set xs"
    and next_error: "next_of xs ID s = (Err e, s') \<Longrightarrow> xs = []"
begin

text \<open>With a single service there is no choice.\<close>

lemma next_single: "next_of [x] ID s = (Ok y, s') \<Longrightarrow> y = x"
  using next_member by fastforce

fun run_choices :: "'a list \<Rightarrow> int64 list \<Rightarrow> 's \<Rightarrow> 'a outcome list" where
  "run_choices xs [] s = []"
| "run_choices xs (ID # IDs) s = (case next_of xs ID s of (r, s') \<Rightarrow> r # run_choices xs IDs s')"

lemma run_choices_members:
  assumes "Ok x \<in> set (run_choices xs IDs s)"
  shows "x \<in> set xs"
  using assms by (induction IDs arbitrary: s) (auto split: prod.splits dest: next_member [OF sym])

end

lemma pick_at_member: "pick_at xs i = Ok x \<Longrightarrow> x \<in> set xs"
  by (auto simp: pick_at_def Let_def split: if_splits intro!: nth_mem)

lemma pick_at_no_error: "pick_at xs i \<noteq> Err e"
  by (simp add: pick_at_def Let_def)

interpretation rnd: chooser "random r"
  by unfold_locales (auto simp: random_def pick_at_no_error dest: pick_at_member split: if_splits)

interpretation rr: chooser roundRobin
  by unfold_locales
    (auto simp: roundRobin_def pick_at_no_error dest: pick_at_member split: if_splits outcome.splits)

section \<open>Choosing in range\<close>

lemma pick_at_nonneg:
  assumes "xs \<noteq> []" "0 \<le> sint i"
  shows "pick_at xs i = Ok (xs ! nat (sint i mod int (length xs)))"
proof -
  define n where "n = int (length xs)"
  have n: "0 < n" using assms(1) by (simp add: n_def)
  then have "0 \<le> sint i mod n" "sint i mod n < n" by simp_all
  with n assms(2) show ?thesis by (simp add: pick_at_def Let_def go_mod_nonneg n_def [symmetric])
qed

lemma pick_at_negative:
  assumes "xs \<noteq> []" "sint i < 0" "\<not> int (length xs) dvd sint i"
  shows "pick_at xs i = Panic"
proof -
  have "(- sint i) mod int (length xs) \<noteq> 0" using assms(3) by (simp add: dvd_eq_mod_eq_0 [symmetric])
  moreover have "0 \<le> (- sint i) mod int (length xs)" using assms(1) by simp
  ultimately have "0 < (- sint i) mod int (length xs)" by linarith
  then have "go_mod (sint i) (int (length xs)) < 0" using assms by (simp add: go_mod_neg)
  then show ?thesis by (simp add: pick_at_def Let_def)
qed

lemma sint_add_small:
  fixes a b :: int64
  assumes "0 \<le> sint a + sint b" "sint a + sint b < 2 ^ 63"
  shows "sint (a + b) = sint a + sint b"
  using sint_word_of_int_small [of "sint a + sint b", where 'a = 64] assms by simp

lemma roundRobin_step:
  assumes "xs \<noteq> []" "0 \<le> sint ID" "0 \<le> sint i" "sint ID + sint i < 2 ^ 63"
  shows "roundRobin xs ID i = (Ok (xs ! nat ((sint ID + sint i) mod int (length xs))), i + 1)"
  using assms pick_at_nonneg [of xs "ID + i"] by (simp add: roundRobin_def sint_add_small)

text \<open>The nodes a round robin returns for \<open>n\<close> calls with one id.\<close>

fun rounds :: "'a list \<Rightarrow> int64 \<Rightarrow> int64 \<Rightarrow> nat \<Rightarrow> 'a outcome list" where
  "rounds xs ID i 0 = []"
| "rounds xs ID i (Suc n) = (case roundRobin xs ID i of (r, i') \<Rightarrow> r # rounds xs ID i' n)"

lemma rounds_eq:
  assumes "xs \<noteq> []" "0 \<le> sint ID" "0 \<le> sint i" "sint ID + sint i + int n < 2 ^ 63"
  shows "rounds xs ID i n =
    map (\<lambda>k. Ok (xs ! nat ((sint ID + sint i + int k) mod int (length xs)))) [0..<n]"
  using assms
proof (induction n arbitrary: i)
  case (Suc n)
  have i1: "sint (i + 1) = sint i + 1" using Suc.prems sint_add_small [of i 1] by simp
  have "rounds xs ID i (Suc n) = Ok (xs ! nat ((sint ID + sint i) mod int (length xs))) # rounds xs ID (i + 1) n"
    using Suc.prems by (simp add: roundRobin_step)
  also have "rounds xs ID (i + 1) n =
      map (\<lambda>k. Ok (xs ! nat ((sint ID + sint (i + 1) + int k) mod int (length xs)))) [0..<n]"
    using Suc.prems by (intro Suc.IH) (simp_all add: i1)
  finally show ?case by (simp add: i1 upt_conv_Cons map_Suc_upt [symmetric] add.assoc o_def del: upt_Suc)
qed simp

lemma shifted_indices:
  assumes "0 < n" "0 \<le> c"
  shows "image_mset (\<lambda>k. nat ((c + int k) mod int n)) (mset [0..<n]) = mset [0..<n]"
proof -
  let ?f = "\<lambda>k. nat ((c + int k) mod int n)"
  have inj: "inj_on ?f {0..<n}"
  proof (rule inj_onI)
    fix a b assume ab: "a \<in> {0..<n}" "b \<in> {0..<n}" "?f a = ?f b"
    then have "(c + int a) mod int n = (c + int b) mod int n" using assms by (simp add: eq_nat_nat_iff)
    then have "int n dvd int a - int b" by (simp add: mod_eq_dvd_iff)
    moreover have "\<bar>int a - int b\<bar> < int n" using ab by auto
    ultimately show "a = b" using zdvd_not_zless [of "\<bar>int a - int b\<bar>" "int n"] by (cases "a = b") auto
  qed
  have "?f ` {0..<n} \<subseteq> {0..<n}" using assms by (auto simp: nat_less_iff)
  then have "?f ` {0..<n} = {0..<n}" using inj by (simp add: card_image card_subset_eq)
  moreover have "mset [0..<n] = mset_set {0..<n}" by (simp add: mset_upt)
  ultimately show ?thesis using inj by (simp add: image_mset_mset_set)
qed

text \<open>
  C23: Round robin is fair: as long as the counter does not overflow, any \<open>length services\<close> consecutive
  calls with one id return every service exactly once (as often as it is listed).
\<close>

theorem round_robin_fair:
  assumes "services \<noteq> []" and "0 \<le> sint ID" and "0 \<le> sint i"
    and "sint ID + sint i + int (length services) < 2 ^ 63"
  shows "mset (rounds services ID i (length services)) = image_mset Ok (mset services)"
proof -
  let ?n = "length services" and ?c = "sint ID + sint i"
  have "mset (rounds services ID i ?n) =
      image_mset (\<lambda>k. Ok (services ! k)) (image_mset (\<lambda>k. nat ((?c + int k) mod int ?n)) (mset [0..<?n]))"
    using rounds_eq [OF assms] by (simp add: multiset.map_comp o_def)
  also have "\<dots> = image_mset (\<lambda>k. Ok (services ! k)) (mset [0..<?n])"
    using assms by (subst shifted_indices) simp_all
  also have "\<dots> = image_mset Ok (mset (map (\<lambda>k. services ! k) [0..<?n]))" by (simp add: multiset.map_comp o_def)
  finally show ?thesis by (simp add: map_nth)
qed

theorem round_robin_fair_witness:
  "mset (rounds [''a'', ''b''] 5 0 2) = image_mset Ok (mset [''a'', ''b''])"
  using round_robin_fair [of "[''a'', ''b'']" 5 0] by (simp del: rounds.simps add: numeral_2_eq_2)

text \<open>
  Random selection stays in range unless the sum of the random number and the id overflows: without
  overflow some service is returned; when the sum wraps to a negative number that the number of
  services does not divide, the index is negative and the call panics.
\<close>

theorem random_selection:
  assumes "services \<noteq> []" and "0 \<le> sint r" and "0 \<le> sint ID"
  shows "(sint r + sint ID < 2 ^ 63 \<longrightarrow> (\<exists>x \<in> set services. random r services ID st = (Ok x, st))) \<and>
    (2 ^ 63 \<le> sint r + sint ID \<and> \<not> int (length services) dvd sint r + sint ID - 2 ^ 64 \<longrightarrow>
       random r services ID st = (Panic, st))"
proof (intro conjI impI)
  assume "sint r + sint ID < 2 ^ 63"
  then have "sint (r + ID) = sint r + sint ID" using assms by (intro sint_add_small) simp_all
  then have "pick_at services (r + ID) = Ok (services ! nat (sint (r + ID) mod int (length services)))"
    using assms by (intro pick_at_nonneg) simp_all
  then show "\<exists>x \<in> set services. random r services ID st = (Ok x, st)"
    using assms(1) pick_at_member by (force simp: random_def)
next
  assume o: "2 ^ 63 \<le> sint r + sint ID \<and> \<not> int (length services) dvd sint r + sint ID - 2 ^ 64"
  have "sint r < 2 ^ 63" "sint ID < 2 ^ 63" using sint_lt [of r] sint_lt [of ID] by simp_all
  then have "sint (word_of_int (sint r + sint ID - 2 ^ 64) :: int64) = sint r + sint ID - 2 ^ 64"
    using o by (intro sint_word_of_int_small) simp_all
  moreover have "(word_of_int (sint r + sint ID - 2 ^ 64) :: int64) = r + ID" by (simp add: of_int_diff)
  ultimately have s: "sint (r + ID) = sint r + sint ID - 2 ^ 64" by (simp only:)
  have "pick_at services (r + ID) = Panic"
    using o assms(1) \<open>sint r < 2 ^ 63\<close> \<open>sint ID < 2 ^ 63\<close> by (intro pick_at_negative) (simp_all add: s)
  then show "random r services ID st = (Panic, st)" using assms(1) by (simp add: random_def)
qed

theorem random_selection_witness:
  "random 0x7fffffffffffffff [''a'', ''b'', ''c''] 1 () = (Panic, ())"
  using random_selection [of "[''a'', ''b'', ''c'']" "0x7fffffffffffffff" 1 "()"] by simp

end
