(* ===== verification/Selector_Cache.thy ===== *)
theory Selector_Cache
  imports Go_Slice Registry_Url Selector_Mode
begin

text \<open>
  The cache selector, \<^verbatim>\<open>selector/cache/cache.go\<close>: it answers a request for a service from a cache of
  service lists, which expire, and keeps the lists current from the events of a watcher. The lists
  are Go slices on a heap, because the selector hands some of them out while its updates work in
  place. The mutex is not modelled: \<^verbatim>\<open>get\<close> and \<^verbatim>\<open>update\<close> hold it throughout, so they are atomic.
  The clock is a parameter of each operation that reads it, as is the answer of the registry.
\<close>

section \<open>State and operations\<close>

record cacheSelector =
  cs_mode :: int
  cs_ttl :: int
  cs_heap :: "ServiceURL heap"
  cs_cache :: "string \<rightharpoonup> slice"
  cs_ttls :: "string \<rightharpoonup> int"
  cs_exit :: bool

text \<open>\<^verbatim>\<open>DefaultTTL\<close>, ten minutes in nanoseconds; the context of the options may carry another one.\<close>

definition DefaultTTL :: int where
  "DefaultTTL = 10 * 60 * 10 ^ 9"

definition NewSelector :: "int option \<Rightarrow> int option \<Rightarrow> cacheSelector" where
  "NewSelector mode ttl =
     \<lparr>cs_mode = (case mode of None \<Rightarrow> 1 | Some m \<Rightarrow> m),
      cs_ttl = (case ttl of None \<Rightarrow> DefaultTTL | Some t \<Rightarrow> t),
      cs_heap = [[]], cs_cache = Map.empty, cs_ttls = Map.empty, cs_exit = False\<rparr>"

definition quit :: "cacheSelector \<Rightarrow> bool" where
  "quit c = cs_exit c"

text \<open>\<^verbatim>\<open>copy\<close>: the elements appended one by one to a nil slice.\<close>

fun append_all :: "(nat \<Rightarrow> nat) \<Rightarrow> slice \<Rightarrow> 'a list \<Rightarrow> 'a heap \<Rightarrow> slice \<times> 'a heap" where
  "append_all newcap s [] h = (s, h)"
| "append_all newcap s (x # xs) h = (case slice_append newcap s x h of (s, h) \<Rightarrow> append_all newcap s xs h)"

definition cs_copy :: "(nat \<Rightarrow> nat) \<Rightarrow> slice \<Rightarrow> ServiceURL heap \<Rightarrow> slice \<times> ServiceURL heap" where
  "cs_copy newcap s h = append_all newcap nil_slice (contents h s) h"

text \<open>What implements \<^verbatim>\<open>registry.ServiceConfigIf\<close>: a configuration, by pointer or value, or something else.\<close>

datatype ServiceConfigIf = ConfPtr ServiceConfig | ConfVal ServiceConfig | ConfOther

text \<open>
  \<^verbatim>\<open>get\<close>. \<open>now1\<close> and \<open>now2\<close> are the two readings of the clock, \<open>reply\<close> is what \<^verbatim>\<open>Registry.GetServices\<close>
  would answer. The result is a slice: a copy of the cached list while it is fresh, else the new
  list of the registry, and, when the registry fails, the cached list itself.
\<close>

definition cs_get ::
  "ext \<Rightarrow> (nat \<Rightarrow> nat) \<Rightarrow> int \<Rightarrow> int \<Rightarrow> ServiceURL list outcome \<Rightarrow> ServiceConfigIf \<Rightarrow> cacheSelector
   \<Rightarrow> slice outcome \<times> cacheSelector" where
  "cs_get X newcap now1 now2 reply s c =
     (let lookup = (\<lambda>conf.
        let key = Key conf; services = cs_cache c key; ttl = cs_ttls c key;
            hit = (case services of Some sl \<Rightarrow> 0 < sl_len sl | None \<Rightarrow> False)
        in if hit \<and> (case ttl of Some t \<Rightarrow> now1 - t < cs_ttl c | None \<Rightarrow> False) then
             (case cs_copy newcap (the services) (cs_heap c) of (sl, h) \<Rightarrow> (Ok sl, c\<lparr>cs_heap := h\<rparr>))
           else
             (case reply of
                Ok ss \<Rightarrow>
                  (case append_all newcap nil_slice ss (cs_heap c) of (ssl, h) \<Rightarrow>
                   case cs_copy newcap ssl h of (sl, h) \<Rightarrow>
                     (Ok ssl, c\<lparr>cs_heap := h, cs_cache := (cs_cache c)(key \<mapsto> sl),
                                cs_ttls := (cs_ttls c)(key \<mapsto> now2 + cs_ttl c)\<rparr>))
              | Err e \<Rightarrow>
                  if hit then (Ok (the services), c)
                  else (ret nil_slice (je_Annotatef X ''cacheSelect.get(serviceConfig:%+v)'' (Some e)), c)
              | Panic \<Rightarrow> (Panic, c) | NoFuel \<Rightarrow> (NoFuel, c)))
      in case s of
           ConfPtr conf \<Rightarrow> lookup conf | ConfVal conf \<Rightarrow> lookup conf
         | ConfOther \<Rightarrow> (Err (Errorf ''illegal @s:%#v''), c))"

definition cs_set :: "int \<Rightarrow> string \<Rightarrow> slice \<Rightarrow> cacheSelector \<Rightarrow> cacheSelector" where
  "cs_set now service services c =
     (if 0 < sl_len services then
        c\<lparr>cs_cache := (cs_cache c)(service \<mapsto> services), cs_ttls := (cs_ttls c)(service \<mapsto> now + cs_ttl c)\<rparr>
      else c\<lparr>cs_cache := (cs_cache c)(service := None), cs_ttls := (cs_ttls c)(service := None)\<rparr>)"

definition filterServices :: "int \<Rightarrow> slice \<Rightarrow> ServiceURL heap \<Rightarrow> slice \<times> ServiceURL heap" where
  "filterServices i s h =
     (if i < 0 then (s, h) else if int (sl_len s) \<le> i then (s, h) else slice_delete (nat i) s h)"

text \<open>
  The loop of \<^verbatim>\<open>update\<close>: it ranges over the slice as it was at the start, \<open>k\<close> cells from index \<open>i\<close> of
  the array \<open>a\<close>, reading each cell when it gets there, while \<open>s\<close> loses elements. A nil cell would
  be a nil pointer, and the outcome \<open>None\<close>.
\<close>

fun update_loop ::
  "string \<Rightarrow> nat \<Rightarrow> nat \<Rightarrow> nat \<Rightarrow> slice \<Rightarrow> ServiceURL heap \<Rightarrow> (slice \<times> ServiceURL heap) option" where
  "update_loop url a i 0 s h = Some (s, h)"
| "update_loop url a i (Suc k) s h = (case h ! a ! i of
     None \<Rightarrow> None
   | Some x \<Rightarrow>
       (case if su_PrimitiveURL x = url then filterServices (int i) s h else (s, h) of
          (s, h) \<Rightarrow> update_loop url a (Suc i) k s h))"

definition cs_update :: "(nat \<Rightarrow> nat) \<Rightarrow> int \<Rightarrow> ServiceURLEvent \<Rightarrow> cacheSelector \<Rightarrow> unit outcome \<times> cacheSelector" where
  "cs_update newcap now res c = (case ev_Service res of
     None \<Rightarrow> (Ok (), c)
   | Some service \<Rightarrow>
     (let sname = Key (ServiceConfig_of service)
      in case (case cs_cache c sname of
                 None \<Rightarrow> Some (nil_slice, cs_heap c)
               | Some sl \<Rightarrow> update_loop (su_PrimitiveURL service) (sl_arr sl) 0 (sl_len sl) sl (cs_heap c)) of
           None \<Rightarrow> (Panic, c)
         | Some (services, h) \<Rightarrow>
             (case (if ev_Action res = ServiceURLDel then (services, h)
                    else slice_append newcap services service h) of
                (services, h) \<Rightarrow> (Ok (), cs_set now sname services (c\<lparr>cs_heap := h\<rparr>)))))"

text \<open>
  \<^verbatim>\<open>watch\<close> with the results of \<^verbatim>\<open>w.Next()\<close> in turn, each with what \<^verbatim>\<open>w.Valid()\<close> says and the time:
  it ends with the first error; without one it is still waiting, which is \<open>None\<close>. While the watcher
  is invalid nothing is deleted.
\<close>

fun watch ::
  "ext \<Rightarrow> (nat \<Rightarrow> nat) \<Rightarrow> (ServiceURLEvent outcome \<times> bool \<times> int) list \<Rightarrow> cacheSelector
   \<Rightarrow> unit outcome option \<times> cacheSelector" where
  "watch X newcap [] c = (None, c)"
| "watch X newcap ((nxt, valid, now) # evs) c = (case nxt of
     Err e \<Rightarrow> (Some (ret () (je_Trace X (Some e))), c)
   | Ok res \<Rightarrow>
       if ev_Action res = ServiceURLDel \<and> \<not> valid then watch X newcap evs c
       else (case cs_update newcap now res c of
               (Ok _, c) \<Rightarrow> watch X newcap evs c
             | (e, c) \<Rightarrow> (Some e, c))
   | Panic \<Rightarrow> (Some Panic, c) | NoFuel \<Rightarrow> (Some NoFuel, c))"

definition cs_Close :: "cacheSelector \<Rightarrow> cacheSelector" where
  "cs_Close c = c\<lparr>cs_cache := Map.empty, cs_exit := True\<rparr>"

text \<open>
  \<^verbatim>\<open>run\<close>: one entry per round of its loop, with whether the selector was closed before it and
  what \<^verbatim>\<open>Registry.Watch()\<close> gave, an error or a watcher with its results.
\<close>

fun cs_run ::
  "ext \<Rightarrow> (nat \<Rightarrow> nat) \<Rightarrow> (bool \<times> (ServiceURLEvent outcome \<times> bool \<times> int) list option) list \<Rightarrow> cacheSelector
   \<Rightarrow> cacheSelector" where
  "cs_run X newcap [] c = c"
| "cs_run X newcap ((closed, w) # ws) c =
     (let c = (if closed then cs_Close c else c)
      in if quit c then c
         else (case w of None \<Rightarrow> cs_run X newcap ws c
               | Some evs \<Rightarrow> cs_run X newcap ws (snd (watch X newcap evs c))))"

text \<open>\<^verbatim>\<open>Select\<close>: the mode and the list that the \<^verbatim>\<open>Next\<close> it returns works on.\<close>

definition Select ::
  "ext \<Rightarrow> (nat \<Rightarrow> nat) \<Rightarrow> int \<Rightarrow> int \<Rightarrow> ServiceURL list outcome \<Rightarrow> ServiceConfigIf \<Rightarrow> cacheSelector
   \<Rightarrow> (Mode \<times> slice) outcome \<times> cacheSelector" where
  "Select X newcap now1 now2 reply s c = (case cs_get X newcap now1 now2 reply s c of
     (Err e, c) \<Rightarrow> (Err ErrNotFound, c)
   | (Ok services, c) \<Rightarrow>
       if sl_len services = 0 then (Err ErrNoneAvailable, c)
       else (Ok (SelectorNext (cs_mode c), services), c)
   | (Panic, c) \<Rightarrow> (Panic, c) | (NoFuel, c) \<Rightarrow> (NoFuel, c))"


section \<open>Correctness of the slice operations\<close>

lemma append_all_spec:
  assumes "heap_ok h" "slice_ok_in h s" "append_all newcap s xs h = (s', h')"
  shows "slice_ok_in h' s'" "contents h' s' = contents h s @ xs" "heap_ok h'"
    "sl_arr s' = sl_arr s \<or> length h \<le> sl_arr s'" "frame {sl_arr s} h h'"
proof -
  have "slice_ok_in h' s' \<and> contents h' s' = contents h s @ xs \<and> heap_ok h' \<and>
      (sl_arr s' = sl_arr s \<or> length h \<le> sl_arr s') \<and> frame {sl_arr s} h h'"
    using assms
  proof (induction xs arbitrary: s h)
    case (Cons x xs)
    obtain s1 h1 where a: "slice_append newcap s x h = (s1, h1)" by fastforce
    note sp = slice_append_spec [OF Cons.prems(1,2) a]
    have "append_all newcap s1 xs h1 = (s', h')" using Cons.prems(3) by (simp add: a)
    from Cons.IH [OF sp(3,1) this] have IH: "slice_ok_in h' s'" "contents h' s' = contents h1 s1 @ xs" "heap_ok h'"
      "sl_arr s' = sl_arr s1 \<or> length h1 \<le> sl_arr s'" "frame {sl_arr s1} h1 h'" by blast+
    have "frame {sl_arr s} h h'" by (rule frame_trans [OF sp(5) IH(5)]) (use sp(4) in auto)
    moreover have "length h \<le> length h1" using sp(5) by (simp add: frame_def)
    ultimately show ?case using IH sp(2,4) by auto
  qed simp
  then show "slice_ok_in h' s'" "contents h' s' = contents h s @ xs" "heap_ok h'"
    "sl_arr s' = sl_arr s \<or> length h \<le> sl_arr s'" "frame {sl_arr s} h h'" by blast+
qed

lemma frame_nil: "heap_ok h \<Longrightarrow> heap_ok h' \<Longrightarrow> frame {0} h h' \<Longrightarrow> frame {} h h'"
  unfolding frame_def heap_ok_def by (metis emptyE insertE)

text \<open>A list built from nothing lies in an array of its own.\<close>

lemma append_all_fresh:
  assumes "heap_ok h" "append_all newcap nil_slice xs h = (s', h')"
  shows "slice_ok_in h' s'" "contents h' s' = xs" "heap_ok h'"
    "sl_arr s' = 0 \<or> length h \<le> sl_arr s'" "frame {} h h'"
  using append_all_spec [OF assms(1) nil_slice_ok [OF assms(1)] assms(2)] frame_nil [OF assms(1), of h']
  by auto

lemma cs_copy_fresh:
  assumes "heap_ok h" "cs_copy newcap s h = (s', h')"
  shows "slice_ok_in h' s'" "contents h' s' = contents h s" "heap_ok h'"
    "sl_arr s' = 0 \<or> length h \<le> sl_arr s'" "frame {} h h'"
  using append_all_fresh [OF assms(1) assms(2) [unfolded cs_copy_def]] by blast+

text \<open>What another slice on the same array, with the old length, shows after a deletion.\<close>

lemma slice_delete_alias:
  assumes "heap_ok h" "slice_ok_in h s" "i < sl_len s" "slice_delete i s h = (s', h')"
  shows "contents h' s = take i (contents h s) @ drop (Suc i) (contents h s) @ [last (contents h s)]"
proof -
  note sp = slice_delete_spec [OF assms]
  define n where "n = sl_len s - 1"
  have n: "sl_len s = Suc n" using assms(3) by (simp add: n_def)
  have l: "sl_len s \<le> length (h ! sl_arr s)" using assms(2) by (simp add: slice_ok_in_def)
  have "cells h' s = cells h' s' @ [h' ! sl_arr s ! n]"
    using l sp(4,6,11) by (simp add: cells_def n take_Suc_conv_app_nth)
  also have "h' ! sl_arr s ! n = Some (contents h s ! n)"
    using sp(10) cells_nth [OF assms(2), of n] n by simp
  finally have "contents h' s = contents h' s' @ [contents h s ! n]" by (simp add: contents_def)
  also have "contents h s ! n = last (contents h s)"
    using length_contents [OF assms(2)] n by (subst last_conv_nth) auto
  finally show ?thesis using sp(2) by simp
qed

section \<open>Correctness of the update loop\<close>

lemma filter_distinct_nth:
  assumes "distinct (map f xs)" "i < length xs" "f (xs ! i) = u"
  shows "filter (\<lambda>x. f x \<noteq> u) xs = take i xs @ drop (Suc i) xs"
proof -
  have "xs = take i xs @ xs ! i # drop (Suc i) xs" using assms(2) by (rule id_take_nth_drop)
  then obtain ys zs where xs: "xs = ys @ xs ! i # zs" and yz: "ys = take i xs" "zs = drop (Suc i) xs" by blast
  have d: "distinct (map f (ys @ xs ! i # zs))" using assms(1) xs by metis
  have "filter (\<lambda>x. f x \<noteq> u) ys = ys" "filter (\<lambda>x. f x \<noteq> u) zs = zs"
    using d assms(3) by (auto intro!: filter_True) (metis imageI)+
  then have "filter (\<lambda>x. f x \<noteq> u) (ys @ xs ! i # zs) = ys @ zs" using assms(3) by simp
  then show ?thesis using xs yz by metis
qed

lemma update_loop_no_match:
  assumes "\<And>j. i \<le> j \<Longrightarrow> j < i + k \<Longrightarrow> \<exists>x. h ! a ! j = Some x \<and> su_PrimitiveURL x \<noteq> url"
  shows "update_loop url a i k s h = Some (s, h)"
  using assms
proof (induction k arbitrary: i)
  case (Suc k)
  from Suc.prems [of i] obtain x where "h ! a ! i = Some x" "su_PrimitiveURL x \<noteq> url" by auto
  moreover have "update_loop url a (Suc i) k s h = Some (s, h)" by (rule Suc.IH) (use Suc.prems in simp)
  ultimately show ?case by simp
qed simp

text \<open>The result of the loop on a list of different urls: the one with this url is gone.\<close>

definition removed :: "string \<Rightarrow> slice \<Rightarrow> ServiceURL heap \<Rightarrow> slice \<Rightarrow> ServiceURL heap \<Rightarrow> bool" where
  "removed url s h s' h' \<longleftrightarrow>
     slice_ok_in h' s' \<and> heap_ok h' \<and> sl_arr s' = sl_arr s \<and> frame {sl_arr s} h h' \<and> length h' = length h \<and>
     contents h' s' = filter (\<lambda>x. su_PrimitiveURL x \<noteq> url) (contents h s)"

lemma update_loop_match:
  assumes h: "heap_ok h" and s: "slice_ok_in h s" and d: "distinct (map su_PrimitiveURL (contents h s))"
    and i: "i < sl_len s" and u: "su_PrimitiveURL (contents h s ! i) = url"
    and e: "slice_delete i s h = (s', h')"
  shows "update_loop url (sl_arr s) (Suc i) (sl_len s - Suc i) s' h' = Some (s', h')" "removed url s h s' h'"
proof -
  note sp = slice_delete_spec [OF h s i e]
  have other: "su_PrimitiveURL (contents h s ! j) \<noteq> url" if "j < sl_len s" "j \<noteq> i" for j
  proof
    assume "su_PrimitiveURL (contents h s ! j) = url"
    then have "map su_PrimitiveURL (contents h s) ! j = map su_PrimitiveURL (contents h s) ! i"
      using that i u s by (simp add: length_contents)
    then show False using nth_eq_iff_index_eq [OF d, of j i] that i s by (simp add: length_contents)
  qed
  show "update_loop url (sl_arr s) (Suc i) (sl_len s - Suc i) s' h' = Some (s', h')"
  proof (rule update_loop_no_match)
    fix j assume j: "Suc i \<le> j" "j < Suc i + (sl_len s - Suc i)"
    show "\<exists>x. h' ! sl_arr s ! j = Some x \<and> su_PrimitiveURL x \<noteq> url"
    proof (cases "j = sl_len s - 1")
      case True
      then show ?thesis using sp(10) cells_nth [OF s, of j] other [of j] i j by auto
    next
      case False
      then show ?thesis using sp(9) [of j] cells_nth [OF s, of "Suc j"] other [of "Suc j"] i j by auto
    qed
  qed
  show "removed url s h s' h'"
    unfolding removed_def using sp filter_distinct_nth [OF d, of i url] i u s by (simp add: length_contents)
qed

lemma update_loop_spec:
  assumes "heap_ok h" "slice_ok_in h s" "distinct (map su_PrimitiveURL (contents h s))"
    "i + k = sl_len s" "\<And>j. j < i \<Longrightarrow> su_PrimitiveURL (contents h s ! j) \<noteq> url"
  shows "\<exists>s' h'. update_loop url (sl_arr s) i k s h = Some (s', h') \<and> removed url s h s' h'"
  using assms(4,5)
proof (induction k arbitrary: i)
  case 0
  have "su_PrimitiveURL x \<noteq> url" if "x \<in> set (contents h s)" for x
    using 0 assms(2) that by (metis add.right_neutral in_set_conv_nth length_contents)
  then have "filter (\<lambda>x. su_PrimitiveURL x \<noteq> url) (contents h s) = contents h s" by (intro filter_True) blast
  then show ?case using assms by (simp add: removed_def)
next
  case (Suc k)
  then have i: "i < sl_len s" by simp
  have c: "h ! sl_arr s ! i = Some (contents h s ! i)" by (rule cells_nth [OF assms(2) i])
  show ?case
  proof (cases "su_PrimitiveURL (contents h s ! i) = url")
    case True
    obtain s' h' where e: "slice_delete i s h = (s', h')" by fastforce
    have k: "sl_len s - Suc i = k" using Suc.prems(1) by simp
    show ?thesis
      using update_loop_match [OF assms(1,2,3) i True e] c True i e k
      by (auto simp: filterServices_def)
  next
    case False
    have "\<exists>s' h'. update_loop url (sl_arr s) (Suc i) k s h = Some (s', h') \<and> removed url s h s' h'"
      by (rule Suc.IH) (use Suc.prems False in \<open>auto simp: less_Suc_eq\<close>)
    then show ?thesis using c False by simp
  qed
qed

lemma update_loop_hits:
  assumes ok: "heap_ok h" "slice_ok_in h s" "distinct (map su_PrimitiveURL (contents h s))"
    and i: "i < sl_len s" "su_PrimitiveURL (contents h s ! i) = url" and e: "slice_delete i s h = (s', h')"
  shows "update_loop url (sl_arr s) 0 (sl_len s) s h = Some (s', h')"
proof -
  have "update_loop url (sl_arr s) (i - m) (sl_len s - (i - m)) s h = Some (s', h')" for m
  proof (induction m)
    case 0
    have k: "sl_len s - i = Suc (sl_len s - Suc i)" using i(1) by simp
    show ?case
      using update_loop_match(1) [OF ok i e] cells_nth [OF ok(2) i(1)] i e by (simp add: k filterServices_def)
  next
    case (Suc m)
    show ?case
    proof (cases "m < i")
      case True
      define j where "j = i - Suc m"
      have j: "i - m = Suc j" "j < i" "sl_len s - j = Suc (sl_len s - Suc j)" using True i(1) by (auto simp: j_def)
      have "map su_PrimitiveURL (contents h s) ! j \<noteq> map su_PrimitiveURL (contents h s) ! i"
        using nth_eq_iff_index_eq [OF ok(3), of j i] j(2) i(1) ok(2) by (simp add: length_contents)
      then have "su_PrimitiveURL (contents h s ! j) \<noteq> url" using i j(2) ok(2) by (simp add: length_contents)
      then show ?thesis using Suc.IH j cells_nth [OF ok(2), of j] i(1) by (simp add: j_def [symmetric])
    next
      case False
      then show ?thesis using Suc.IH by simp
    qed
  qed
  from this [of i] show ?thesis by simp
qed

section \<open>The invariant\<close>

text \<open>
  Every cached list is a proper slice with different urls, and no two of them share an array.
\<close>

definition urls_differ :: "ServiceURL list \<Rightarrow> bool" where
  "urls_differ ss = distinct (map su_PrimitiveURL ss)"

definition cs_inv :: "cacheSelector \<Rightarrow> bool" where
  "cs_inv c \<longleftrightarrow> heap_ok (cs_heap c) \<and>
     (\<forall>k s. cs_cache c k = Some s \<longrightarrow> slice_ok_in (cs_heap c) s \<and> urls_differ (contents (cs_heap c) s)) \<and>
     (\<forall>k s k' s'. cs_cache c k = Some s \<longrightarrow> cs_cache c k' = Some s' \<longrightarrow> k \<noteq> k' \<longrightarrow>
        sl_arr s = sl_arr s' \<longrightarrow> sl_arr s = 0)"

lemma cs_invD:
  assumes "cs_inv c"
  shows "heap_ok (cs_heap c)"
    "cs_cache c k = Some s \<Longrightarrow> slice_ok_in (cs_heap c) s"
    "cs_cache c k = Some s \<Longrightarrow> urls_differ (contents (cs_heap c) s)"
    "cs_cache c k = Some s \<Longrightarrow> cs_cache c k' = Some s' \<Longrightarrow> k \<noteq> k' \<Longrightarrow> sl_arr s = sl_arr s' \<Longrightarrow> sl_arr s = 0"
  using assms by (auto simp: cs_inv_def)

text \<open>What the cache holds, as a map from keys to lists of services.\<close>

definition cs_abs :: "cacheSelector \<Rightarrow> string \<rightharpoonup> ServiceURL list" where
  "cs_abs c = (\<lambda>k. map_option (contents (cs_heap c)) (cs_cache c k))"

text \<open>
  Replacing the list of one key: the other lists stay, provided that only the array of the old
  list of this key is written, and that the new list is in this array or in a new one.
\<close>

lemma replace_entry:
  assumes inv: "cs_inv c"
    and fr: "frame W (cs_heap c) h'" and W: "\<And>a. a \<in> W \<Longrightarrow> a \<noteq> 0 \<Longrightarrow> a < length (cs_heap c) \<Longrightarrow>
      \<exists>s. cs_cache c k = Some s \<and> sl_arr s = a"
    and h': "heap_ok h'"
    and new: "\<And>s. new = Some s \<Longrightarrow> slice_ok_in h' s \<and> urls_differ (contents h' s) \<and>
      (sl_arr s = 0 \<or> length (cs_heap c) \<le> sl_arr s \<or> (\<exists>s0. cs_cache c k = Some s0 \<and> sl_arr s0 = sl_arr s))"
    and c': "cs_heap c' = h'" "cs_cache c' = (cs_cache c)(k := new)"
  shows "cs_inv c'" "cs_abs c' = (cs_abs c)(k := map_option (contents h') new)"
proof -
  have other: "slice_ok_in h' s" "contents h' s = contents (cs_heap c) s" if "cs_cache c k' = Some s" "k' \<noteq> k" for k' s
  proof -
    note ok = cs_invD(2) [OF inv that(1)]
    have fr': "frame (W - {0}) (cs_heap c) h'"
      using fr h' cs_invD(1) [OF inv] unfolding frame_def heap_ok_def by (metis DiffI singletonD)
    have "sl_arr s \<notin> W - {0}"
    proof
      assume "sl_arr s \<in> W - {0}"
      then obtain s0 where "cs_cache c k = Some s0" "sl_arr s0 = sl_arr s" "sl_arr s \<noteq> 0"
        using W [of "sl_arr s"] ok by (auto simp: slice_ok_in_def)
      then show False using cs_invD(4) [OF inv _ that(1), of k s0] that(2) by auto
    qed
    then show "slice_ok_in h' s" "contents h' s = contents (cs_heap c) s"
      using frame_slice_ok [OF fr' ok] frame_cells(2) [OF fr'] ok by (auto simp: slice_ok_in_def)
  qed
  have apart: "sl_arr s = 0" if "new = Some s" "cs_cache c k' = Some s'" "k' \<noteq> k" "sl_arr s = sl_arr s'" for s s' k'
  proof -
    have "sl_arr s' < length (cs_heap c)" using cs_invD(2) [OF inv that(2)] by (simp add: slice_ok_in_def)
    then show ?thesis using new [OF that(1)] cs_invD(4) [OF inv _ that(2)] that by fastforce
  qed
  show "cs_inv c'"
    unfolding cs_inv_def c'
  proof (intro conjI allI impI)
    fix k1 s1 assume s1: "((cs_cache c)(k := new)) k1 = Some s1"
    show "slice_ok_in h' s1" "urls_differ (contents h' s1)"
      using s1 new other cs_invD(3) [OF inv] by (auto split: if_splits)
    fix k2 s2 assume s2: "((cs_cache c)(k := new)) k2 = Some s2" "k1 \<noteq> k2" "sl_arr s1 = sl_arr s2"
    consider "k1 = k" "k2 \<noteq> k" | "k2 = k" "k1 \<noteq> k" | "k1 \<noteq> k" "k2 \<noteq> k" using s2(2) by blast
    then show "sl_arr s1 = 0"
    proof cases
      case 1 then show ?thesis using apart [of s1 k2 s2] s1 s2 by simp
    next
      case 2 then show ?thesis using apart [of s2 k1 s1] s1 s2 by simp
    next
      case 3 then show ?thesis using cs_invD(4) [OF inv, of k1 s1 k2 s2] s1 s2 by simp
    qed
  qed (rule h')
  show "cs_abs c' = (cs_abs c)(k := map_option (contents h') new)"
    using other by (auto simp: cs_abs_def c' fun_eq_iff map_option_case split: option.splits)
qed

lemma cs_inv_New [simp]: "cs_inv (NewSelector mode ttl)"
  by (simp add: cs_inv_def NewSelector_def heap_ok_def)

lemma cs_abs_New [simp]: "cs_abs (NewSelector mode ttl) = Map.empty"
  by (simp add: cs_abs_def NewSelector_def fun_eq_iff)

lemma heap_only:
  assumes "cs_inv c" "frame {} (cs_heap c) h'" "heap_ok h'" "cs_heap c' = h'" "cs_cache c' = cs_cache c"
  shows "cs_inv c'" "cs_abs c' = cs_abs c"
proof -
  let ?k = "[] :: string"
  have "cs_cache c' = (cs_cache c)(?k := cs_cache c ?k)" by (simp add: assms(5))
  note r = replace_entry [OF assms(1,2) _ assms(3) _ assms(4) this]
  have new: "slice_ok_in h' s \<and> urls_differ (contents h' s) \<and> (\<exists>s0. cs_cache c ?k = Some s0 \<and> sl_arr s0 = sl_arr s)"
    if "cs_cache c ?k = Some s" for s
    using frame_slice_ok [OF assms(2) cs_invD(2) [OF assms(1) that]] cs_invD(2,3) [OF assms(1) that]
      frame_cells(2) [OF assms(2), of s] that by (auto simp: slice_ok_in_def)
  show "cs_inv c'" by (rule r(1)) (use new in auto)
  have "map_option (contents h') (cs_cache c ?k) = cs_abs c ?k"
    using frame_cells(2) [OF assms(2)] cs_invD(2) [OF assms(1)]
    by (cases "cs_cache c ?k") (auto simp: cs_abs_def slice_ok_in_def)
  moreover have "cs_abs c' = (cs_abs c)(?k := map_option (contents h') (cs_cache c ?k))"
    by (rule r(2)) (use new in auto)
  ultimately show "cs_abs c' = cs_abs c" by simp
qed

section \<open>The operations keep the invariant\<close>

lemma cs_get_cases:
  assumes "cs_get X newcap now1 now2 reply s c = (res, c')"
  obtains (hit) conf s0 sl h' where "s = ConfPtr conf \<or> s = ConfVal conf" "cs_cache c (Key conf) = Some s0"
      "0 < sl_len s0" "cs_copy newcap s0 (cs_heap c) = (sl, h')" "res = Ok sl" "c' = c\<lparr>cs_heap := h'\<rparr>"
  | (miss) conf ss ssl sl h1 h' where "s = ConfPtr conf \<or> s = ConfVal conf" "reply = Ok ss"
      "append_all newcap nil_slice ss (cs_heap c) = (ssl, h1)" "cs_copy newcap ssl h1 = (sl, h')" "res = Ok ssl"
      "c' = c\<lparr>cs_heap := h', cs_cache := (cs_cache c)(Key conf \<mapsto> sl), cs_ttls := (cs_ttls c)(Key conf \<mapsto> now2 + cs_ttl c)\<rparr>"
  | (old) e conf s0 where "reply = Err e" "s = ConfPtr conf \<or> s = ConfVal conf" "cs_cache c (Key conf) = Some s0"
      "0 < sl_len s0" "res = Ok s0" "c' = c"
  | (none) "c' = c" "\<And>sl. res = Ok sl \<Longrightarrow> sl = nil_slice \<and> (\<exists>e. reply = Err e)"
proof -
  show thesis
    using assms unfolding cs_get_def Let_def
    by (auto split: ServiceConfigIf.splits option.splits outcome.splits prod.splits if_splits
        intro: hit miss old none simp: ret_def)
qed

lemma cs_get_miss_state:
  assumes "cs_inv c" "urls_differ ss" "append_all newcap nil_slice ss (cs_heap c) = (ssl, h1)"
    "cs_copy newcap ssl h1 = (sl, h')"
    "cs_heap c' = h'" "cs_cache c' = (cs_cache c)(k \<mapsto> sl)"
  shows "cs_inv c'" "cs_abs c' = (cs_abs c)(k \<mapsto> ss)" "slice_ok_in h' ssl" "contents h' ssl = ss"
    "sl_arr ssl = 0 \<or> length (cs_heap c) \<le> sl_arr ssl \<and> sl_arr ssl \<noteq> sl_arr sl"
    "frame {} (cs_heap c) h'"
proof -
  note a = append_all_fresh [OF cs_invD(1) [OF assms(1)] assms(3)]
  note b = cs_copy_fresh [OF a(3) assms(4)]
  have l: "length (cs_heap c) \<le> length h1" using a(5) by (simp add: frame_def)
  show fr: "frame {} (cs_heap c) h'" by (rule frame_trans [OF a(5) b(5)]) simp
  note r = replace_entry [OF assms(1) fr _ b(3) _ assms(5,6)]
  have new: "slice_ok_in h' sl \<and> urls_differ (contents h' sl) \<and> (sl_arr sl = 0 \<or> length (cs_heap c) \<le> sl_arr sl)"
    using b a(2) assms(2) l by auto
  show "cs_inv c'" by (rule r(1)) (use new in auto)
  show "cs_abs c' = (cs_abs c)(k \<mapsto> ss)" using r(2) new b(2) a(2) by auto
  show "slice_ok_in h' ssl" by (rule frame_slice_ok [OF b(5) a(1)]) simp
  show "contents h' ssl = ss" using frame_cells(2) [OF b(5), of ssl] a by (simp add: slice_ok_in_def)
  show "sl_arr ssl = 0 \<or> length (cs_heap c) \<le> sl_arr ssl \<and> sl_arr ssl \<noteq> sl_arr sl"
    using a(1,4) b(4) by (auto simp: slice_ok_in_def)
qed

lemma cs_get_inv:
  assumes "cs_inv c" "\<And>ss. reply = Ok ss \<Longrightarrow> urls_differ ss" "cs_get X newcap now1 now2 reply s c = (res, c')"
  shows "cs_inv c'"
  using assms(3)
proof (cases rule: cs_get_cases)
  case (hit conf s0 sl h')
  note b = cs_copy_fresh [OF cs_invD(1) [OF assms(1)] hit(4)]
  show ?thesis by (rule heap_only(1) [OF assms(1) b(5,3)]) (simp_all add: hit)
next
  case (miss conf ss ssl sl h1 h')
  show ?thesis by (rule cs_get_miss_state(1) [OF assms(1) assms(2) miss(3,4)]) (simp_all add: miss)
qed (simp_all add: assms(1))

lemma cs_Close_inv: "cs_inv c \<Longrightarrow> cs_inv (cs_Close c)"
  by (simp add: cs_inv_def cs_Close_def)

section \<open>The cache as a map of lists\<close>

text \<open>The list that an event leaves for its key.\<close>

definition spec_list :: "ServiceURLEvent \<Rightarrow> ServiceURL \<Rightarrow> ServiceURL list option \<Rightarrow> ServiceURL list" where
  "spec_list ev s m = (let rest = filter (\<lambda>x. su_PrimitiveURL x \<noteq> su_PrimitiveURL s) (case m of None \<Rightarrow> [] | Some l \<Rightarrow> l)
     in if ev_Action ev = ServiceURLDel then rest else rest @ [s])"

text \<open>What an event means: the service with its url is replaced, or removed; an empty list goes.\<close>

definition spec_update :: "ServiceURLEvent \<Rightarrow> (string \<rightharpoonup> ServiceURL list) \<Rightarrow> string \<rightharpoonup> ServiceURL list" where
  "spec_update ev m = (case ev_Service ev of
     None \<Rightarrow> m
   | Some s \<Rightarrow>
       (let k = Key (ServiceConfig_of s); new = spec_list ev s (m k)
        in m(k := if new = [] then None else Some new)))"

lemma cs_update_removed:
  assumes "cs_inv c"
  obtains s0 h0 where
    "(case cs_cache c k of None \<Rightarrow> Some (nil_slice, cs_heap c)
      | Some sl \<Rightarrow> update_loop url (sl_arr sl) 0 (sl_len sl) sl (cs_heap c)) = Some (s0, h0)"
    "slice_ok_in h0 s0" "heap_ok h0" "length h0 = length (cs_heap c)"
    "contents h0 s0 = filter (\<lambda>x. su_PrimitiveURL x \<noteq> url) (case cs_abs c k of None \<Rightarrow> [] | Some l \<Rightarrow> l)"
    "sl_arr s0 = 0 \<or> (\<exists>s. cs_cache c k = Some s \<and> sl_arr s = sl_arr s0)" "frame {sl_arr s0} (cs_heap c) h0"
proof (cases "cs_cache c k")
  case None
  show thesis by (rule that [of nil_slice "cs_heap c"]) (use None cs_invD(1) [OF assms] in \<open>simp_all add: cs_abs_def\<close>)
next
  case (Some s)
  obtain s0 h0 where e: "update_loop url (sl_arr s) 0 (sl_len s) s (cs_heap c) = Some (s0, h0)"
    and r: "removed url s (cs_heap c) s0 h0"
    using update_loop_spec [OF cs_invD(1) [OF assms] cs_invD(2) [OF assms Some], of 0 "sl_len s" url]
      cs_invD(3) [OF assms Some] by (auto simp: urls_differ_def)
  show thesis by (rule that [of s0 h0]) (use Some e r in \<open>auto simp: cs_abs_def removed_def\<close>)
qed

lemma cs_update_shape:
  assumes inv: "cs_inv c" and e: "cs_update newcap now ev c = (res, c')" and s: "ev_Service ev = Some s"
    and k: "k = Key (ServiceConfig_of s)"
  obtains a0 s1 h1 where "res = Ok ()" "c' = cs_set now k s1 (c\<lparr>cs_heap := h1\<rparr>)" "slice_ok_in h1 s1" "heap_ok h1"
    "contents h1 s1 = spec_list ev s (cs_abs c k)" "frame {a0} (cs_heap c) h1"
    "a0 = 0 \<or> (\<exists>s. cs_cache c k = Some s \<and> sl_arr s = a0)"
    "sl_arr s1 = a0 \<or> sl_arr s1 = length (cs_heap c)"
proof -
  obtain s0 h0 where l: "(case cs_cache c k of None \<Rightarrow> Some (nil_slice, cs_heap c)
      | Some sl \<Rightarrow> update_loop (su_PrimitiveURL s) (sl_arr sl) 0 (sl_len sl) sl (cs_heap c)) = Some (s0, h0)"
    and ok: "slice_ok_in h0 s0" "heap_ok h0" "length h0 = length (cs_heap c)"
      "contents h0 s0 = filter (\<lambda>x. su_PrimitiveURL x \<noteq> su_PrimitiveURL s) (case cs_abs c k of None \<Rightarrow> [] | Some l \<Rightarrow> l)"
    and arr: "sl_arr s0 = 0 \<or> (\<exists>s. cs_cache c k = Some s \<and> sl_arr s = sl_arr s0)"
    and fr: "frame {sl_arr s0} (cs_heap c) h0"
    by (rule cs_update_removed [OF inv])
  obtain s1 h1 where a: "(if ev_Action ev = ServiceURLDel then (s0, h0) else slice_append newcap s0 s h0) = (s1, h1)"
    by fastforce
  have ok1: "slice_ok_in h1 s1 \<and> heap_ok h1 \<and> contents h1 s1 = spec_list ev s (cs_abs c k) \<and>
      (sl_arr s1 = sl_arr s0 \<or> sl_arr s1 = length h0) \<and> frame {sl_arr s0} h0 h1"
    using a ok slice_append_spec [OF ok(2,1), of newcap s s1 h1] by (auto simp: spec_list_def Let_def split: if_splits)
  have fr1: "frame {sl_arr s0} (cs_heap c) h1" by (rule frame_trans [OF fr]) (use ok1 in auto)
  have "c' = cs_set now k s1 (c\<lparr>cs_heap := h1\<rparr>)" "res = Ok ()"
    using e s l a by (simp_all add: cs_update_def k [symmetric] split: prod.splits)
  then show thesis using that [of s1 h1 "sl_arr s0"] ok1 fr1 arr ok(3) by simp
qed

lemma urls_differ_spec_list: "(\<And>l. m = Some l \<Longrightarrow> urls_differ l) \<Longrightarrow> urls_differ (spec_list ev s m)"
  by (auto simp: urls_differ_def spec_list_def Let_def distinct_map_filter split: option.splits)

lemma cs_abs_urls: "cs_inv c \<Longrightarrow> cs_abs c k = Some l \<Longrightarrow> urls_differ l"
  by (auto simp: cs_abs_def dest: cs_invD(3))

lemma cs_update_spec:
  assumes inv: "cs_inv c" and e: "cs_update newcap now ev c = (res, c')"
  shows "res = Ok ()" "cs_inv c'" "cs_abs c' = spec_update ev (cs_abs c)"
proof -
  have "res = Ok () \<and> cs_inv c' \<and> cs_abs c' = spec_update ev (cs_abs c)"
  proof (cases "ev_Service ev")
    case None
    then show ?thesis using e inv by (simp add: cs_update_def spec_update_def)
  next
    case (Some s)
    define k where "k = Key (ServiceConfig_of s)"
    define new where "new = spec_list ev s (cs_abs c k)"
    obtain a0 s1 h1 where sh: "res = Ok ()" "c' = cs_set now k s1 (c\<lparr>cs_heap := h1\<rparr>)" "slice_ok_in h1 s1" "heap_ok h1"
      "contents h1 s1 = new" "frame {a0} (cs_heap c) h1"
      "a0 = 0 \<or> (\<exists>s. cs_cache c k = Some s \<and> sl_arr s = a0)"
      "sl_arr s1 = a0 \<or> sl_arr s1 = length (cs_heap c)"
      unfolding new_def by (rule cs_update_shape [OF inv e Some k_def])
    have urls: "urls_differ new"
      unfolding new_def by (rule urls_differ_spec_list) (rule cs_abs_urls [OF inv])
    have len: "sl_len s1 = length new" using sh(3,5) length_contents by metis
    note r = replace_entry [OF inv sh(6), of k, of "if new = [] then None else Some s1" c']
    have *: "cs_heap c' = h1" "cs_cache c' = (cs_cache c)(k := if new = [] then None else Some s1)"
      using len by (auto simp: sh cs_set_def)
    have "cs_inv c'" "cs_abs c' = (cs_abs c)(k := map_option (contents h1) (if new = [] then None else Some s1))"
      by (rule r; use sh(3-8) urls * in \<open>auto split: if_splits\<close>)+
    moreover have "spec_update ev (cs_abs c) = (cs_abs c)(k := if new = [] then None else Some new)"
      by (simp add: spec_update_def Some k_def [symmetric] Let_def new_def)
    ultimately show ?thesis using sh by auto
  qed
  then show "res = Ok ()" "cs_inv c'" "cs_abs c' = spec_update ev (cs_abs c)" by blast+
qed

section \<open>Reachable selectors\<close>

inductive cs_step :: "ext \<Rightarrow> (nat \<Rightarrow> nat) \<Rightarrow> cacheSelector \<Rightarrow> cacheSelector \<Rightarrow> bool" for X newcap where
  step_get: "(\<And>ss. reply = Ok ss \<Longrightarrow> urls_differ ss) \<Longrightarrow> cs_get X newcap now1 now2 reply s c = (res, c') \<Longrightarrow>
     cs_step X newcap c c'"
| step_update: "cs_update newcap now ev c = (res, c') \<Longrightarrow> cs_step X newcap c c'"
| step_close: "cs_step X newcap c (cs_Close c)"

inductive cs_reachable :: "ext \<Rightarrow> (nat \<Rightarrow> nat) \<Rightarrow> cacheSelector \<Rightarrow> bool" for X newcap where
  reach_new: "cs_reachable X newcap (NewSelector mode ttl)"
| reach_step: "cs_reachable X newcap c \<Longrightarrow> cs_step X newcap c c' \<Longrightarrow> cs_reachable X newcap c'"

lemma cs_step_inv: "cs_step X newcap c c' \<Longrightarrow> cs_inv c \<Longrightarrow> cs_inv c'"
  by (induction rule: cs_step.induct) (auto intro: cs_get_inv cs_update_spec(2) cs_Close_inv)

lemma cs_reachable_inv: "cs_reachable X newcap c \<Longrightarrow> cs_inv c"
  by (induction rule: cs_reachable.induct) (auto intro: cs_step_inv)

text \<open>The events of a watcher that reach the cache: those before its first error, no deletion while invalid.\<close>

fun accepted :: "(ServiceURLEvent outcome \<times> bool \<times> int) list \<Rightarrow> ServiceURLEvent list" where
  "accepted ((Ok ev, valid, _) # evs) =
     (if ev_Action ev = ServiceURLDel \<and> \<not> valid then accepted evs else ev # accepted evs)"
| "accepted _ = []"

lemma watch_spec:
  assumes "cs_inv c"
  shows "cs_inv (snd (watch X newcap evs c)) \<and>
    cs_abs (snd (watch X newcap evs c)) = fold spec_update (accepted evs) (cs_abs c) \<and>
    ((\<forall>x \<in> set evs. fst x \<noteq> Panic) \<longrightarrow> fst (watch X newcap evs c) \<noteq> Some Panic)"
  using assms
proof (induction evs arbitrary: c)
  case (Cons x evs)
  obtain nxt valid now where x: "x = (nxt, valid, now)" by (cases x)
  show ?case
  proof (cases nxt)
    case (Ok ev)
    obtain res c1 where u: "cs_update newcap now ev c = (res, c1)" by fastforce
    note sp = cs_update_spec [OF Cons.prems u]
    show ?thesis using Cons.IH [OF Cons.prems] Cons.IH [OF sp(2)] sp(1,3) u by (auto simp: x Ok)
  qed (use Cons.prems in \<open>simp_all add: x ret_def split: option.splits\<close>)
qed simp

section \<open>Lists that were handed out\<close>

definition cached_arrays :: "cacheSelector \<Rightarrow> nat set" where
  "cached_arrays c = {sl_arr s |s k. cs_cache c k = Some s} - {0}"

lemma cached_arrays_bound: "cs_inv c \<Longrightarrow> a \<in> cached_arrays c \<Longrightarrow> a < length (cs_heap c)"
  by (auto simp: cached_arrays_def slice_ok_in_def dest: cs_invD(2))

lemma cached_arrays_0 [simp]: "0 \<notin> cached_arrays c"
  by (simp add: cached_arrays_def)

lemma cached_arrays_heap: "cached_arrays (c\<lparr>cs_heap := h\<rparr>) = cached_arrays c"
  by (simp add: cached_arrays_def)

lemma cs_update_frame:
  assumes inv: "cs_inv c" and e: "cs_update newcap now ev c = (res, c')"
  shows "frame (cached_arrays c) (cs_heap c) (cs_heap c') \<and>
    cached_arrays c' \<inter> {..<length (cs_heap c)} \<subseteq> cached_arrays c"
proof (cases "ev_Service ev")
  case None
  then show ?thesis using e by (simp add: cs_update_def)
next
  case (Some s)
  define k where "k = Key (ServiceConfig_of s)"
  obtain a0 s1 h1 where sh: "c' = cs_set now k s1 (c\<lparr>cs_heap := h1\<rparr>)" "heap_ok h1"
    "frame {a0} (cs_heap c) h1"
    "a0 = 0 \<or> (\<exists>s. cs_cache c k = Some s \<and> sl_arr s = a0)"
    "sl_arr s1 = a0 \<or> sl_arr s1 = length (cs_heap c)"
    by (rule cs_update_shape [OF inv e Some k_def])
  have "frame (cached_arrays c) (cs_heap c) h1"
  proof (cases "a0 = 0")
    case True
    then show ?thesis
      using frame_mono [OF frame_nil [OF cs_invD(1) [OF inv] sh(2)], of "cached_arrays c"] sh(3) by simp
  next
    case False
    then have "a0 \<in> cached_arrays c" using sh(4) by (force simp: cached_arrays_def)
    then show ?thesis using frame_mono [OF sh(3), of "cached_arrays c"] by simp
  qed
  moreover have "cs_heap c' = h1" by (simp add: sh cs_set_def)
  moreover have "cached_arrays c' \<inter> {..<length (cs_heap c)} \<subseteq> cached_arrays c"
    using sh(4,5) by (auto simp: sh(1) cs_set_def cached_arrays_def split: if_splits)
  ultimately show ?thesis by simp
qed

lemma cs_step_frame:
  assumes "cs_step X newcap c c'" "cs_inv c"
  shows "frame (cached_arrays c) (cs_heap c) (cs_heap c')"
    "cached_arrays c' \<inter> {..<length (cs_heap c)} \<subseteq> cached_arrays c"
proof -
  have "frame (cached_arrays c) (cs_heap c) (cs_heap c') \<and>
      cached_arrays c' \<inter> {..<length (cs_heap c)} \<subseteq> cached_arrays c"
    using assms
  proof cases
    case (step_get reply now1 now2 s res)
    from step_get(2) show ?thesis
    proof (cases rule: cs_get_cases)
      case (hit conf s0 sl h')
      then show ?thesis using cs_copy_fresh(5) [OF cs_invD(1) [OF assms(2)] hit(4)]
        by (auto simp: cached_arrays_def intro: frame_mono)
    next
      case (miss conf ss ssl sl h1 h')
      note a = append_all_fresh [OF cs_invD(1) [OF assms(2)] miss(3)]
      note b = cs_copy_fresh [OF a(3) miss(4)]
      have "frame {} (cs_heap c) h'" by (rule frame_trans [OF a(5) b(5)]) simp
      moreover have "length (cs_heap c) \<le> length h1" using a(5) by (simp add: frame_def)
      ultimately show ?thesis using b(4) by (auto simp: miss cached_arrays_def intro: frame_mono)
    qed simp_all
  next
    case (step_update now ev res)
    show ?thesis by (rule cs_update_frame [OF assms(2) step_update])
  next
    case step_close
    then show ?thesis by (auto simp: cached_arrays_def cs_Close_def)
  qed
  then show "frame (cached_arrays c) (cs_heap c) (cs_heap c')"
    "cached_arrays c' \<inter> {..<length (cs_heap c)} \<subseteq> cached_arrays c" by blast+
qed

lemma cs_steps_keep:
  assumes "(cs_step X newcap)\<^sup>*\<^sup>* c c'" "cs_inv c" "slice_ok_in (cs_heap c) sl" "sl_arr sl \<notin> cached_arrays c"
  shows "contents (cs_heap c') sl = contents (cs_heap c) sl"
proof -
  have "contents (cs_heap c') sl = contents (cs_heap c) sl \<and> cs_inv c' \<and> slice_ok_in (cs_heap c') sl \<and>
      sl_arr sl \<notin> cached_arrays c'"
    using assms(1)
  proof (induction rule: rtranclp_induct)
    case (step c1 c2)
    then have ok: "cs_inv c1" "slice_ok_in (cs_heap c1) sl" "sl_arr sl \<notin> cached_arrays c1" by blast+
    note fr = cs_step_frame [OF step(2) ok(1)]
    have l: "sl_arr sl < length (cs_heap c1)" using ok(2) by (simp add: slice_ok_in_def)
    show ?case
      using step(3) frame_cells(2) [OF fr(1) l ok(3)] frame_slice_ok [OF fr(1) ok(2,3)] cs_step_inv [OF step(2) ok(1)]
        fr(2) l ok(3) by auto
  qed (use assms in blast)
  then show ?thesis by blast
qed

section \<open>What the selector needs of a registry\<close>

text \<open>
  The contract of \<^verbatim>\<open>registry.Registry\<close>: the services in an answer have different urls and match the
  configuration that was registered under the key of the request.
\<close>

locale registry_service =
  fixes GetServices :: "'r \<Rightarrow> ServiceConfigIf \<Rightarrow> ServiceURL list outcome"
    and registered :: "'r \<Rightarrow> string \<rightharpoonup> ServiceConfig"
  assumes answer_differ: "GetServices r s = Ok ss \<Longrightarrow> urls_differ ss"
    and answer_matches: "GetServices r (ConfPtr conf) = Ok ss \<Longrightarrow>
      \<exists>conf0. registered r (Key conf) = Some conf0 \<and> (\<forall>u \<in> set ss. ServiceEqual conf0 u)"
begin

lemma get_step:
  assumes "cs_get X newcap now1 now2 (GetServices r s) s c = (res, c')"
  shows "cs_step X newcap c c'"
  by (rule step_get [OF answer_differ assms])

text \<open>
  What a selector answers on a miss are services of the registered configuration, whatever group
  and version the request has.
\<close>

lemma miss_answer:
  assumes "cs_reachable X newcap c" "cs_cache c (Key conf) = None"
    "cs_get X newcap now1 now2 (GetServices r (ConfPtr conf)) (ConfPtr conf) c = (Ok sl, c')"
    "GetServices r (ConfPtr conf) = Ok ss"
  shows "contents (cs_heap c') sl = ss \<and>
    (\<exists>conf0. registered r (Key conf) = Some conf0 \<and> (\<forall>u \<in> set (contents (cs_heap c') sl). ServiceEqual conf0 u))"
  using assms(3)
proof (cases rule: cs_get_cases)
  case (miss conf' ss' ssl sl' h1 h')
  have c': "cs_heap c' = h'" "cs_cache c' = (cs_cache c)(Key conf' \<mapsto> sl')" by (simp_all add: miss)
  note m = cs_get_miss_state [OF cs_reachable_inv [OF assms(1)] answer_differ [OF miss(2)] miss(3,4) c']
  show ?thesis using m(4) miss answer_matches [OF assms(4)] assms(4) c' by auto
qed (use assms in auto)

end

section \<open>An example\<close>

text \<open>A service for examples: its url is also its location.\<close>

definition sample_url :: "string \<Rightarrow> ServiceURL" where
  "sample_url u = \<lparr>su_Protocol = ''dubbo'', su_Location = u, su_Path = [], su_Ip = [], su_Port = [], su_Version = [],
     su_Group = [], su_Query = (\<lambda>k. if k = ''interface'' then [''S''] else []), su_Weight = 0, su_PrimitiveURL = u\<rparr>"

abbreviation (input) sample_conf :: ServiceConfig where
  "sample_conf \<equiv> \<lparr>sc_Protocol = ''dubbo'', sc_Service = ''S'', sc_Group = [], sc_Version = []\<rparr>"

lemma sample_simps [simp]:
  "su_PrimitiveURL (sample_url u) = u" "ServiceConfig_of (sample_url u) = sample_conf"
  by (simp_all add: sample_url_def ServiceConfig_of_def Get_def)

lemmas cs_eval = NewSelector_def cs_get_def cs_update_def cs_set_def cs_copy_def Let_def Key_def
  slice_append_def contents_def cells_def nil_slice_def

section \<open>Properties\<close>

text \<open>
  C14: The cache follows the registry. In every reachable selector the lists are well-formed slices of
  services with different urls, no two keys share an array, and processing any sequence of results
  of a watcher never fails on a nil service and leaves exactly the map of lists that the accepted
  events describe: an added or updated service is moved to the end of the list of its key, a
  deleted one is removed, an empty list disappears, and no other key changes.
\<close>

theorem watch_refines:
  assumes "cs_reachable X newcap c"
  shows "cs_inv c \<and> cs_inv (snd (watch X newcap evs c)) \<and>
    cs_abs (snd (watch X newcap evs c)) = fold spec_update (accepted evs) (cs_abs c) \<and>
    ((\<forall>x \<in> set evs. fst x \<noteq> Panic) \<longrightarrow> fst (watch X newcap evs c) \<noteq> Some Panic)"
  using cs_reachable_inv [OF assms] watch_spec by blast

theorem watch_refines_witness:
  "cs_abs (snd (watch ext0 (\<lambda>n. n) [(Ok \<lparr>ev_Action = ServiceURLAdd, ev_Service = Some (sample_url ''a'')\<rparr>, True, 0)]
     (NewSelector None None))) = [''S@dubbo'' \<mapsto> [sample_url ''a'']]"
  using watch_refines [OF cs_reachable.reach_new [of ext0 "\<lambda>n. n" None None],
      of "[(Ok \<lparr>ev_Action = ServiceURLAdd, ev_Service = Some (sample_url ''a'')\<rparr>, True, 0)]"]
  by (simp add: spec_update_def spec_list_def Key_def Let_def)

text \<open>
  C17: A list that the selector hands out from a fresh entry or from the registry belongs to the
  caller alone: it has the contents of the entry afterwards, and whatever the selector does later,
  those contents stay as they are.
\<close>

theorem handed_out_stable:
  assumes "cs_reachable X newcap c" and "\<And>ss. reply = Ok ss \<Longrightarrow> urls_differ ss"
    and "cs_get X newcap now1 now2 reply (ConfVal conf) c = (Ok sl, c')"
    and "\<forall>e. reply \<noteq> Err e" and "(cs_step X newcap)\<^sup>*\<^sup>* c' c''"
  shows "cs_abs c' (Key conf) = Some (contents (cs_heap c') sl) \<and> contents (cs_heap c'') sl = contents (cs_heap c') sl"
  using assms(3)
proof (cases rule: cs_get_cases)
  case (hit conf' s0 sl' h')
  note inv = cs_reachable_inv [OF assms(1)]
  note b = cs_copy_fresh [OF cs_invD(1) [OF inv] hit(4)]
  have "sl_arr sl \<notin> cached_arrays c'"
    using b(4) hit(5) cached_arrays_bound [OF inv, of "sl_arr sl"] by (auto simp: hit(6) cached_arrays_heap)
  moreover have "slice_ok_in (cs_heap c') sl" using b(1) hit(5) by (simp add: hit(6))
  moreover have "contents h' s0 = contents (cs_heap c) s0"
    using frame_cells(2) [OF b(5), of s0] cs_invD(2) [OF inv hit(2)] by (simp add: slice_ok_in_def)
  ultimately show ?thesis
    using cs_steps_keep [OF assms(5) cs_get_inv [OF inv assms(2,3)]] hit b(2) by (auto simp: cs_abs_def)
next
  case (miss conf' ss ssl sl' h1 h')
  note inv = cs_reachable_inv [OF assms(1)]
  have c': "cs_heap c' = h'" "cs_cache c' = (cs_cache c)(Key conf' \<mapsto> sl')" by (simp_all add: miss)
  note m = cs_get_miss_state [OF inv assms(2) [OF miss(2)] miss(3,4) c']
  have "sl_arr sl \<notin> cached_arrays c'"
  proof -
    have "cached_arrays c' \<subseteq> insert (sl_arr sl') (cached_arrays c)" by (auto simp: c' cached_arrays_def split: if_splits)
    then show ?thesis using m(5) miss(5) cached_arrays_bound [OF inv, of "sl_arr sl"] by auto
  qed
  then show ?thesis
    using cs_steps_keep [OF assms(5) cs_get_inv [OF inv assms(2,3)], of sl] m(2,3,4) miss c' by auto
next
  case (old e)
  then show ?thesis using assms(4) by blast
next
  case none
  then show ?thesis using assms(4) by blast
qed


theorem handed_out_stable_witness:
  "\<exists>sl c'. cs_get ext0 (\<lambda>n. n) 0 0 (Ok [sample_url ''a'']) (ConfVal sample_conf) (NewSelector None None) = (Ok sl, c') \<and>
     cs_abs c' (Key sample_conf) = Some (contents (cs_heap (cs_Close c')) sl)"
proof -
  obtain sl c' where g: "cs_get ext0 (\<lambda>n. n) 0 0 (Ok [sample_url ''a'']) (ConfVal sample_conf) (NewSelector None None) = (Ok sl, c')"
    by (simp add: cs_eval)
  have "(cs_step ext0 (\<lambda>n. n))\<^sup>*\<^sup>* c' (cs_Close c')" by (rule r_into_rtranclp) (rule step_close)
  from handed_out_stable [OF cs_reachable.reach_new _ g _ this] g show ?thesis by (auto simp: urls_differ_def)
qed

text \<open>
  When an entry has expired and the registry fails, the selector hands out the cached list
  itself. If the i-th of its services is then deleted, the list in the hands of the caller changes
  under it: the services after it move down and the last one appears twice.
\<close>

theorem stale_list_changes:
  assumes "cs_reachable X newcap c" and "cs_cache c (Key conf) = Some sl" and "0 < sl_len sl"
    and "\<And>t. cs_ttls c (Key conf) = Some t \<Longrightarrow> cs_ttl c \<le> now1 - t"
    and "xs = contents (cs_heap c) sl" and "i < length xs" and "Key (ServiceConfig_of (xs ! i)) = Key conf"
  shows "cs_get X newcap now1 now2 (Err e) (ConfVal conf) c = (Ok sl, c) \<and>
    contents (cs_heap (snd (cs_update newcap now \<lparr>ev_Action = ServiceURLDel, ev_Service = Some (xs ! i)\<rparr> c))) sl
      = take i xs @ drop (Suc i) xs @ [last xs]"
proof
  have "\<not> (case cs_ttls c (Key conf) of Some t \<Rightarrow> now1 - t < cs_ttl c | None \<Rightarrow> False)"
    using assms(4) by (auto split: option.splits)
  then show "cs_get X newcap now1 now2 (Err e) (ConfVal conf) c = (Ok sl, c)"
    using assms(2,3) by (simp add: cs_get_def Let_def)
  note inv = cs_reachable_inv [OF assms(1)]
  note ok = cs_invD(1) [OF inv] cs_invD(2) [OF inv assms(2)]
  have d: "distinct (map su_PrimitiveURL (contents (cs_heap c) sl))"
    using cs_invD(3) [OF inv assms(2)] by (simp add: urls_differ_def)
  have n: "sl_len sl = length xs" using length_contents [OF ok(2)] assms(5) by simp
  obtain s' h' where del: "slice_delete i sl (cs_heap c) = (s', h')" by fastforce
  have "update_loop (su_PrimitiveURL (xs ! i)) (sl_arr sl) 0 (sl_len sl) sl (cs_heap c) = Some (s', h')"
    by (rule update_loop_hits [OF ok d _ _ del]) (use assms(5,6) n in auto)
  then have "cs_heap (snd (cs_update newcap now \<lparr>ev_Action = ServiceURLDel, ev_Service = Some (xs ! i)\<rparr> c)) = h'"
    using assms(2,7) by (simp add: cs_update_def Let_def cs_set_def)
  moreover have "contents h' sl = take i xs @ drop (Suc i) xs @ [last xs]"
    using slice_delete_alias [OF ok _ del] assms(5,6) n by simp
  ultimately show "contents (cs_heap (snd (cs_update newcap now \<lparr>ev_Action = ServiceURLDel, ev_Service = Some (xs ! i)\<rparr> c))) sl
      = take i xs @ drop (Suc i) xs @ [last xs]" by simp
qed

theorem stale_list_changes_witness:
  "\<exists>c sl. cs_cache c (Key sample_conf) = Some sl \<and> contents (cs_heap c) sl = [sample_url ''a'', sample_url ''b''] \<and>
     contents (cs_heap (snd (cs_update (\<lambda>n. n) 0 \<lparr>ev_Action = ServiceURLDel, ev_Service = Some (sample_url ''a'')\<rparr> c))) sl
       = [sample_url ''b'', sample_url ''b'']"
proof -
  let ?g = "cs_get ext0 (\<lambda>n. n) 0 0 (Ok [sample_url ''a'', sample_url ''b'']) (ConfVal sample_conf) (NewSelector None (Some 0))"
  obtain res c where g: "?g = (res, c)" by fastforce
  have r: "cs_reachable ext0 (\<lambda>n. n) c"
    by (rule reach_step [OF reach_new]) (rule step_get [OF _ g], simp add: urls_differ_def)
  obtain sl where sl: "cs_cache c (Key sample_conf) = Some sl" "sl_len sl = 2"
    "contents (cs_heap c) sl = [sample_url ''a'', sample_url ''b'']"
    using g by (auto simp: cs_eval)
  have t: "cs_ttl c = 0" "cs_ttls c (Key sample_conf) = Some 0" using g by (auto simp: cs_eval)
  from stale_list_changes [OF r sl(1) _ _ sl(3) [symmetric], of 0 0 0 EOF 0] sl t show ?thesis
    by (intro exI [of _ c] exI [of _ sl]) simp
qed

text \<open>
  How long an entry lives: the list that a miss has stored at time \<open>now2\<close> answers every request
  with the same key, whatever its group and version, without asking the registry until twice the
  time to live has passed; after that the registry answers, and if it fails the old list does.
\<close>

theorem cache_lifetime:
  assumes "cs_reachable X newcap c" and "cs_cache c (Key conf) = None" and "urls_differ ss" and "ss \<noteq> []"
    and "cs_get X newcap now1 now2 (Ok ss) (ConfVal conf) c = (res, c1)" and "Key conf' = Key conf"
    and "cs_get X newcap t t' reply (ConfVal conf') c1 = (Ok sl, c2)"
  shows "contents (cs_heap c2) sl =
    (if t < now2 + 2 * cs_ttl c then ss else case reply of Ok ss' \<Rightarrow> ss' | _ \<Rightarrow> ss)"
proof -
  note inv = cs_reachable_inv [OF assms(1)]
  obtain ssl h1 s0 h' where a: "append_all newcap nil_slice ss (cs_heap c) = (ssl, h1)"
    and b: "cs_copy newcap ssl h1 = (s0, h')" by fastforce
  have c1: "cs_heap c1 = h'" "cs_cache c1 = (cs_cache c)(Key conf \<mapsto> s0)" "cs_ttl c1 = cs_ttl c"
    "cs_ttls c1 (Key conf) = Some (now2 + cs_ttl c)"
    using assms(2,5) a b by (auto simp: cs_get_def Let_def split: prod.splits)
  note m = cs_get_miss_state [OF inv assms(3) a b c1(1,2)]
  have s0: "cs_cache c1 (Key conf) = Some s0" "contents (cs_heap c1) s0 = ss"
    using m(2) c1 by (auto simp: cs_abs_def fun_eq_iff dest: spec [of _ "Key conf"])
  have len: "0 < sl_len s0" using length_contents [OF cs_invD(2) [OF m(1) s0(1)]] s0(2) assms(4)
    by (metis length_greater_0_conv)
  show ?thesis
  proof (cases "t < now2 + 2 * cs_ttl c")
    case True
    then have "cs_copy newcap s0 (cs_heap c1) = (sl, cs_heap c2)"
      using assms(6,7) c1(3,4) s0(1) len by (auto simp: cs_get_def Let_def split: prod.splits)
    from cs_copy_fresh(2) [OF cs_invD(1) [OF m(1)] this] True s0(2) show ?thesis by simp
  next
    case False
    then have expired: "\<not> t - (now2 + cs_ttl c) < cs_ttl c1" using c1(3) by simp
    show ?thesis
    proof (cases reply)
      case (Ok ss')
      obtain ssl h2 s3 h3 where ab: "append_all newcap nil_slice ss' (cs_heap c1) = (ssl, h2)"
        "cs_copy newcap ssl h2 = (s3, h3)" by fastforce
      then have r: "sl = ssl" "cs_heap c2 = h3" using assms(6,7) Ok expired c1(4) s0(1)
        by (auto simp: cs_get_def Let_def)
      note f = append_all_fresh [OF cs_invD(1) [OF m(1)] ab(1)]
      have "contents h3 ssl = ss'"
        using frame_cells(2) [OF cs_copy_fresh(5) [OF f(3) ab(2)], of ssl] f(1,2) by (simp add: slice_ok_in_def)
      then show ?thesis using False Ok r by simp
    qed (use assms(6,7) expired c1(4) s0 len False in \<open>auto simp: cs_get_def Let_def\<close>)
  qed
qed

theorem cache_lifetime_witness:
  "\<exists>c1 sl c2. cs_get ext0 (\<lambda>n. n) 15 15 (Ok []) (ConfVal (sample_conf\<lparr>sc_Version := ''2''\<rparr>)) c1 = (Ok sl, c2) \<and>
     contents (cs_heap c2) sl = [sample_url ''a'']"
proof -
  obtain res c1 where g: "cs_get ext0 (\<lambda>n. n) 0 0 (Ok [sample_url ''a'']) (ConfVal sample_conf) (NewSelector None (Some 10)) = (res, c1)"
    by fastforce
  obtain sl c2 where g2: "cs_get ext0 (\<lambda>n. n) 15 15 (Ok []) (ConfVal (sample_conf\<lparr>sc_Version := ''2''\<rparr>)) c1 = (Ok sl, c2)"
    using g by (simp add: cs_eval) (auto simp: cs_eval)
  have "contents (cs_heap c2) sl = (if (15 :: int) < 0 + 2 * cs_ttl (NewSelector None (Some 10)) then [sample_url ''a'']
      else case Ok [] of Ok ss' \<Rightarrow> ss' | _ \<Rightarrow> [sample_url ''a''])"
    by (rule cache_lifetime [OF cs_reachable.reach_new _ _ _ g _ g2]) (simp_all add: NewSelector_def urls_differ_def Key_def)
  then show ?thesis using g2 by (auto simp: NewSelector_def)
qed

end
