(* ===== verification/Zk_Registry.thy ===== *)
theory Zk_Registry
  imports Zk_Client Selector_Cache
begin

text \<open>
  The ZooKeeper registries, \<^verbatim>\<open>registry/zk/registry.go\<close>, \<^verbatim>\<open>consumer.go\<close> and \<^verbatim>\<open>provider.go\<close>: services
  are registered as temporary nodes whose names are escaped urls, and a consumer finds the
  providers of a service by reading those names. When the connection is lost, all services are
  registered again on a new one. A Go map is a list of entries with different keys.
\<close>

section \<open>The common part\<close>

record ApplicationConfig =
  ac_Organization :: string
  ac_Name :: string
  ac_Module :: string
  ac_Version :: string
  ac_Owner :: string

text \<open>The package variables \<^verbatim>\<open>processID\<close> and \<^verbatim>\<open>localIP\<close>.\<close>

record procinfo =
  processID :: string
  localIP :: string

definition DubboNodes :: "string list" where
  "DubboNodes = [''consumers'', ''configurators'', ''routers'', ''providers'']"

definition DubboRole :: "string list" where
  "DubboRole = [''consumer'', [], [], ''provider'']"

abbreviation (input) CONSUMER :: nat where "CONSUMER \<equiv> 0"
abbreviation (input) PROVIDER :: nat where "PROVIDER \<equiv> 3"
abbreviation (input) lib_Version :: string where "lib_Version \<equiv> ''0.2.0''"

text \<open>\<open>zr_services\<close> is \<open>None\<close> for the nil map that closing leaves behind.\<close>

record 'c zookeeperRegistry =
  zr_app :: ApplicationConfig
  zr_Address :: "string list"
  zr_Timeout :: int
  zr_birth :: int
  zr_done :: bool
  zr_client :: "zookeeperClient option"
  zr_services :: "(string \<times> 'c) list option"

text \<open>\<^verbatim>\<open>validateZookeeperClient\<close> without the annotation of its error, which differs between the registries.\<close>

definition validateZookeeperClient ::
  "ext \<Rightarrow> 'z zkapi \<Rightarrow> string \<Rightarrow> ('c zookeeperRegistry \<times> 'z) \<Rightarrow> unit outcome \<times> 'c zookeeperRegistry \<times> 'z" where
  "validateZookeeperClient X Z name rz = (case rz of (r, z) \<Rightarrow>
     (case zr_client r of
        Some _ \<Rightarrow> (Ok (), rz)
      | None \<Rightarrow>
          (case newZookeeperClient X Z name (zr_Address r) (zr_Timeout r) z of
             (Ok c, z) \<Rightarrow> (Ok (), r\<lparr>zr_client := Some c\<rparr>, z)
           | (Err e, z) \<Rightarrow> (Err e, r, z)
           | (Panic, z) \<Rightarrow> (Panic, r, z) | (NoFuel, z) \<Rightarrow> (NoFuel, r, z))))"

definition newZookeeperRegistry ::
  "ext \<Rightarrow> 'z zkapi \<Rightarrow> ApplicationConfig \<Rightarrow> string list \<Rightarrow> int \<Rightarrow> int \<Rightarrow> 'z
   \<Rightarrow> 'c zookeeperRegistry outcome \<times> 'z" where
  "newZookeeperRegistry X Z app addr timeout now z =
     (let app = app\<lparr>ac_Name := if ac_Name app = [] then ''dubbogo'' else ac_Name app,
                    ac_Version := if ac_Version app = [] then lib_Version else ac_Version app\<rparr>;
          r = \<lparr>zr_app = app, zr_Address = addr, zr_Timeout = if timeout = 0 then 1 else timeout, zr_birth = now,
               zr_done = False, zr_client = None, zr_services = None\<rparr>
      in case validateZookeeperClient X Z ''zk registry'' (r, z) of
           (Ok _, r, z) \<Rightarrow> (Ok (r\<lparr>zr_services := Some []\<rparr>), z)
         | (Err e, r, z) \<Rightarrow>
             (ret r (je_Trace X (je_Annotatef X ''newZookeeperClient(address:%+v)'' (Some e))), z)
         | (Panic, r, z) \<Rightarrow> (Panic, z) | (NoFuel, r, z) \<Rightarrow> (NoFuel, z))"

text \<open>An operation of the client of the registry; a nil client is a nil pointer.\<close>

definition with_client ::
  "('c zookeeperRegistry \<times> 'z) \<Rightarrow> (zookeeperClient \<Rightarrow> 'z \<Rightarrow> 'a outcome \<times> 'z)
   \<Rightarrow> 'a outcome \<times> 'c zookeeperRegistry \<times> 'z" where
  "with_client rz f = (case rz of (r, z) \<Rightarrow> (case zr_client r of
     None \<Rightarrow> (Panic, rz)
   | Some c \<Rightarrow> (case f c z of (res, z) \<Rightarrow> (res, r, z))))"

definition registerTempZookeeperNode ::
  "ext \<Rightarrow> 'z zkapi \<Rightarrow> string \<Rightarrow> string \<Rightarrow> ('c zookeeperRegistry \<times> 'z) \<Rightarrow> unit outcome \<times> 'c zookeeperRegistry \<times> 'z" where
  "registerTempZookeeperNode X Z root node rz =
     otry (with_client rz (\<lambda>c. Create X Z c root))
       (\<lambda>e rz. (ret () (je_Annotatef X ''zk.Create(root{%s})'' (Some e)), rz))
       (\<lambda>_ rz. otry (with_client rz (\<lambda>c. RegisterTemp X Z c root node))
         (\<lambda>e rz. (ret () (je_Annotatef X ''RegisterTempNode(root{%s}, node{%s})'' (Some e)), rz))
         (\<lambda>_ rz. (Ok (), rz)))"

definition registerZookeeperNode ::
  "ext \<Rightarrow> 'z zkapi \<Rightarrow> string \<Rightarrow> string \<Rightarrow> ('c zookeeperRegistry \<times> 'z) \<Rightarrow> unit outcome \<times> 'c zookeeperRegistry \<times> 'z" where
  "registerZookeeperNode X Z root data rz =
     otry (with_client rz (\<lambda>c. Create X Z c root))
       (\<lambda>e rz. (ret () (je_Annotatef X ''zkclient.Create(root:%s)'' (Some e)), rz))
       (\<lambda>_ rz. otry (with_client rz (\<lambda>c. RegisterTempSeq X Z c root data))
         (\<lambda>e rz. (ret () (je_Annotatef X ''createTempSeqNode(root{%s})'' (Some e)), rz))
         (\<lambda>_ rz. (Ok (), rz)))"

definition service_root :: "string \<Rightarrow> nat \<Rightarrow> string" where
  "service_root service t = ''/dubbo/'' @ service @ ''/'' @ DubboNodes ! t"

text \<open>The parameters that consumers and providers both put into their url.\<close>

definition common_params ::
  "procinfo \<Rightarrow> 'c zookeeperRegistry \<Rightarrow> ServiceConfig \<Rightarrow> nat \<Rightarrow> string \<Rightarrow> (string \<times> string) list" where
  "common_params P r conf t lib = (let app = zr_app r in
     [(''interface'', sc_Service conf), (''application'', ac_Name app),
      (''revision'', if ac_Version app = [] then ''0.1.0'' else ac_Version app)] @
     (if sc_Group conf \<noteq> [] then [(''group'', sc_Group conf)] else []) @
     [(''category'', DubboNodes ! t), (''dubbo'', lib @ lib_Version), (''org'', ac_Organization app),
      (''module'', ac_Module app), (''owner'', ac_Owner app), (''side'', DubboRole ! t),
      (''pid'', processID P), (''ip'', localIP P), (''timeout'', itoa (zr_Timeout r)), (''timestamp'', itoa (zr_birth r))] @
     (if sc_Version conf \<noteq> [] then [(''version'', sc_Version conf)] else []))"

section \<open>Consumers\<close>

definition consumer_url :: "procinfo \<Rightarrow> ServiceConfig zookeeperRegistry \<Rightarrow> ServiceConfig \<Rightarrow> string" where
  "consumer_url P r conf =
     sc_Protocol conf @ ''://'' @ localIP P @ ''/'' @ (sc_Service conf @ sc_Version conf) @ ''?'' @
     Values_Encode (common_params P r conf CONSUMER ''dubbo-consumer-golang-'')"

definition cons_register ::
  "ext \<Rightarrow> 'z zkapi \<Rightarrow> procinfo \<Rightarrow> ServiceConfig \<Rightarrow> (ServiceConfig zookeeperRegistry \<times> 'z)
   \<Rightarrow> unit outcome \<times> ServiceConfig zookeeperRegistry \<times> 'z" where
  "cons_register X Z P conf rz =
     otry (validateZookeeperClient X Z ''consumer zk registry'' rz) (traced X ()) (\<lambda>_ rz.
     otry (with_client rz (\<lambda>c. Create X Z c (service_root (sc_Service conf) CONSUMER))) (traced X ()) (\<lambda>_ rz.
     otry (with_client rz (\<lambda>c. Create X Z c (service_root (sc_Service conf) PROVIDER))) (traced X ()) (\<lambda>_ rz.
     otry (registerTempZookeeperNode X Z (service_root (sc_Service conf) CONSUMER)
             (QueryEscape (consumer_url P (fst rz) conf)) rz)
       (traced X ()) (\<lambda>_ rz. (Ok (), rz)))))"

definition cons_Register ::
  "ext \<Rightarrow> 'z zkapi \<Rightarrow> procinfo \<Rightarrow> ServiceConfig option \<Rightarrow> (ServiceConfig zookeeperRegistry \<times> 'z)
   \<Rightarrow> unit outcome \<times> ServiceConfig zookeeperRegistry \<times> 'z" where
  "cons_Register X Z P sc rz = (case sc of
     None \<Rightarrow> (Err (Errorf ''@c{%v} type is not registry.ServiceConfig''), rz)
   | Some conf \<Rightarrow>
     if map_of (case zr_services (fst rz) of None \<Rightarrow> [] | Some m \<Rightarrow> m) (Key conf) \<noteq> None then
       (Err (Errorf ''Service{%s} has been registered''), rz)
     else otry (cons_register X Z P conf rz) (\<lambda>e rz. (Err e, rz)) (\<lambda>_ (r, z).
       (case zr_services r of
          None \<Rightarrow> (Panic, r, z)
        | Some m \<Rightarrow> (Ok (), r\<lparr>zr_services := Some (AList.update (Key conf) conf m)\<rparr>, z))))"

text \<open>
  \<^verbatim>\<open>GetServices\<close>. The services found are kept by location; what the code looks up before it stores one
  is not its location but the query parameter of that name. \<open>rank\<close> gives the order in which Go
  visits the map at the end.
\<close>

fun collect_services :: "ServiceConfig \<Rightarrow> string list \<Rightarrow> (string \<times> ServiceURL) list \<Rightarrow> (string \<times> ServiceURL) list" where
  "collect_services conf [] m = m"
| "collect_services conf (n # ns) m = (case NewServiceURL n of
     Ok u \<Rightarrow>
       if \<not> ServiceEqual conf u then collect_services conf ns m
       else if map_of m (Get (su_Query u) (su_Location u)) = None then
         collect_services conf ns (AList.update (su_Location u) u m)
       else collect_services conf ns m
   | _ \<Rightarrow> collect_services conf ns m)"

definition GetServices ::
  "ext \<Rightarrow> 'z zkapi \<Rightarrow> (string \<Rightarrow> nat) \<Rightarrow> ServiceConfigIf \<Rightarrow> (ServiceConfig zookeeperRegistry \<times> 'z)
   \<Rightarrow> ServiceURL list outcome \<times> ServiceConfig zookeeperRegistry \<times> 'z" where
  "GetServices X Z rank i rz = (case i of
     ConfPtr sc \<Rightarrow>
       (case map_of (case zr_services (fst rz) of None \<Rightarrow> [] | Some m \<Rightarrow> m) (Key sc) of
          None \<Rightarrow> (Err (Errorf ''Service{%s} has not been registered''), rz)
        | Some conf \<Rightarrow>
            otry (validateZookeeperClient X Z ''consumer zk registry'' rz) (traced X []) (\<lambda>_ rz.
            otry (with_client rz (\<lambda>c. getChildren X Z c (service_root (sc_Service sc) PROVIDER))) (traced X []) (\<lambda>nodes rz.
              (Ok (map snd (sort_key (\<lambda>e. rank (fst e)) (collect_services conf nodes []))), rz))))
   | _ \<Rightarrow> (Err (Errorf ''@i:%#v is not of type registry.ServiceConfig type''), rz))"

text \<open>
  One round of the inner loop of \<^verbatim>\<open>handleZkRestart\<close>: connect, append all services to the list
  \<open>services\<close>, which keeps what earlier rounds and earlier restarts put there, and register
  the whole list. The log statement reads the address of the client even when there is none.
\<close>

fun reregister ::
  "ext \<Rightarrow> 'z zkapi \<Rightarrow> procinfo \<Rightarrow> ServiceConfig list \<Rightarrow> (ServiceConfig zookeeperRegistry \<times> 'z)
   \<Rightarrow> unit outcome \<times> ServiceConfig zookeeperRegistry \<times> 'z" where
  "reregister X Z P [] rz = (Ok (), rz)"
| "reregister X Z P (conf # confs) rz =
     otry (cons_register X Z P conf rz) (\<lambda>e rz. (Err e, rz)) (\<lambda>_ rz. reregister X Z P confs rz)"

definition restart_round ::
  "ext \<Rightarrow> 'z zkapi \<Rightarrow> procinfo \<Rightarrow> ServiceConfig list \<Rightarrow> (ServiceConfig zookeeperRegistry \<times> 'z)
   \<Rightarrow> (bool \<times> ServiceConfig list) outcome \<times> ServiceConfig zookeeperRegistry \<times> 'z" where
  "restart_round X Z P services rz = (case validateZookeeperClient X Z ''consumer zk registry'' rz of
     (res, r, z) \<Rightarrow>
       if zr_client r = None then (Panic, r, z)
       else (case res of
         Ok _ \<Rightarrow>
           (let services = services @ map snd (case zr_services r of None \<Rightarrow> [] | Some m \<Rightarrow> m)
            in case reregister X Z P services (r, z) of
                 (Ok _, rz) \<Rightarrow> (Ok (True, services), rz)
               | (Err e, rz) \<Rightarrow> (Ok (False, services), rz)
               | (Panic, rz) \<Rightarrow> (Panic, rz) | (NoFuel, rz) \<Rightarrow> (NoFuel, rz))
       | Err e \<Rightarrow> (Ok (False, services), r, z)
       | Panic \<Rightarrow> (Panic, r, z) | NoFuel \<Rightarrow> (NoFuel, r, z)))"

text \<open>
  A restart: the old client is closed and rounds are run until one succeeds, at most \<open>n\<close> here. The
  result is the list \<open>services\<close> that the next restart will start with, and the delay counter.
\<close>

fun restart_rounds ::
  "ext \<Rightarrow> 'z zkapi \<Rightarrow> procinfo \<Rightarrow> nat \<Rightarrow> nat \<Rightarrow> ServiceConfig list \<Rightarrow> (ServiceConfig zookeeperRegistry \<times> 'z)
   \<Rightarrow> (nat \<times> ServiceConfig list) outcome \<times> ServiceConfig zookeeperRegistry \<times> 'z" where
  "restart_rounds X Z P 0 failTimes services rz = (NoFuel, rz)"
| "restart_rounds X Z P (Suc n) failTimes services rz = (case restart_round X Z P services rz of
     (Ok (True, services), rz) \<Rightarrow> (Ok (failTimes, services), rz)
   | (Ok (False, services), rz) \<Rightarrow> restart_rounds X Z P n (min 15 (failTimes + 1)) services rz
   | (Err e, rz) \<Rightarrow> (Err e, rz) | (Panic, rz) \<Rightarrow> (Panic, rz) | (NoFuel, rz) \<Rightarrow> (NoFuel, rz))"

definition handleZkRestart ::
  "ext \<Rightarrow> 'z zkapi \<Rightarrow> procinfo \<Rightarrow> nat \<Rightarrow> ServiceConfig list \<Rightarrow> (ServiceConfig zookeeperRegistry \<times> 'z)
   \<Rightarrow> (nat \<times> ServiceConfig list) outcome \<times> ServiceConfig zookeeperRegistry \<times> 'z" where
  "handleZkRestart X Z P n services rz = (case rz of (r, z) \<Rightarrow> (case zr_client r of
     None \<Rightarrow> (Panic, rz)
   | Some c \<Rightarrow> restart_rounds X Z P n 0 services (r\<lparr>zr_client := None\<rparr>, snd (zc_Close Z c z))))"

definition cons_Close :: "'z zkapi \<Rightarrow> ('c zookeeperRegistry \<times> 'z) \<Rightarrow> unit outcome \<times> 'c zookeeperRegistry \<times> 'z" where
  "cons_Close Z rz = (case rz of (r, z) \<Rightarrow>
     if zr_done r then (Panic, rz)
     else (case zr_client r of
       None \<Rightarrow> (Panic, r\<lparr>zr_done := True\<rparr>, z)
     | Some c \<Rightarrow> (Ok (), r\<lparr>zr_done := True, zr_client := None, zr_services := None\<rparr>, snd (zc_Close Z c z))))"

section \<open>Providers\<close>

record providerRegistry =
  pr_reg :: "ProviderServiceConfig zookeeperRegistry"
  pr_zkPath :: "(string \<times> int) list"

definition provider_params :: "procinfo \<Rightarrow> providerRegistry \<Rightarrow> ProviderServiceConfig \<Rightarrow> (string \<times> string) list" where
  "provider_params P p conf =
     common_params P (pr_reg p) (pc_ServiceConfig conf) PROVIDER ''dubbo-provider-golang-'' @
     (if pc_Methods conf \<noteq> [] then [(''methods'', pc_Methods conf)] else [])"

text \<open>The count of a path in the map \<^verbatim>\<open>zkPath\<close>, and the path name that is registered next for a service.\<close>

definition path_count :: "providerRegistry \<Rightarrow> string \<Rightarrow> int" where
  "path_count p u = (case map_of (pr_zkPath p) u of None \<Rightarrow> 0 | Some n \<Rightarrow> n)"

definition provider_path :: "providerRegistry \<Rightarrow> string \<Rightarrow> string" where
  "provider_path p service = (if path_count p service \<noteq> 0 then service @ itoa (path_count p service) else service)"

definition provider_url :: "procinfo \<Rightarrow> providerRegistry \<Rightarrow> ProviderServiceConfig \<Rightarrow> string" where
  "provider_url P p conf = (let sc = pc_ServiceConfig conf in
     sc_Protocol sc @ ''://'' @ pc_Path conf @ ''/'' @ provider_path p (sc_Service sc) @ ''?'' @
     Values_Encode (provider_params P p conf))"

text \<open>
  \<^verbatim>\<open>register\<close>. The configuration is a pointer: an empty path is replaced by the local address in the
  caller's configuration too, which is the value of a success.
\<close>

definition prov_register ::
  "ext \<Rightarrow> 'z zkapi \<Rightarrow> procinfo \<Rightarrow> ProviderServiceConfig \<Rightarrow> (providerRegistry \<times> 'z)
   \<Rightarrow> ProviderServiceConfig outcome \<times> providerRegistry \<times> 'z" where
  "prov_register X Z P conf pz = (case pz of (p, z) \<Rightarrow>
     (let sc = pc_ServiceConfig conf; lift = (\<lambda>p (res, (r, z)). (res, p\<lparr>pr_reg := r\<rparr>, z)) in
      if sc_Service sc = [] \<or> pc_Methods conf = [] then (Err (Errorf ''conf{Service:%s, Methods:%s}''), pz)
      else
        otry (lift p (validateZookeeperClient X Z ''consumer zk registry'' (pr_reg p, z)))
          (\<lambda>e pz. (ret conf (je_Trace X (je_Annotatef X ''newZookeeperClient(ProviderRegistryZkClient, addr:%+v)'' (Some e))), pz))
          (\<lambda>_ (p, z). otry (lift p (with_client (pr_reg p, z) (\<lambda>c. Create X Z c (service_root (sc_Service sc) PROVIDER))))
            (\<lambda>e pz. (ret conf (je_Annotatef X ''zkclient.Create(path:%s)'' (Some e)), pz))
            (\<lambda>_ (p, z).
              let conf = (if pc_Path conf = [] then conf\<lparr>pc_Path := localIP P\<rparr> else conf);
                  rawURL = provider_url P p conf; urlPath = provider_path p (sc_Service sc);
                  p = p\<lparr>pr_zkPath := AList.update urlPath (path_count p urlPath + 1) (pr_zkPath p)\<rparr>
              in otry (lift p (registerTempZookeeperNode X Z (service_root (sc_Service sc) PROVIDER)
                       (QueryEscape rawURL) (pr_reg p, z)))
                   (\<lambda>e pz. (ret conf (je_Annotatef X ''registerTempZookeeperNode(path:%s, url:%s)'' (Some e)), pz))
                   (\<lambda>_ pz. (Ok conf, pz))))))"

definition prov_Register ::
  "ext \<Rightarrow> 'z zkapi \<Rightarrow> procinfo \<Rightarrow> ProviderServiceConfig option \<Rightarrow> (providerRegistry \<times> 'z)
   \<Rightarrow> unit outcome \<times> providerRegistry \<times> 'z" where
  "prov_Register X Z P c pz = (case c of
     None \<Rightarrow> (Err (Errorf ''@c{%v} type is not registry.ServiceConfig''), pz)
   | Some conf \<Rightarrow>
     if map_of (case zr_services (pr_reg (fst pz)) of None \<Rightarrow> [] | Some m \<Rightarrow> m) (pc_String conf) \<noteq> None then
       (Err (Errorf ''Service{%s} has been registered''), pz)
     else otry (prov_register X Z P conf pz) (\<lambda>e pz. (ret () (je_Annotatef X ''register(conf:%+v)'' (Some e)), pz))
       (\<lambda>conf (p, z). (case zr_services (pr_reg p) of
          None \<Rightarrow> (Panic, p, z)
        | Some m \<Rightarrow> (Ok (), p\<lparr>pr_reg := (pr_reg p)\<lparr>zr_services := Some (AList.update (pc_String conf) conf m)\<rparr>\<rparr>, z))))"

text \<open>Providers do not look services up.\<close>

definition prov_GetServices :: "ServiceConfigIf \<Rightarrow> ServiceURL list outcome" where
  "prov_GetServices i = Ok []"

text \<open>The restart of a provider runs like that of a consumer, with the registration of a provider.\<close>

fun prov_reregister ::
  "ext \<Rightarrow> 'z zkapi \<Rightarrow> procinfo \<Rightarrow> ProviderServiceConfig list \<Rightarrow> (providerRegistry \<times> 'z)
   \<Rightarrow> unit outcome \<times> providerRegistry \<times> 'z" where
  "prov_reregister X Z P [] pz = (Ok (), pz)"
| "prov_reregister X Z P (conf # confs) pz =
     otry (prov_register X Z P conf pz) (\<lambda>e pz. (Err e, pz)) (\<lambda>_ pz. prov_reregister X Z P confs pz)"

definition prov_restart_round ::
  "ext \<Rightarrow> 'z zkapi \<Rightarrow> procinfo \<Rightarrow> ProviderServiceConfig list \<Rightarrow> (providerRegistry \<times> 'z)
   \<Rightarrow> (bool \<times> ProviderServiceConfig list) outcome \<times> providerRegistry \<times> 'z" where
  "prov_restart_round X Z P services pz = (case pz of (p, z) \<Rightarrow>
     (case validateZookeeperClient X Z ''consumer zk registry'' (pr_reg p, z) of
        (res, r, z) \<Rightarrow>
          (let p = p\<lparr>pr_reg := r\<rparr> in
           if zr_client r = None then (Panic, p, z)
           else (case res of
             Ok _ \<Rightarrow>
               (let services = services @ map snd (case zr_services r of None \<Rightarrow> [] | Some m \<Rightarrow> m)
                in case prov_reregister X Z P services (p, z) of
                     (Ok _, pz) \<Rightarrow> (Ok (True, services), pz)
                   | (Err e, pz) \<Rightarrow> (Ok (False, services), pz)
                   | (Panic, pz) \<Rightarrow> (Panic, pz) | (NoFuel, pz) \<Rightarrow> (NoFuel, pz))
           | Err e \<Rightarrow> (Ok (False, services), p, z)
           | Panic \<Rightarrow> (Panic, p, z) | NoFuel \<Rightarrow> (NoFuel, p, z)))))"

fun prov_restart_rounds ::
  "ext \<Rightarrow> 'z zkapi \<Rightarrow> procinfo \<Rightarrow> nat \<Rightarrow> nat \<Rightarrow> ProviderServiceConfig list \<Rightarrow> (providerRegistry \<times> 'z)
   \<Rightarrow> (nat \<times> ProviderServiceConfig list) outcome \<times> providerRegistry \<times> 'z" where
  "prov_restart_rounds X Z P 0 failTimes services pz = (NoFuel, pz)"
| "prov_restart_rounds X Z P (Suc n) failTimes services pz = (case prov_restart_round X Z P services pz of
     (Ok (True, services), pz) \<Rightarrow> (Ok (failTimes, services), pz)
   | (Ok (False, services), pz) \<Rightarrow> prov_restart_rounds X Z P n (min 15 (failTimes + 1)) services pz
   | (Err e, pz) \<Rightarrow> (Err e, pz) | (Panic, pz) \<Rightarrow> (Panic, pz) | (NoFuel, pz) \<Rightarrow> (NoFuel, pz))"

definition prov_handleZkRestart ::
  "ext \<Rightarrow> 'z zkapi \<Rightarrow> procinfo \<Rightarrow> nat \<Rightarrow> ProviderServiceConfig list \<Rightarrow> (providerRegistry \<times> 'z)
   \<Rightarrow> (nat \<times> ProviderServiceConfig list) outcome \<times> providerRegistry \<times> 'z" where
  "prov_handleZkRestart X Z P n services pz = (case pz of (p, z) \<Rightarrow> (case zr_client (pr_reg p) of
     None \<Rightarrow> (Panic, pz)
   | Some c \<Rightarrow> prov_restart_rounds X Z P n 0 services
       (p\<lparr>pr_reg := (pr_reg p)\<lparr>zr_client := None\<rparr>\<rparr>, snd (zc_Close Z c z))))"

definition prov_Close :: "'z zkapi \<Rightarrow> (providerRegistry \<times> 'z) \<Rightarrow> unit outcome \<times> providerRegistry \<times> 'z" where
  "prov_Close Z pz = (case pz of (p, z) \<Rightarrow>
     let r = pr_reg p in
     if zr_done r then (Panic, pz)
     else (case zr_client r of
       None \<Rightarrow> (Panic, p\<lparr>pr_reg := r\<lparr>zr_done := True\<rparr>\<rparr>, z)
     | Some c \<Rightarrow> (Ok (), p\<lparr>pr_reg := r\<lparr>zr_done := True, zr_client := None, zr_services := None\<rparr>\<rparr>, snd (zc_Close Z c z))))"

section \<open>Construction\<close>

text \<open>A registry whose first connection fails is nil; otherwise the client gets the name of its registry.\<close>

definition NewConsumerZookeeperRegistry ::
  "ext \<Rightarrow> 'z zkapi \<Rightarrow> ApplicationConfig \<Rightarrow> string list \<Rightarrow> int \<Rightarrow> int \<Rightarrow> 'z
   \<Rightarrow> ServiceConfig zookeeperRegistry option outcome \<times> 'z" where
  "NewConsumerZookeeperRegistry X Z app addr timeout now z =
     otry (newZookeeperRegistry X Z app addr timeout now z) (\<lambda>e z. (Ok None, z))
       (\<lambda>r z. (case zr_client r of
          None \<Rightarrow> (Panic, z)
        | Some c \<Rightarrow> (Ok (Some (r\<lparr>zr_client := Some (c\<lparr>zc_name := ''consumer zk registry''\<rparr>)\<rparr>)), z)))"

definition NewProviderZookeeperRegistry ::
  "ext \<Rightarrow> 'z zkapi \<Rightarrow> ApplicationConfig \<Rightarrow> string list \<Rightarrow> int \<Rightarrow> int \<Rightarrow> 'z
   \<Rightarrow> providerRegistry option outcome \<times> 'z" where
  "NewProviderZookeeperRegistry X Z app addr timeout now z =
     otry (newZookeeperRegistry X Z app addr timeout now z) (\<lambda>e z. (Ok None, z))
       (\<lambda>r z. (case zr_client r of
          None \<Rightarrow> (Panic, z)
        | Some c \<Rightarrow> (Ok (Some \<lparr>pr_reg = r\<lparr>zr_client := Some (c\<lparr>zc_name := ''consumer zk registry''\<rparr>)\<rparr>,
                               pr_zkPath = []\<rparr>), z)))"

section \<open>Consumers: the answers of a lookup\<close>

text \<open>What the loop over the nodes keeps: each service under its location, read from its own url.\<close>

definition found_ok :: "ServiceConfig \<Rightarrow> (string \<times> ServiceURL) list \<Rightarrow> bool" where
  "found_ok conf m \<longleftrightarrow> distinct (map fst m) \<and>
     (\<forall>l u. (l, u) \<in> set m \<longrightarrow> l = su_Location u \<and> NewServiceURL (su_PrimitiveURL u) = Ok u \<and> ServiceEqual conf u)"

lemma in_set_update: "x \<in> set (AList.update k v m) \<Longrightarrow> x = (k, v) \<or> x \<in> set m"
  by (induction m) (auto split: if_splits)

lemma collect_services_ok: "found_ok conf m \<Longrightarrow> found_ok conf (collect_services conf ns m)"
proof (induction conf ns m rule: collect_services.induct)
  case (2 conf n ns m)
  have "found_ok conf (AList.update (su_Location u) u m)" if "NewServiceURL n = Ok u" "ServiceEqual conf u" for u
    using "2.prems" that NewServiceURL_PrimitiveURL [OF that(1)]
    by (auto simp: found_ok_def distinct_update dest!: in_set_update)
  then show ?case using 2 by (auto split: outcome.splits)
qed simp

lemma found_ok_differ:
  assumes "found_ok conf m"
  shows "urls_differ (map snd m)"
proof -
  have "inj_on (\<lambda>e. su_PrimitiveURL (snd e)) (set m)"
  proof (rule inj_onI)
    fix x y assume xy: "x \<in> set m" "y \<in> set m" "su_PrimitiveURL (snd x) = su_PrimitiveURL (snd y)"
    obtain lx ux ly uy where e: "x = (lx, ux)" "y = (ly, uy)" by (cases x, cases y)
    then have "NewServiceURL (su_PrimitiveURL ux) = Ok ux" "NewServiceURL (su_PrimitiveURL uy) = Ok uy"
      "lx = su_Location ux" "ly = su_Location uy" using assms xy(1,2) unfolding found_ok_def by blast+
    moreover have "su_PrimitiveURL ux = su_PrimitiveURL uy" using xy(3) e by simp
    ultimately show "x = y" using e by (metis outcome.inject(1))
  qed
  moreover have "distinct m" using assms by (auto simp: found_ok_def distinct_map)
  ultimately show ?thesis by (simp add: urls_differ_def distinct_map comp_def)
qed

lemma found_ok_sort: "found_ok conf m \<Longrightarrow> found_ok conf (sort_key f m)"
  by (auto simp: found_ok_def distinct_map)

lemma found_ok_Nil [simp]: "found_ok conf []"
  by (simp add: found_ok_def)

abbreviation (input) services_of :: "'c zookeeperRegistry \<Rightarrow> (string \<times> 'c) list" where
  "services_of r \<equiv> (case zr_services r of None \<Rightarrow> [] | Some m \<Rightarrow> m)"

lemma GetServices_answer:
  assumes "fst (GetServices X Z rank s rz) = Ok ss"
  obtains sc conf m where "s = ConfPtr sc" "map_of (services_of (fst rz)) (Key sc) = Some conf"
    "ss = map snd m" "found_ok conf m"
proof (cases s)
  case (ConfPtr sc)
  show thesis
  proof (cases "map_of (services_of (fst rz)) (Key sc)")
    case None
    then show thesis using assms by (simp add: GetServices_def ConfPtr)
  next
    case (Some conf)
    have ans: "found_ok conf (sort_key f (collect_services conf nodes []))" for f and nodes :: "string list"
      by (rule found_ok_sort [OF collect_services_ok [OF found_ok_Nil]])
    have "\<exists>m. ss = map snd m \<and> found_ok conf m"
      using assms ans unfolding GetServices_def ConfPtr ServiceConfigIf.case Some option.case
      by (auto simp: otry_def traced_def split: prod.splits outcome.splits dest!: ret_OkD
          intro: exI [of _ "[]"])
    then show thesis using that ConfPtr Some by blast
  qed
qed (use assms in \<open>simp_all add: GetServices_def\<close>)

text \<open>The consumer registry, with its server, is a registry for the selector.\<close>

interpretation zk: registry_service
  "\<lambda>(X, Z, rank, rz) s. fst (GetServices X Z rank s rz)" "\<lambda>(X, Z, rank, rz). map_of (services_of (fst rz))"
proof
  fix r :: "ext \<times> 'z zkapi \<times> (string \<Rightarrow> nat) \<times> ServiceConfig zookeeperRegistry \<times> 'z" and s ss conf
  obtain X Z rank rz where r: "r = (X, Z, rank, rz)" by (cases r)
  show "urls_differ ss" if "(case r of (X, Z, rank, rz) \<Rightarrow> \<lambda>s. fst (GetServices X Z rank s rz)) s = Ok ss"
    using that by (auto simp: r elim!: GetServices_answer intro: found_ok_differ)
  show "\<exists>conf0. (case r of (X, Z, rank, rz) \<Rightarrow> map_of (services_of (fst rz))) (Key conf) = Some conf0 \<and>
      (\<forall>u \<in> set ss. ServiceEqual conf0 u)"
    if "(case r of (X, Z, rank, rz) \<Rightarrow> \<lambda>s. fst (GetServices X Z rank s rz)) (ConfPtr conf) = Ok ss"
    using that by (auto simp: r found_ok_def elim!: GetServices_answer)
qed

section \<open>Restarts\<close>

text \<open>The node of a consumer.\<close>

definition consumer_node :: "procinfo \<Rightarrow> ServiceConfig zookeeperRegistry \<Rightarrow> ServiceConfig \<Rightarrow> string" where
  "consumer_node P r conf =
     path_Join [service_root (sc_Service conf) CONSUMER] @ ''/'' @ QueryEscape (consumer_url P r conf)"

lemma Create_loop_mono:
  assumes "zk_create_ok Z nodes" "Create_loop X Z c tmp ss z = (res, z')"
  shows "nodes z \<subseteq> nodes z'"
  using assms(2)
proof (induction ss arbitrary: tmp z)
  case (Cons s ss)
  let ?p = "path_Join [tmp, ''/'', s]"
  obtain r z1 where cr: "on_conn c (zk_Create Z ?p [] False False) z = (r, z1)" by fastforce
  have m: "nodes z \<subseteq> nodes z1"
  proof (cases "zc_conn c")
    case True
    then have "zk_Create Z ?p [] False False z = (r, z1)" using cr by simp
    from assms(1) [unfolded zk_create_ok_def, rule_format, OF this] show ?thesis by (auto split: outcome.splits)
  qed (use cr in \<open>simp add: on_conn_def\<close>)
  have "z' = z1 \<or> Create_loop X Z c ?p ss z1 = (res, z')"
    using Cons.prems cr by (auto simp: Let_def otry_def split: outcome.splits if_splits)
  then show ?case using Cons.IH m by blast
qed simp

lemma Create_mono: "zk_create_ok Z nodes \<Longrightarrow> Create X Z c p z = (res, z') \<Longrightarrow> nodes z \<subseteq> nodes z'"
  unfolding Create_def by (rule Create_loop_mono)

lemma RegisterTemp_Ok:
  assumes "trace_ok X" "zk_create_ok Z nodes" "RegisterTemp X Z c base node z = (Ok q, z')"
  shows "path_Join [base] @ ''/'' @ node \<notin> nodes z" "nodes z' = insert (path_Join [base] @ ''/'' @ node) (nodes z)"
proof -
  let ?p = "path_Join [base] @ ''/'' @ node"
  obtain r z1 where cr: "on_conn c (zk_Create Z ?p [] True False) z = (r, z1)" by fastforce
  note e = assms(3) [unfolded RegisterTemp_def cr]
  have r: "r = Ok q \<and> z' = z1"
    using e by (cases r) (simp_all add: error_not_Ok [OF assms(1)])
  moreover have "zc_conn c" using cr r by (cases "zc_conn c") (simp_all add: on_conn_def)
  ultimately have "zk_Create Z ?p [] True False z = (Ok q, z')" using cr by simp
  from assms(2) [unfolded zk_create_ok_def, rule_format, OF this]
  show "?p \<notin> nodes z" "nodes z' = insert ?p (nodes z)" by auto
qed

lemma with_client_Some: "zr_client r = Some c \<Longrightarrow> with_client (r, z) f = (fst (f c z), r, snd (f c z))"
  by (simp add: with_client_def split: prod.splits)

text \<open>A consumer that registers successfully has a new node; nothing else of the registry changes.\<close>

lemma cons_register_Ok:
  assumes "trace_ok X" "zk_create_ok Z nodes" "zr_client r = Some c"
    "cons_register X Z P conf (r, z) = (Ok (), r', z')"
  shows "r' = r" "consumer_node P r conf \<notin> nodes z" "consumer_node P r conf \<in> nodes z'" "nodes z \<subseteq> nodes z'"
proof -
  let ?cr = "service_root (sc_Service conf) CONSUMER" and ?pr = "service_root (sc_Service conf) PROVIDER"
  obtain o1 z1 where c1: "Create X Z c ?cr z = (o1, z1)" by fastforce
  obtain o2 z2 where c2: "Create X Z c ?pr z1 = (o2, z2)" by fastforce
  obtain o3 z3 where c3: "Create X Z c ?cr z2 = (o3, z3)" by fastforce
  obtain o4 z4 where c4: "RegisterTemp X Z c ?cr (QueryEscape (consumer_url P r conf)) z3 = (o4, z4)" by fastforce
  have v: "validateZookeeperClient X Z ''consumer zk registry'' (r, z) = (Ok (), r, z)"
    using assms(3) by (simp add: validateZookeeperClient_def)
  note t = error_not_Ok [OF assms(1)]
  note e = assms(4) [unfolded cons_register_def v otry_simps with_client_Some [OF assms(3)] c1 c2 fst_conv snd_conv]
  have s1: "o1 = Ok ()" using e by (cases o1) (simp_all add: t)
  note e = e [unfolded s1 otry_simps with_client_Some [OF assms(3)] c2 fst_conv snd_conv]
  have s2: "o2 = Ok ()" using e by (cases o2) (simp_all add: t)
  note e = e [unfolded s2 otry_simps registerTempZookeeperNode_def fst_conv snd_conv with_client_Some [OF assms(3)] c3]
  have s3: "o3 = Ok ()" using e by (cases o3) (auto simp: t otry_def split: outcome.splits)
  note e = e [unfolded s3 otry_simps with_client_Some [OF assms(3)] c4 fst_conv snd_conv]
  have s4: "\<exists>q. o4 = Ok q" using e by (cases o4) (auto simp: t otry_def split: outcome.splits)
  then obtain q where q: "o4 = Ok q" by blast
  show "r' = r" using e q by simp
  have z': "z' = z4" using e q by simp
  note m = Create_mono [OF assms(2) c1] Create_mono [OF assms(2) c2] Create_mono [OF assms(2) c3]
  note rt = RegisterTemp_Ok [OF assms(1,2) c4 [unfolded q], folded consumer_node_def]
  show "consumer_node P r conf \<notin> nodes z" "consumer_node P r conf \<in> nodes z'" "nodes z \<subseteq> nodes z'"
    using rt m by (auto simp: z')
qed

text \<open>
  A list that is registered completely has no repetition, for the second node would exist
  already, and all its nodes are there afterwards.
\<close>

lemma reregister_distinct:
  assumes "trace_ok X" "zk_create_ok Z nodes" "zr_client r = Some c"
    "reregister X Z P confs (r, z) = (Ok (), r', z')"
  shows "distinct confs \<and> (\<forall>conf \<in> set confs. consumer_node P r conf \<notin> nodes z \<and> consumer_node P r conf \<in> nodes z') \<and>
    r' = r \<and> nodes z \<subseteq> nodes z'"
  using assms(4)
proof (induction confs arbitrary: z)
  case (Cons conf confs)
  obtain res r1 z1 where c: "cons_register X Z P conf (r, z) = (res, r1, z1)" by (cases "cons_register X Z P conf (r, z)") auto
  have res: "res = Ok ()" "reregister X Z P confs (r1, z1) = (Ok (), r', z')"
    using Cons.prems c by (cases res; simp)+
  note ok = cons_register_Ok [OF assms(1,2,3) c [unfolded res(1)]]
  from Cons.IH [OF res(2) [unfolded ok(1)]] ok show ?case by auto
qed simp

lemma with_client_services: "zr_services (fst (snd (with_client rz f))) = zr_services (fst rz)"
  by (auto simp: with_client_def split: prod.splits option.splits)

lemma validate_services: "zr_services (fst (snd (validateZookeeperClient X Z n rz))) = zr_services (fst rz)"
  by (auto simp: validateZookeeperClient_def split: prod.splits option.splits outcome.splits)

text \<open>A chain of calls keeps a field if every call does.\<close>

lemma otry_keeps:
  assumes "f (snd m) = a" "\<And>e s. f s = a \<Longrightarrow> f (snd (h e s)) = a" "\<And>v s. f s = a \<Longrightarrow> f (snd (g v s)) = a"
  shows "f (snd (otry m h g)) = a"
  using assms by (cases m) (auto simp: otry_def split: outcome.splits)

lemma cons_register_services: "zr_services (fst (snd (cons_register X Z P conf rz))) = zr_services (fst rz)"
  unfolding cons_register_def registerTempZookeeperNode_def
  by (intro otry_keeps [where f = "\<lambda>s. zr_services (fst s)"])
    (simp_all add: with_client_services validate_services traced_def)

lemma reregister_services:
  assumes "reregister X Z P confs rz = (res, rz')"
  shows "zr_services (fst rz') = zr_services (fst rz)"
  using assms
proof (induction confs arbitrary: rz)
  case (Cons conf confs)
  obtain o1 rz1 where c: "cons_register X Z P conf rz = (o1, rz1)" by (cases "cons_register X Z P conf rz")
  have "zr_services (fst rz1) = zr_services (fst rz)" using cons_register_services [of X Z P conf rz] c by simp
  then show ?case using Cons c by (cases o1) auto
qed simp

lemma restart_round_Ok:
  assumes "trace_ok X" "zk_create_ok Z nodes" "zr_services r = Some m"
    "restart_round X Z P services (r, z) = (Ok (b, services'), r', z')"
  shows "services' = services \<or> services' = services @ map snd m" "zr_services r' = Some m"
    "b \<Longrightarrow> services' = services @ map snd m \<and> distinct services' \<and> (\<forall>conf \<in> set services'. consumer_node P r' conf \<in> nodes z')"
proof -
  obtain o1 r1 z1 where v: "validateZookeeperClient X Z ''consumer zk registry'' (r, z) = (o1, r1, z1)"
    by (cases "validateZookeeperClient X Z ''consumer zk registry'' (r, z)") auto
  have r1: "zr_services r1 = Some m"
    using v assms(3) by (auto simp: validateZookeeperClient_def split: option.splits prod.splits outcome.splits)
  obtain c where c: "zr_client r1 = Some c"
    using assms(4) by (cases "zr_client r1") (auto simp: restart_round_def v)
  obtain o2 r2 z2 where rr: "reregister X Z P (services @ map snd m) (r1, z1) = (o2, r2, z2)"
    by (cases "reregister X Z P (services @ map snd m) (r1, z1)") auto
  have keep: "zr_services r2 = Some m" using reregister_services [OF rr] r1 by simp
  note e = assms(4) [unfolded restart_round_def v prod.case c r1 option.case Let_def rr]
  show "services' = services \<or> services' = services @ map snd m" "zr_services r' = Some m"
    using e keep r1 by (cases o1; cases o2; auto)+
  show "services' = services @ map snd m \<and> distinct services' \<and> (\<forall>conf \<in> set services'. consumer_node P r' conf \<in> nodes z')"
    if b
    using e that reregister_distinct [OF assms(1,2) c, of P "services @ map snd m" z1 r2 z2] rr
    by (cases o1; cases o2; auto)
qed

lemma restart_rounds_Ok:
  assumes "trace_ok X" "zk_create_ok Z nodes" "zr_services r = Some m"
    "restart_rounds X Z P n k services (r, z) = (Ok (k', services'), r', z')"
  shows "distinct services' \<and> set (map snd m) \<subseteq> set services' \<and> set services \<inter> set (map snd m) = {} \<and>
    zr_services r' = Some m \<and> (\<forall>conf \<in> set services'. consumer_node P r' conf \<in> nodes z')"
  using assms(3,4)
proof (induction n arbitrary: k services r z)
  case (Suc n)
  obtain res r1 z1 where rd: "restart_round X Z P services (r, z) = (res, r1, z1)"
    by (cases "restart_round X Z P services (r, z)") auto
  obtain b ss where res: "res = Ok (b, ss)" using Suc.prems(2) rd by (cases res) auto
  note ok = restart_round_Ok [OF assms(1,2) Suc.prems(1) rd [unfolded res]]
  show ?case
  proof (cases b)
    case True
    then show ?thesis using ok Suc.prems(2) rd res by (auto simp del: set_map)
  next
    case False
    then have "restart_rounds X Z P n (min 15 (k + 1)) ss (r1, z1) = (Ok (k', services'), r', z')"
      using Suc.prems(2) rd res by simp
    from Suc.IH [OF ok(2) this] ok(1) show ?thesis by (auto simp del: set_map)
  qed
qed simp

lemma handleZkRestart_Ok:
  assumes "trace_ok X" "zk_create_ok Z nodes" "zr_services r = Some m"
    "handleZkRestart X Z P n services (r, z) = (Ok (k, services'), r', z')"
  shows "distinct services' \<and> set (map snd m) \<subseteq> set services' \<and> set services \<inter> set (map snd m) = {} \<and>
    zr_services r' = Some m \<and> (\<forall>conf \<in> set services'. consumer_node P r' conf \<in> nodes z')"
proof -
  obtain c where c: "zr_client r = Some c"
    using assms(4) by (cases "zr_client r") (simp_all add: handleZkRestart_def)
  show ?thesis
    by (rule restart_rounds_Ok [OF assms(1,2), of "r\<lparr>zr_client := None\<rparr>" m])
      (use assms(3,4) c in \<open>simp_all add: handleZkRestart_def\<close>)
qed

section \<open>Properties\<close>


definition zk1 :: "string list zkapi" where
  "zk1 = zk0\<lparr>zk_Close := \<lambda>z. []\<rparr>"

lemma zk1_ok: "zk_create_ok zk1 set"
  using zk0_ok by (simp add: zk1_def zk_create_ok_def)

definition conf1 :: ServiceConfig where
  "conf1 = \<lparr>sc_Protocol = ''jsonrpc'', sc_Service = ''S'', sc_Group = [], sc_Version = []\<rparr>"

definition reg1 :: "ServiceConfig zookeeperRegistry" where
  "reg1 = \<lparr>zr_app = \<lparr>ac_Organization = [], ac_Name = ''a'', ac_Module = [], ac_Version = [], ac_Owner = []\<rparr>,
     zr_Address = [''h''], zr_Timeout = 1, zr_birth = 0, zr_done = False,
     zr_client = Some \<lparr>zc_name = [], zc_zkAddrs = [], zc_conn = True, zc_timeout = 1, zc_exit = False, zc_eventRegistry = []\<rparr>,
     zr_services = Some [(Key conf1, conf1)]\<rparr>"

definition proc1 :: procinfo where
  "proc1 = \<lparr>processID = ''1'', localIP = ''ip''\<rparr>"

lemma restart1: "fst (handleZkRestart ext0 zk1 proc1 1 [] (reg1, [])) = Ok (0, [conf1])"
  by code_simp




lemma digits_plain: "\<forall>k \<in> set [0..<10]. unreserved (char_of (48 + k :: nat))"
  by code_simp

lemma nat_str_plain: "plain_name (nat_str n)"
proof (induction n rule: nat_str.induct)
  case (1 n)
  have d: "unreserved (char_of (48 + k))" if "k < 10" for k :: nat
    using digits_plain that by simp
  show ?case
  proof (cases "n < 10")
    case True then show ?thesis using d by (simp add: plain_name_def nat_str.simps [of n])
  next
    case False then show ?thesis using 1 d [of "n mod 10"] by (simp add: plain_name_def nat_str.simps [of n])
  qed
qed

lemma itoa_plain: "plain_name (itoa i)"
  using nat_str_plain by (auto simp: itoa_def plain_name_def unreserved_def)

lemma provider_path_plain: "plain_name s \<Longrightarrow> plain_name (provider_path p s)"
  using itoa_plain by (simp add: provider_path_def plain_name_def)

text \<open>
  C19: What a provider registers is what a consumer reads: the name of the node, taken apart again,
  is a service with the protocol, the address and the methods of the provider, and it matches the
  configuration of a consumer exactly if that is the provider's service configuration.
\<close>

theorem provider_found:
  assumes "scheme_name (sc_Protocol (pc_ServiceConfig conf))" and "plain_name (sc_Service (pc_ServiceConfig conf))"
    and "pc_Path conf = ip @ '':'' @ port" and "plain_name ip" and "plain_name port"
  shows "\<exists>u. NewServiceURL (QueryEscape (provider_url P p conf)) = Ok u \<and>
    su_Location u = pc_Path conf \<and> su_Ip u = ip \<and> su_Port u = port \<and> Get (su_Query u) ''methods'' = pc_Methods conf \<and>
    (\<forall>sc. ServiceEqual sc u \<longleftrightarrow> sc = pc_ServiceConfig conf)"
proof -
  let ?sc = "pc_ServiceConfig conf" and ?ps = "provider_params P p conf"
  have pp: "plain_name (provider_path p (sc_Service ?sc))" using assms(2) by (rule provider_path_plain)
  have u: "provider_url P p conf = sc_Protocol ?sc @ ''://'' @ (ip @ '':'' @ port) @ ''/'' @
      provider_path p (sc_Service ?sc) @ ''?'' @ Values_Encode ?ps"
    by (simp add: provider_url_def Let_def assms(3))
  have g: "Get (Values_of ?ps) ''interface'' = sc_Service ?sc" "Get (Values_of ?ps) ''group'' = sc_Group ?sc"
    "Get (Values_of ?ps) ''version'' = sc_Version ?sc" "Get (Values_of ?ps) ''methods'' = pc_Methods conf"
    by (simp_all add: provider_params_def common_params_def Let_def Values_of_def Get_def)
  show ?thesis
    unfolding u NewServiceURL_built [OF assms(1,4,5) pp, of ?ps]
    by (auto simp: g assms(3) ServiceEqual_iff ServiceConfig_of_def)
qed

definition pconf1 :: ProviderServiceConfig where
  "pconf1 = \<lparr>pc_ServiceConfig = conf1, pc_Path = ''h:80'', pc_Methods = ''get''\<rparr>"

definition preg1 :: providerRegistry where
  "preg1 = \<lparr>pr_reg = \<lparr>zr_app = zr_app reg1, zr_Address = [''h''], zr_Timeout = 1, zr_birth = 0, zr_done = False,
     zr_client = zr_client reg1, zr_services = Some []\<rparr>, pr_zkPath = []\<rparr>"

theorem provider_found_witness:
  "\<exists>u. NewServiceURL (QueryEscape (provider_url proc1 preg1 pconf1)) = Ok u \<and>
     su_Ip u = ''h'' \<and> su_Port u = ''80'' \<and> ServiceEqual conf1 u"
  using provider_found [of pconf1 "''h''" "''80''" proc1 preg1]
  by (auto simp: pconf1_def conf1_def scheme_name_def plain_name_def unreserved_def is_letter_def is_digit_def between_def)
end
