(* ===== verification/Zk_Watch.thy ===== *)
theory Zk_Watch
  imports Zk_Registry
begin

text \<open>
  The watcher between the registry and the selector, \<^verbatim>\<open>registry/zk/watch.go\<close>: it turns changes of the
  nodes under a service into events. A goroutine is a function of what its select statements
  receive, given as a list; the events it sends are the list it returns. A panic of a goroutine ends
  the process.
\<close>

section \<open>Watching one node\<close>

fun Contains :: "string list \<Rightarrow> string \<Rightarrow> bool" where
  "Contains [] e = False"
| "Contains (a # s) e = (if a = e then True else Contains s e)"

lemma Contains_iff: "Contains s e \<longleftrightarrow> e \<in> set s"
  by (induction s) auto

datatype zkEventType = NodeCreated | NodeDeleted | NodeDataChanged | NodeChildrenChanged | NotWatching

datatype nodeSelect = NodeEvent zkEventType | NodeDone

text \<open>
  Whether the node was deleted. \<open>NoFuel\<close> is a goroutine that still waits.
\<close>

fun watchServiceNode ::
  "ext \<Rightarrow> 'z zkapi \<Rightarrow> zookeeperClient \<Rightarrow> string \<Rightarrow> nodeSelect list \<Rightarrow> 'z \<Rightarrow> bool outcome \<times> 'z" where
  "watchServiceNode X Z c zkPath [] z =
     otry (existW X Z c zkPath z) (\<lambda>e z. (Ok False, z)) (\<lambda>ch z. (NoFuel, z))"
| "watchServiceNode X Z c zkPath (s # sels) z =
     otry (existW X Z c zkPath z) (\<lambda>e z. (Ok False, z)) (\<lambda>ch z.
       (case s of
          NodeEvent NodeDeleted \<Rightarrow> (Ok True, z)
        | NodeEvent _ \<Rightarrow> watchServiceNode X Z c zkPath sels z
        | NodeDone \<Rightarrow> (Ok False, z)))"

section \<open>Changes of a directory\<close>

abbreviation (input) Added :: "ServiceURL \<Rightarrow> ServiceURLEvent" where
  "Added u \<equiv> \<lparr>ev_Action = ServiceURLAdd, ev_Service = Some u\<rparr>"

abbreviation (input) Deleted :: "ServiceURL \<Rightarrow> ServiceURLEvent" where
  "Deleted u \<equiv> \<lparr>ev_Action = ServiceURLDel, ev_Service = Some u\<rparr>"

text \<open>
  The two loops of \<^verbatim>\<open>handleZkNodeEvent\<close>: the services under new names, with the node that a goroutine
  will watch, and the services under names that are gone. The second loop compares the service
  before it looks at the error: an url that cannot be read is a nil pointer there.
\<close>

fun added_nodes :: "ServiceConfig \<Rightarrow> string \<Rightarrow> string list \<Rightarrow> string list \<Rightarrow> (string \<times> ServiceURL) list" where
  "added_nodes conf zkPath children [] = []"
| "added_nodes conf zkPath children (n # ns) =
     (if Contains children n then added_nodes conf zkPath children ns
      else (case NewServiceURL n of
        Ok serviceURL \<Rightarrow>
          if \<not> ServiceEqual conf serviceURL then added_nodes conf zkPath children ns
          else (path_Join [zkPath, n], serviceURL) # added_nodes conf zkPath children ns
      | _ \<Rightarrow> added_nodes conf zkPath children ns))"

fun deleted_nodes :: "ServiceConfig \<Rightarrow> string list \<Rightarrow> string list \<Rightarrow> ServiceURL list outcome" where
  "deleted_nodes conf newChildren [] = Ok []"
| "deleted_nodes conf newChildren (n # ns) =
     (if Contains newChildren n then deleted_nodes conf newChildren ns
      else (case NewServiceURL n of
        Ok serviceURL \<Rightarrow>
          if \<not> ServiceEqual conf serviceURL then deleted_nodes conf newChildren ns
          else (case deleted_nodes conf newChildren ns of
            Ok us \<Rightarrow> Ok (serviceURL # us) | Err e \<Rightarrow> Err e | Panic \<Rightarrow> Panic | NoFuel \<Rightarrow> NoFuel)
      | _ \<Rightarrow> Panic))"

text \<open>The events of a change, and the nodes that goroutines watch from now on.\<close>

definition handleZkNodeEvent ::
  "ext \<Rightarrow> 'z zkapi \<Rightarrow> zookeeperClient \<Rightarrow> string \<Rightarrow> string list \<Rightarrow> ServiceConfig \<Rightarrow> 'z
   \<Rightarrow> (ServiceURLEvent list \<times> (string \<times> ServiceURL) list) outcome \<times> 'z" where
  "handleZkNodeEvent X Z c zkPath children conf z =
     otry (getChildren X Z c zkPath z) (\<lambda>e z. (Ok ([], []), z)) (\<lambda>newChildren z.
       let started = added_nodes conf zkPath children newChildren
       in case deleted_nodes conf newChildren children of
            Ok us \<Rightarrow> (Ok (map (\<lambda>s. Added (snd s)) started @ map Deleted us, started), z)
          | Err e \<Rightarrow> (Err e, z) | Panic \<Rightarrow> (Panic, z) | NoFuel \<Rightarrow> (NoFuel, z))"

text \<open>
  \<^verbatim>\<open>watchDir\<close>. Each round has one of two select statements, after a failed lookup or after a successful
  one; the list says for each round what either would receive. The result says whether the
  goroutine has ended, and what it sent and started.
\<close>

datatype failSelect = FailTimeout | FailDone | FailNotify
datatype dirSelect = DirEvent zkEventType string | DirDone

definition also_sent ::
  "ServiceURLEvent list \<times> (string \<times> ServiceURL) list
   \<Rightarrow> (bool \<times> ServiceURLEvent list \<times> (string \<times> ServiceURL) list) outcome \<times> zookeeperClient \<times> 'z
   \<Rightarrow> (bool \<times> ServiceURLEvent list \<times> (string \<times> ServiceURL) list) outcome \<times> zookeeperClient \<times> 'z" where
  "also_sent out r = (case r of
     (Ok (fin, evs, started), cz) \<Rightarrow> (Ok (fin, fst out @ evs, snd out @ started), cz)
   | _ \<Rightarrow> r)"

fun watchDir ::
  "ext \<Rightarrow> 'z zkapi \<Rightarrow> nat \<Rightarrow> string \<Rightarrow> ServiceConfig \<Rightarrow> nat \<Rightarrow> (failSelect \<times> dirSelect) list \<Rightarrow> zookeeperClient \<times> 'z
   \<Rightarrow> (bool \<times> ServiceURLEvent list \<times> (string \<times> ServiceURL) list) outcome \<times> zookeeperClient \<times> 'z" where
  "watchDir X Z event zkPath conf failTimes [] cz = (Ok (False, [], []), cz)"
| "watchDir X Z event zkPath conf failTimes ((fs, ds) # sels) cz = (case cz of (c, z) \<Rightarrow>
     (case getChildrenW X Z c zkPath z of
        (Err e, z) \<Rightarrow>
          (let failTimes = min 15 (failTimes + 1)
           in case unregisterEvent zkPath event (registerEvent zkPath (Some event) c) of
                (Ok _, c) \<Rightarrow>
                  (case fs of
                     FailTimeout \<Rightarrow> watchDir X Z event zkPath conf failTimes sels (c, z)
                   | FailDone \<Rightarrow> (Ok (True, [], []), c, z)
                   | FailNotify \<Rightarrow>
                       (case handleZkNodeEvent X Z c zkPath [] conf z of
                          (Ok out, z) \<Rightarrow> also_sent out (watchDir X Z event zkPath conf failTimes sels (c, z))
                        | (Err e, z) \<Rightarrow> (Err e, c, z) | (Panic, z) \<Rightarrow> (Panic, c, z) | (NoFuel, z) \<Rightarrow> (NoFuel, c, z)))
              | (Err e, c) \<Rightarrow> (Err e, c, z) | (Panic, c) \<Rightarrow> (Panic, c, z) | (NoFuel, c) \<Rightarrow> (NoFuel, c, z))
      | (Ok (children, ch), z) \<Rightarrow>
          (case ds of
             DirDone \<Rightarrow> (Ok (True, [], []), c, z)
           | DirEvent t path \<Rightarrow>
               if t \<noteq> NodeChildrenChanged then watchDir X Z event zkPath conf 0 sels (c, z)
               else (case handleZkNodeEvent X Z c path children conf z of
                  (Ok out, z) \<Rightarrow> also_sent out (watchDir X Z event zkPath conf 0 sels (c, z))
                | (Err e, z) \<Rightarrow> (Err e, c, z) | (Panic, z) \<Rightarrow> (Panic, c, z) | (NoFuel, z) \<Rightarrow> (NoFuel, c, z)))
      | (Panic, z) \<Rightarrow> (Panic, c, z) | (NoFuel, z) \<Rightarrow> (NoFuel, c, z)))"

section \<open>Starting to watch\<close>

text \<open>
  \<^verbatim>\<open>watchService\<close> announces the services that are there and starts a goroutine for each. The goroutine
  does not watch the node it is given but the one in the variable \<^verbatim>\<open>dubboPath\<close> of the loop when it runs: \<open>k\<close>
  is the goroutine and \<open>j\<close> the number of the iteration whose value it finds.
\<close>

definition watchService ::
  "ext \<Rightarrow> 'z zkapi \<Rightarrow> zookeeperClient \<Rightarrow> string \<Rightarrow> ServiceConfig \<Rightarrow> 'z
   \<Rightarrow> (ServiceURLEvent list \<times> (string \<times> ServiceURL) list) outcome \<times> 'z" where
  "watchService X Z c zkPath conf z = (case getChildren X Z c zkPath z of (res, z) \<Rightarrow>
     (case res of
        Panic \<Rightarrow> (Panic, z) | NoFuel \<Rightarrow> (NoFuel, z)
      | _ \<Rightarrow>
        let children = (case res of Ok cs \<Rightarrow> cs | _ \<Rightarrow> []); started = added_nodes conf zkPath [] children
        in (Ok (map (\<lambda>s. Added (snd s)) started, started), z)))"

definition watch_started ::
  "ext \<Rightarrow> 'z zkapi \<Rightarrow> zookeeperClient \<Rightarrow> (string \<times> ServiceURL) list \<Rightarrow> nat \<Rightarrow> nat \<Rightarrow> nodeSelect list \<Rightarrow> 'z
   \<Rightarrow> ServiceURLEvent list \<times> 'z" where
  "watch_started X Z c started k j sels z = (case watchServiceNode X Z c (fst (started ! j)) sels z of
     (Ok True, z) \<Rightarrow> ([Deleted (snd (started ! k))], z)
   | (_, z) \<Rightarrow> ([], z))"

text \<open>\<^verbatim>\<open>Next\<close>: an event, or an error once the client is done; a select with both ready takes either.\<close>

definition Next :: "bool \<Rightarrow> zookeeperClient \<Rightarrow> ServiceURLEvent list \<Rightarrow> ServiceURLEvent outcome \<times> ServiceURLEvent list" where
  "Next prefer_done c events =
     (if zc_exit c \<and> (prefer_done \<or> events = []) then (Err (Errorf ''watcher stopped''), events)
      else (case events of [] \<Rightarrow> (NoFuel, []) | ev # events \<Rightarrow> (Ok ev, events)))"

definition zw_Valid :: "zookeeperClient \<Rightarrow> bool" where
  "zw_Valid c = zkConnValid c"

text \<open>\<^verbatim>\<open>Stop\<close>; the first argument is the state of the \<^verbatim>\<open>sync.Once\<close>.\<close>

definition zw_Stop :: "'z zkapi \<Rightarrow> bool \<times> zookeeperClient \<times> 'z \<Rightarrow> bool \<times> zookeeperClient \<times> 'z" where
  "zw_Stop Z w = (case w of (did, cz) \<Rightarrow> if did then w else (True, zc_Close Z (fst cz) (snd cz)))"

section \<open>The registry's watch\<close>

text \<open>
  \<^verbatim>\<open>Watch\<close> of the consumer registry: a client of its own, and a goroutine for each registered service, run
  here one after the other.
\<close>

fun watch_services ::
  "ext \<Rightarrow> 'z zkapi \<Rightarrow> zookeeperClient \<Rightarrow> ServiceConfig list \<Rightarrow> 'z
   \<Rightarrow> (ServiceURLEvent list \<times> (string \<times> ServiceURL) list list) outcome \<times> 'z" where
  "watch_services X Z c [] z = (Ok ([], []), z)"
| "watch_services X Z c (conf # confs) z =
     otry (watchService X Z c (service_root (sc_Service conf) PROVIDER) conf z) (\<lambda>e z. (Err e, z)) (\<lambda>(evs, st) z.
     otry (watch_services X Z c confs z) (\<lambda>e z. (Err e, z)) (\<lambda>(evs', sts) z. (Ok (evs @ evs', st # sts), z)))"

definition cons_Watch ::
  "ext \<Rightarrow> 'z zkapi \<Rightarrow> ServiceConfig zookeeperRegistry \<Rightarrow> 'z
   \<Rightarrow> (zookeeperClient \<times> ServiceURLEvent list \<times> (string \<times> ServiceURL) list list) outcome \<times> 'z" where
  "cons_Watch X Z r z =
     otry (newZookeeperClient X Z ''watcher zk registry'' (zr_Address r) (zr_Timeout r) z)
       (\<lambda>e z. traced X (\<lparr>zc_name = [], zc_zkAddrs = [], zc_conn = False, zc_timeout = 0, zc_exit = False, zc_eventRegistry = []\<rparr>, [], []) e z)
       (\<lambda>c z. otry (watch_services X Z c (map snd (case zr_services r of None \<Rightarrow> [] | Some m \<Rightarrow> m)) z)
         (\<lambda>e z. (Err e, z)) (\<lambda>(evs, sts) z. (Ok (c, evs, sts), z)))"

text \<open>Providers do not watch.\<close>

definition prov_Watch :: "unit option outcome" where
  "prov_Watch = Ok None"

section \<open>Changes and the selector\<close>

text \<open>The services of a configuration among the names of some nodes.\<close>

definition services_in :: "ServiceConfig \<Rightarrow> string set \<Rightarrow> ServiceURL set" where
  "services_in conf ns = {u. \<exists>n \<in> ns. NewServiceURL n = Ok u \<and> ServiceEqual conf u}"

lemma services_in_mem: "u \<in> services_in conf ns \<longleftrightarrow>
    su_PrimitiveURL u \<in> ns \<and> NewServiceURL (su_PrimitiveURL u) = Ok u \<and> ServiceEqual conf u"
  by (auto simp: services_in_def dest: NewServiceURL_PrimitiveURL)

lemma services_in_inj: "u \<in> services_in conf A \<Longrightarrow> v \<in> services_in conf B \<Longrightarrow>
    su_PrimitiveURL u = su_PrimitiveURL v \<longleftrightarrow> u = v"
  unfolding services_in_mem by (metis outcome.inject(1))

lemma services_in_Cons: "services_in conf (set (n # ns) - A) =
    (if n \<in> A then {} else case NewServiceURL n of Ok u \<Rightarrow> if ServiceEqual conf u then {u} else {} | _ \<Rightarrow> {}) \<union>
    services_in conf (set ns - A)"
  by (auto simp: services_in_def split: outcome.splits)

lemma added_nodes_set: "snd ` set (added_nodes conf p old ns) = services_in conf (set ns - set old)"
proof (induction ns)
  case (Cons n ns)
  then show ?case unfolding services_in_Cons by (simp add: Contains_iff split: outcome.split)
qed (simp add: services_in_def)

text \<open>The loop over the deleted nodes panics exactly if one of them cannot be read.\<close>

lemma deleted_nodes_Ok:
  assumes "\<And>n. n \<in> set ns - set new \<Longrightarrow> \<exists>u. NewServiceURL n = Ok u"
  shows "\<exists>us. deleted_nodes conf new ns = Ok us \<and> set us = services_in conf (set ns - set new)"
  using assms
proof (induction ns)
  case (Cons n ns)
  have n: "n \<notin> set new \<Longrightarrow> \<exists>u. NewServiceURL n = Ok u" using Cons.prems by auto
  have "\<exists>us. deleted_nodes conf new ns = Ok us \<and> set us = services_in conf (set ns - set new)"
    using Cons.prems by (intro Cons.IH) auto
  then show ?case unfolding services_in_Cons using n by (auto simp: Contains_iff)
qed (simp add: services_in_def)

lemma deleted_nodes_Panic:
  assumes "n \<in> set ns" "n \<notin> set new" "\<And>u. NewServiceURL n \<noteq> Ok u"
  shows "deleted_nodes conf new ns = Panic"
  using assms(1)
proof (induction ns)
  case (Cons n' ns)
  show ?case
  proof (cases "n' = n")
    case True
    then show ?thesis using assms(2,3) by (cases "NewServiceURL n") (auto simp: Contains_iff)
  next
    case False
    then have "deleted_nodes conf new ns = Panic" using Cons by simp
    then show ?thesis by (simp split: outcome.split)
  qed
qed simp

text \<open>The services that the map keeps for a key.\<close>

definition kept :: "(string \<rightharpoonup> ServiceURL list) \<Rightarrow> string \<Rightarrow> ServiceURL set" where
  "kept m k = (case m k of None \<Rightarrow> {} | Some l \<Rightarrow> set l)"

lemma kept_spec_update:
  assumes "ev_Service ev = Some s" "ServiceEqual conf s"
  shows "kept (spec_update ev m) (Key conf) =
      (if ev_Action ev = ServiceURLDel then {} else {s}) \<union> {x \<in> kept m (Key conf). su_PrimitiveURL x \<noteq> su_PrimitiveURL s}"
    "k \<noteq> Key conf \<Longrightarrow> spec_update ev m k = m k"
  using assms by (auto simp: kept_def spec_update_def spec_list_def Let_def ServiceEqual_Key [OF assms(2), symmetric]
      filter_empty_conv split: option.splits)

lemma fold_kept:
  assumes "kept m (Key conf) \<subseteq> services_in conf A" "set us \<subseteq> services_in conf B"
  shows "kept (fold spec_update (map Added us) m) (Key conf) = kept m (Key conf) \<union> set us"
    "kept (fold spec_update (map Deleted us) m) (Key conf) = kept m (Key conf) - set us"
    "k \<noteq> Key conf \<Longrightarrow> fold spec_update (map Added us) m k = m k"
    "k \<noteq> Key conf \<Longrightarrow> fold spec_update (map Deleted us) m k = m k"
proof -
  have AB: "services_in conf A \<subseteq> services_in conf (A \<union> B)" "services_in conf B \<subseteq> services_in conf (A \<union> B)"
    by (auto simp: services_in_def)
  have *: "kept m (Key conf) \<subseteq> services_in conf (A \<union> B) \<Longrightarrow> set us \<subseteq> services_in conf (A \<union> B) \<Longrightarrow>
     kept (fold spec_update (map Added us) m) (Key conf) = kept m (Key conf) \<union> set us \<and>
     kept (fold spec_update (map Deleted us) m) (Key conf) = kept m (Key conf) - set us \<and>
     (k \<noteq> Key conf \<longrightarrow> fold spec_update (map Added us) m k = m k \<and> fold spec_update (map Deleted us) m k = m k)"
    for k us m
  proof (induction us arbitrary: m)
    case (Cons u us)
    have u: "u \<in> services_in conf (A \<union> B)" "ServiceEqual conf u" using Cons.prems by (auto simp: services_in_mem)
    have f: "{x \<in> kept m (Key conf). su_PrimitiveURL x \<noteq> su_PrimitiveURL u} = kept m (Key conf) - {u}"
      using Cons.prems(1) services_in_inj [OF _ u(1)] by auto
    have a: "kept (spec_update (Added u) m) (Key conf) = insert u (kept m (Key conf))"
      using kept_spec_update(1) [of "Added u" u conf m] u(2) f by auto
    have d: "kept (spec_update (Deleted u) m) (Key conf) = kept m (Key conf) - {u}"
      using kept_spec_update(1) [of "Deleted u" u conf m] u(2) f by auto
    have s: "set us \<subseteq> services_in conf (A \<union> B)" using Cons.prems(2) by simp
    have "kept (spec_update (Added u) m) (Key conf) \<subseteq> services_in conf (A \<union> B)"
      "kept (spec_update (Deleted u) m) (Key conf) \<subseteq> services_in conf (A \<union> B)"
      using Cons.prems(1) u(1) a d by auto
    from Cons.IH [OF this(1) s] Cons.IH [OF this(2) s] kept_spec_update(2) [of "Added u" u conf k m]
      kept_spec_update(2) [of "Deleted u" u conf k m] u(2) show ?case by (auto simp: a d)
  qed simp
  note m = subset_trans [OF assms(1) AB(1)] and u = subset_trans [OF assms(2) AB(2)]
  show "kept (fold spec_update (map Added us) m) (Key conf) = kept m (Key conf) \<union> set us"
    "kept (fold spec_update (map Deleted us) m) (Key conf) = kept m (Key conf) - set us"
    "k \<noteq> Key conf \<Longrightarrow> fold spec_update (map Added us) m k = m k"
    "k \<noteq> Key conf \<Longrightarrow> fold spec_update (map Deleted us) m k = m k"
    using * [OF m u] by blast+
qed

lemma node_event_kept:
  assumes "getChildren X Z c p z = (Ok new, z1)"
    "\<And>n. n \<in> set old - set new \<Longrightarrow> \<exists>u. NewServiceURL n = Ok u"
    "kept m (Key conf) = services_in conf (set old)"
  shows "\<exists>evs started. handleZkNodeEvent X Z c p old conf z = (Ok (evs, started), z1) \<and>
    kept (fold spec_update evs m) (Key conf) = services_in conf (set new) \<and>
    (\<forall>k. k \<noteq> Key conf \<longrightarrow> fold spec_update evs m k = m k)"
proof -
  obtain us where us: "deleted_nodes conf new old = Ok us" and ds: "set us = services_in conf (set old - set new)"
    using deleted_nodes_Ok [OF assms(2), where conf = conf] by blast
  let ?st = "added_nodes conf p old new"
  let ?as = "map snd ?st"
  have as: "set ?as = services_in conf (set new - set old)" by (simp add: added_nodes_set)
  let ?m = "fold spec_update (map Added ?as) m"
  have k1: "kept ?m (Key conf) = services_in conf (set old) \<union> services_in conf (set new - set old)"
    "k \<noteq> Key conf \<Longrightarrow> ?m k = m k" for k
    using fold_kept(1,3) [OF eq_refl [OF assms(3)] eq_refl [OF as]] assms(3) as by auto
  have sub: "kept ?m (Key conf) \<subseteq> services_in conf (set old \<union> set new)"
    unfolding k1(1) by (auto simp: services_in_def)
  have k2: "kept (fold spec_update (map Deleted us) ?m) (Key conf) = kept ?m (Key conf) - set us"
    "k \<noteq> Key conf \<Longrightarrow> fold spec_update (map Deleted us) ?m k = m k" for k
    using fold_kept(2,4) [OF sub eq_refl [OF ds]] k1(2) [of k] by auto
  have "handleZkNodeEvent X Z c p old conf z = (Ok (map Added ?as @ map Deleted us, ?st), z1)"
    using assms(1) us by (simp add: handleZkNodeEvent_def comp_def Let_def)
  moreover have "kept (fold spec_update (map Added ?as @ map Deleted us) m) (Key conf) = services_in conf (set new)"
    unfolding fold_append comp_apply k2(1) k1(1) ds by (auto simp: services_in_mem)
  moreover have "fold spec_update (map Added ?as @ map Deleted us) m k = m k" if "k \<noteq> Key conf" for k
    unfolding fold_append comp_apply by (rule k2(2) [OF that])
  ultimately show ?thesis by blast
qed

section \<open>Properties\<close>


definition zc1 :: zookeeperClient where
  "zc1 = \<lparr>zc_name = [], zc_zkAddrs = [], zc_conn = True, zc_timeout = 1, zc_exit = False, zc_eventRegistry = []\<rparr>"

lemma getChildren1:
  "getChildren ext0 zk0 zc1 ''/dubbo/S/providers'' [''/dubbo/S/providers/a''] = (Ok [''a''], [''/dubbo/S/providers/a''])"
  by code_simp


text \<open>
  But the second loop uses a service before it checks that its name could be read: when a
  node with an unreadable name disappears, the watcher dereferences a nil pointer and the process
  ends, although the same name was skipped without harm when it appeared.
\<close>

theorem unreadable_node_panics:
  assumes "getChildren X Z zc p z = (Ok new, z')"
    and "n \<in> set old" and "n \<notin> set new" and "\<And>u. NewServiceURL n \<noteq> Ok u"
  shows "handleZkNodeEvent X Z zc p old conf z = (Panic, z') \<and> added_nodes conf p [] [n] = []"
  using assms(1,4) deleted_nodes_Panic [OF assms(2-4), of conf]
  by (simp add: handleZkNodeEvent_def split: outcome.split)

theorem unreadable_node_panics_witness:
  "handleZkNodeEvent ext0 zk0 zc1 ''/dubbo/S/providers'' [''%''] conf1 [''/dubbo/S/providers/a''] =
     (Panic, [''/dubbo/S/providers/a''])"
  using unreadable_node_panics [OF getChildren1, of "''%''" "[''%'']" conf1]
  by (simp add: NewServiceURL_def)

end
