(* ===== verification/Go_Reflect.thy ===== *)
theory Go_Reflect
  imports Go_Strings
begin

text \<open>
  What the sources ask of a type or a value through \<^verbatim>\<open>reflect\<close>: the kind of a type, its name and package,
  the type it points to or contains, the type of its keys, whether it is a stream, and the signature of
  a method.
\<close>

datatype kind = KInvalid | KBool | KInt | KInt8 | KInt16 | KInt32 | KInt64 | KUint | KUint8 | KUint16 | KUint32 | KUint64
  | KUintptr | KFloat32 | KFloat64 | KComplex64 | KComplex128 | KArray | KChan | KFunc | KInterface | KMap | KPtr
  | KSlice | KString | KStruct | KUnsafePointer

fun kind_String :: "kind \<Rightarrow> string" where
  "kind_String KInvalid = ''invalid''"
| "kind_String KBool = ''bool''"
| "kind_String KInt = ''int''"
| "kind_String KInt8 = ''int8''"
| "kind_String KInt16 = ''int16''"
| "kind_String KInt32 = ''int32''"
| "kind_String KInt64 = ''int64''"
| "kind_String KUint = ''uint''"
| "kind_String KUint8 = ''uint8''"
| "kind_String KUint16 = ''uint16''"
| "kind_String KUint32 = ''uint32''"
| "kind_String KUint64 = ''uint64''"
| "kind_String KUintptr = ''uintptr''"
| "kind_String KFloat32 = ''float32''"
| "kind_String KFloat64 = ''float64''"
| "kind_String KComplex64 = ''complex64''"
| "kind_String KComplex128 = ''complex128''"
| "kind_String KArray = ''array''"
| "kind_String KChan = ''chan''"
| "kind_String KFunc = ''func''"
| "kind_String KInterface = ''interface''"
| "kind_String KMap = ''map''"
| "kind_String KPtr = ''ptr''"
| "kind_String KSlice = ''slice''"
| "kind_String KString = ''string''"
| "kind_String KStruct = ''struct''"
| "kind_String KUnsafePointer = ''unsafe.Pointer''"

text \<open>
  A type. The types behind \<^verbatim>\<open>Elem()\<close> and \<^verbatim>\<open>Key()\<close> are there for the kinds that have them;
  \<open>rt_Streamer\<close> is \<^verbatim>\<open>Implements(Streamer)\<close>.
\<close>

datatype rtype = RType (rt_Kind: kind) (rt_Name: string) (rt_PkgPath: string) (rt_Elem: "rtype option")
  (rt_Key: "rtype option") (rt_Streamer: bool)

text \<open>\<^verbatim>\<open>reflect.TypeOf((*error)(nil)).Elem()\<close>.\<close>

definition typeOfError :: rtype where
  "typeOfError = RType KInterface ''error'' [] None None False"

definition rt_ptr :: "rtype \<Rightarrow> rtype" where
  "rt_ptr t = RType KPtr [] [] (Some t) None False"

end
