(* ===== verification/Go_Bufio.thy ===== *)
theory Go_Bufio
  imports Go_Prelude
begin

text \<open>
  The part of Go's \<^verbatim>\<open>bufio.Reader\<close> that the codec uses, over a source that holds the bytes
  still to be delivered (\<^verbatim>\<open>bytes.Reader\<close>, \<^verbatim>\<open>bytes.Buffer\<close>). The reader keeps a buffer of 4096
  bytes with a read position, because some of its operations (\<^verbatim>\<open>Read\<close>, \<^verbatim>\<open>Peek\<close>,
  \<^verbatim>\<open>Buffered\<close>) show the caller where the buffer ends, and the last byte it read, which
  \<^verbatim>\<open>UnreadByte\<close> puts back. \<open>content\<close> is what is left to read; the interface \<open>byte_stream\<close>
  states the operations by it.
\<close>

section \<open>State and operations\<close>

definition bufSize :: nat where
  "bufSize = 4096"

record rdr =
  rd_buf :: "byte list"
  rd_pos :: nat
  rd_src :: "byte list"
  rd_last :: "byte option"

definition NewReader :: "byte list \<Rightarrow> rdr" where
  "NewReader bs = \<lparr>rd_buf = [], rd_pos = 0, rd_src = bs, rd_last = None\<rparr>"

definition unread :: "rdr \<Rightarrow> byte list" where
  "unread r = drop (rd_pos r) (rd_buf r)"

definition content :: "rdr \<Rightarrow> byte list" where
  "content r = unread r @ rd_src r"

definition rdr_ok :: "rdr \<Rightarrow> bool" where
  "rdr_ok r \<longleftrightarrow> rd_pos r \<le> length (rd_buf r) \<and> length (rd_buf r) \<le> bufSize"

text \<open>\<^verbatim>\<open>fill\<close>: slide the unread bytes to the front and read once from the source.\<close>

definition fill :: "rdr \<Rightarrow> rdr" where
  "fill r = (let n = bufSize - length (unread r) in
     r\<lparr>rd_buf := unread r @ take n (rd_src r), rd_pos := 0, rd_src := drop n (rd_src r)\<rparr>)"

definition Buffered :: "rdr \<Rightarrow> nat" where
  "Buffered r = length (unread r)"

definition ReadByte :: "rdr \<Rightarrow> byte outcome \<times> rdr" where
  "ReadByte r = (let r1 = (if unread r = [] then fill r else r) in
     case unread r1 of
       [] \<Rightarrow> (Err EOF, r1)
     | b # _ \<Rightarrow> (Ok b, r1\<lparr>rd_pos := Suc (rd_pos r1), rd_last := Some b\<rparr>))"

text \<open>
  \<^verbatim>\<open>UnreadByte\<close>: it needs a last byte, and either a position to step back to or an empty
  buffer, in which it puts the byte.
\<close>

definition UnreadByte :: "rdr \<Rightarrow> unit outcome \<times> rdr" where
  "UnreadByte r = (case rd_last r of
     None \<Rightarrow> (Err (Errorf ''bufio: invalid use of UnreadByte''), r)
   | Some b \<Rightarrow>
       if rd_pos r = 0 \<and> rd_buf r \<noteq> [] then (Err (Errorf ''bufio: invalid use of UnreadByte''), r)
       else if 0 < rd_pos r then
         (Ok (), r\<lparr>rd_buf := (rd_buf r)[rd_pos r - 1 := b], rd_pos := rd_pos r - 1, rd_last := None\<rparr>)
       else (Ok (), r\<lparr>rd_buf := [b], rd_last := None\<rparr>))"

text \<open>
  \<^verbatim>\<open>Read\<close> into \<open>n > 0\<close> bytes: from the buffer if it holds anything; otherwise, for a request of
  at least the buffer's size, straight from the source; otherwise after one read of the source.
  It may return fewer bytes than were asked for.
\<close>

definition Read :: "nat \<Rightarrow> rdr \<Rightarrow> byte list outcome \<times> rdr" where
  "Read n r =
     (if unread r = [] \<and> bufSize \<le> n then
        (if rd_src r = [] then (Err EOF, r)
         else (Ok (take n (rd_src r)),
               r\<lparr>rd_src := drop n (rd_src r), rd_last := Some (last (take n (rd_src r)))\<rparr>))
      else
        (let r1 = (if unread r = [] then
                     r\<lparr>rd_buf := take bufSize (rd_src r), rd_pos := 0, rd_src := drop bufSize (rd_src r)\<rparr>
                   else r);
             p = take n (unread r1)
         in if unread r1 = [] then (Err EOF, r1)
            else (Ok p, r1\<lparr>rd_pos := rd_pos r1 + length p, rd_last := Some (last p)\<rparr>)))"

text \<open>\<^verbatim>\<open>io.ReadFull\<close>: read until \<open>n\<close> bytes are there.\<close>

function ReadFull_loop :: "nat \<Rightarrow> byte list \<Rightarrow> rdr \<Rightarrow> byte list outcome \<times> rdr" where
  "ReadFull_loop n acc r =
     (if n = 0 then (Ok acc, r)
      else (case Read n r of (res, r') \<Rightarrow>
        (case res of
           Ok p \<Rightarrow> if p = [] then (Panic, r') else ReadFull_loop (n - length p) (acc @ p) r'
         | Err e \<Rightarrow> (Err (if acc \<noteq> [] \<and> e = EOF then ErrUnexpectedEOF else e), r')
         | Panic \<Rightarrow> (Panic, r')
         | NoFuel \<Rightarrow> (NoFuel, r'))))"
  by pat_completeness auto
termination
  by (relation "measure (\<lambda>(n, acc, r). n)") auto

declare ReadFull_loop.simps [simp del]

definition ReadFull :: "nat \<Rightarrow> rdr \<Rightarrow> byte list outcome \<times> rdr" where
  "ReadFull n r = ReadFull_loop n [] r"

text \<open>
  \<^verbatim>\<open>Peek\<close>: the next \<open>n\<close> bytes without consuming them, fewer with an error when the source ends
  or \<open>n\<close> exceeds the buffer.
\<close>

definition Peek :: "nat \<Rightarrow> rdr \<Rightarrow> (byte list \<times> goerr option) \<times> rdr" where
  "Peek n r =
     (let r1 = (if length (unread r) < n \<and> length (unread r) < bufSize then fill r else r)
      in if bufSize < n then ((unread r1, Some ErrBufferFull), r1)
         else if length (unread r1) < n then ((unread r1, Some EOF), r1)
         else ((take n (unread r1), None), r1))"

text \<open>\<^verbatim>\<open>Discard\<close> of bytes that a successful \<^verbatim>\<open>Peek\<close> has put in the buffer.\<close>

definition Discard :: "nat \<Rightarrow> rdr \<Rightarrow> rdr" where
  "Discard n r = r\<lparr>rd_pos := rd_pos r + n\<rparr>"

section \<open>What the operations do to the content\<close>

lemma content_NewReader [simp, content_simps]: "content (NewReader bs) = bs"
  by (simp add: NewReader_def content_def unread_def)

lemma rdr_ok_NewReader [simp, intro]: "rdr_ok (NewReader bs)"
  by (simp add: NewReader_def rdr_ok_def)

lemma unread_le: "rdr_ok r \<Longrightarrow> length (unread r) \<le> bufSize"
  by (auto simp: rdr_ok_def unread_def)

lemma content_fill [simp, content_simps]: "content (fill r) = content r"
  by (simp add: fill_def content_def unread_def Let_def)

lemma rdr_ok_fill [intro]: "rdr_ok r \<Longrightarrow> rdr_ok (fill r)"
  by (auto simp: fill_def rdr_ok_def unread_def Let_def)

lemma unread_fill: "unread (fill r) = take (length (unread r) + (bufSize - length (unread r))) (content r)"
  by (simp add: fill_def content_def unread_def Let_def)

lemma unread_fill_empty: "unread r = [] \<Longrightarrow> unread (fill r) = take bufSize (content r)"
  by (simp add: unread_fill)

lemma bufSize_pos [simp]: "0 < bufSize"
  by (simp add: bufSize_def)

lemma ReadByte_Nil:
  assumes "content r = []"
  shows "ReadByte r = (Err EOF, fill r)" "content (fill r) = []"
  using assms by (auto simp: ReadByte_def content_def unread_def fill_def)

lemma unread_ConsD:
  assumes "unread r = b # bs"
  shows "drop (Suc (rd_pos r)) (rd_buf r) = bs" "rd_pos r < length (rd_buf r)"
  using assms
  by (auto simp: unread_def drop_Suc) (metis drop_eq_Nil linorder_not_less list.distinct(1) tl_drop list.sel(3))+

lemma ReadByte_Cons:
  assumes "content r = b # bs"
  obtains r' where "ReadByte r = (Ok b, r')" "content r' = bs" "rd_last r' = Some b"
    "rdr_ok r \<Longrightarrow> rdr_ok r'" "0 < rd_pos r'"
proof -
  define r1 where "r1 = (if unread r = [] then fill r else r)"
  have c1: "content r1 = b # bs" using assms by (simp add: r1_def)
  have "unread r1 \<noteq> []"
    using assms by (auto simp: r1_def unread_fill_empty)
  then obtain us where us: "unread r1 = b # us"
    using c1 by (cases "unread r1") (auto simp: content_def)
  note ud = unread_ConsD [OF us]
  let ?r' = "r1\<lparr>rd_pos := Suc (rd_pos r1), rd_last := Some b\<rparr>"
  have "ReadByte r = (Ok b, ?r')"
    by (simp add: ReadByte_def r1_def [symmetric] us)
  moreover have "content ?r' = bs"
    using c1 us ud by (simp add: content_def unread_def)
  moreover have "rdr_ok r \<Longrightarrow> rdr_ok ?r'"
    using ud by (auto simp: r1_def rdr_ok_def fill_def unread_def Let_def split: if_splits)
  ultimately show thesis using that by simp
qed

lemma Read_Nil: "content r = [] \<Longrightarrow> 0 < n \<Longrightarrow> \<exists>r'. Read n r = (Err EOF, r') \<and> content r' = [] \<and> (rdr_ok r \<longrightarrow> rdr_ok r')"
  by (auto simp: Read_def Let_def content_def unread_def rdr_ok_def)

lemma Read_some:
  assumes "content r \<noteq> []" "0 < n"
  shows "\<exists>p r'. Read n r = (Ok p, r') \<and> p \<noteq> [] \<and> length p \<le> n \<and> content r = p @ content r' \<and>
     (rdr_ok r \<longrightarrow> rdr_ok r')"
proof (cases "unread r = [] \<and> bufSize \<le> n")
  case True
  with assms show ?thesis
    by (auto simp: Read_def content_def unread_def rdr_ok_def)
next
  case False
  define r1 where "r1 = (if unread r = [] then
      r\<lparr>rd_buf := take bufSize (rd_src r), rd_pos := 0, rd_src := drop bufSize (rd_src r)\<rparr> else r)"
  have c: "content r1 = content r" and ok: "rdr_ok r \<Longrightarrow> rdr_ok r1"
    by (auto simp: r1_def content_def unread_def rdr_ok_def)
  have u: "unread r1 \<noteq> []"
    using assms by (auto simp: r1_def content_def unread_def bufSize_def)
  let ?p = "take n (unread r1)"
  let ?r' = "r1\<lparr>rd_pos := rd_pos r1 + length ?p, rd_last := Some (last ?p)\<rparr>"
  have "Read n r = (Ok ?p, ?r')"
    using False u by (auto simp: Read_def r1_def Let_def)
  moreover have "?p @ content ?r' = content r1"
    by (simp add: content_def unread_def) (metis append_take_drop_id drop_drop add.commute length_drop min.commute take_all_iff take_take nat_le_linear min_def)
  ultimately show ?thesis
    using assms u c ok by (auto simp: rdr_ok_def unread_def)
qed

lemma ReadFull_loop_short:
  assumes "length (content r) < n"
  shows "\<exists>r'. ReadFull_loop n acc r =
     (Err (if acc = [] \<and> content r = [] then EOF else ErrUnexpectedEOF), r') \<and>
     content r' = [] \<and> (rdr_ok r \<longrightarrow> rdr_ok r')"
  using assms
proof (induction n acc r rule: ReadFull_loop.induct)
  case (1 n acc r)
  show ?case
  proof (cases "content r = []")
    case True
    with Read_Nil [of r n] "1.prems" show ?thesis
      by (auto simp: ReadFull_loop.simps [of n])
  next
    case False
    with Read_some [of r n] "1.prems" obtain p r' where
      rd: "Read n r = (Ok p, r')" "p \<noteq> []" "length p \<le> n" "content r = p @ content r'"
        "rdr_ok r \<longrightarrow> rdr_ok r'" by auto
    have n: "n \<noteq> 0" and short: "length (content r') < n - length p"
      using "1.prems" rd by auto
    from "1.IH" [OF n rd(1) [symmetric] refl rd(2) short] rd n False show ?thesis
      by (auto simp: ReadFull_loop.simps [of n])
  qed
qed

lemma ReadFull_loop_enough:
  assumes "n \<le> length (content r)"
  shows "\<exists>r'. ReadFull_loop n acc r = (Ok (acc @ take n (content r)), r') \<and>
     content r' = drop n (content r) \<and> (rdr_ok r \<longrightarrow> rdr_ok r')"
  using assms
proof (induction n acc r rule: ReadFull_loop.induct)
  case (1 n acc r)
  show ?case
  proof (cases "n = 0")
    case True
    then show ?thesis by (simp add: ReadFull_loop.simps [of 0])
  next
    case n: False
    with Read_some [of r n] "1.prems" obtain p r' where
      rd: "Read n r = (Ok p, r')" "p \<noteq> []" "length p \<le> n" "content r = p @ content r'"
        "rdr_ok r \<longrightarrow> rdr_ok r'" by fastforce
    have enough: "n - length p \<le> length (content r')"
      using "1.prems" rd by auto
    from "1.IH" [OF n rd(1) [symmetric] refl rd(2) enough] rd n show ?thesis
      by (auto simp: ReadFull_loop.simps [of n])
  qed
qed

section \<open>The byte stream interface\<close>

text \<open>
  What the decoders rely on: a reader has a content, a byte read takes its head, a full read
  takes a prefix, and both leave the reader usable. The buffer does not appear.
\<close>

locale byte_stream =
  fixes left :: "'r \<Rightarrow> byte list"
    and ok :: "'r \<Rightarrow> bool"
    and rbyte :: "'r \<Rightarrow> byte outcome \<times> 'r"
    and rfull :: "nat \<Rightarrow> 'r \<Rightarrow> byte list outcome \<times> 'r"
  assumes rbyte_Cons: "left r = b # bs \<Longrightarrow> \<exists>r'. rbyte r = (Ok b, r') \<and> left r' = bs \<and> (ok r \<longrightarrow> ok r')"
    and rbyte_Nil: "left r = [] \<Longrightarrow> \<exists>r'. rbyte r = (Err EOF, r') \<and> left r' = [] \<and> (ok r \<longrightarrow> ok r')"
    and rfull_enough: "n \<le> length (left r) \<Longrightarrow>
      \<exists>r'. rfull n r = (Ok (take n (left r)), r') \<and> left r' = drop n (left r) \<and> (ok r \<longrightarrow> ok r')"
    and rfull_short: "length (left r) < n \<Longrightarrow>
      \<exists>r'. rfull n r = (Err (if left r = [] then EOF else ErrUnexpectedEOF), r') \<and>
        left r' = [] \<and> (ok r \<longrightarrow> ok r')"
begin

text \<open>A full read of exactly the bytes in front of the rest.\<close>

lemma rfull_append:
  assumes "left r = bs @ rest" and "n = length bs"
  shows "\<exists>r'. rfull n r = (Ok bs, r') \<and> left r' = rest \<and> (ok r \<longrightarrow> ok r')"
  using rfull_enough [of n r] assms by simp

lemma rbyte_outcome:
  "\<exists>r'. snd (rbyte r) = r' \<and> length (left r') \<le> length (left r) \<and> (ok r \<longrightarrow> ok r') \<and>
     (fst (rbyte r) = Err EOF \<and> left r = [] \<or>
      (\<exists>b. fst (rbyte r) = Ok b \<and> left r = b # left r'))"
  using rbyte_Nil [of r] rbyte_Cons [of r] by (cases "left r") auto

lemma rfull_outcome:
  "\<exists>r'. snd (rfull n r) = r' \<and> length (left r') \<le> length (left r) \<and> (ok r \<longrightarrow> ok r') \<and>
     ((\<exists>e. fst (rfull n r) = Err e) \<and> length (left r) < n \<or>
      (\<exists>bs. fst (rfull n r) = Ok bs \<and> length bs = n \<and> left r = bs @ left r'))"
proof (cases "n \<le> length (left r)")
  case True
  with rfull_enough [OF this] show ?thesis by auto
next
  case False
  with rfull_short [of r n] show ?thesis by auto
qed

end

interpretation rd: byte_stream content rdr_ok ReadByte ReadFull
proof
  fix r b bs assume "content r = b # bs"
  then show "\<exists>r'. ReadByte r = (Ok b, r') \<and> content r' = bs \<and> (rdr_ok r \<longrightarrow> rdr_ok r')"
    by (metis ReadByte_Cons)
next
  fix r assume "content r = []"
  then show "\<exists>r'. ReadByte r = (Err EOF, r') \<and> content r' = [] \<and> (rdr_ok r \<longrightarrow> rdr_ok r')"
    using ReadByte_Nil by blast
next
  fix n r assume "n \<le> length (content r)"
  then show "\<exists>r'. ReadFull n r = (Ok (take n (content r)), r') \<and> content r' = drop n (content r) \<and>
      (rdr_ok r \<longrightarrow> rdr_ok r')"
    using ReadFull_loop_enough [of n r "[]"] by (simp add: ReadFull_def)
next
  fix r n assume "length (content r) < n"
  then show "\<exists>r'. ReadFull n r = (Err (if content r = [] then EOF else ErrUnexpectedEOF), r') \<and>
      content r' = [] \<and> (rdr_ok r \<longrightarrow> rdr_ok r')"
    using ReadFull_loop_short [of r n "[]"] by (simp add: ReadFull_def)
qed

section \<open>Peek and Unread\<close>

lemma Peek_content: "content (snd (Peek n r)) = content r"
  by (simp add: Peek_def Let_def)

lemma rdr_ok_Peek: "rdr_ok r \<Longrightarrow> rdr_ok (snd (Peek n r))"
  by (auto simp: Peek_def Let_def)

lemma Peek_enough:
  assumes "rdr_ok r" "n \<le> bufSize" "n \<le> length (content r)"
  shows "fst (Peek n r) = (take n (content r), None)"
proof -
  define r1 where "r1 = (if length (unread r) < n \<and> length (unread r) < bufSize then fill r else r)"
  have "n \<le> length (unread r1)"
  proof (cases "length (unread r) < n")
    case True
    with assms have "unread r1 = take bufSize (content r)"
      by (simp add: r1_def unread_fill)
    with assms show ?thesis by simp
  next
    case False
    then show ?thesis by (simp add: r1_def)
  qed
  moreover have "take n (content r) = take n (unread r1)" if "n \<le> length (unread r1)"
  proof -
    have "content r = unread r1 @ rd_src r1"
      by (simp add: r1_def content_def [symmetric])
    with that show ?thesis by simp
  qed
  ultimately show ?thesis
    using assms by (simp add: Peek_def Let_def r1_def [symmetric])
qed

lemma Peek_short:
  assumes "rdr_ok r" "n \<le> bufSize" "length (content r) < n"
  shows "fst (Peek n r) = (content r, Some EOF)"
proof -
  have lu: "length (unread r) < n" using assms by (simp add: content_def)
  with assms have "unread (fill r) = take bufSize (content r)"
    by (simp add: unread_fill)
  with assms lu show ?thesis by (simp add: Peek_def Let_def)
qed

lemma Discard_content:
  assumes "n \<le> length (unread r)"
  shows "content (Discard n r) = drop n (content r)"
  using assms by (simp add: Discard_def content_def unread_def add.commute)

text \<open>The byte just read comes back; at the end of input the last byte read comes back too.\<close>

lemma UnreadByte_after_read:
  assumes "rd_last r = Some b" "0 < rd_pos r" "rdr_ok r"
  shows "\<exists>r'. UnreadByte r = (Ok (), r') \<and> content r' = b # content r \<and> rdr_ok r'"
proof -
  let ?r' = "r\<lparr>rd_buf := (rd_buf r)[rd_pos r - 1 := b], rd_pos := rd_pos r - 1, rd_last := None\<rparr>"
  have "UnreadByte r = (Ok (), ?r')"
    using assms by (simp add: UnreadByte_def)
  moreover have "drop (rd_pos r - 1) ((rd_buf r)[rd_pos r - 1 := b]) = b # drop (rd_pos r) (rd_buf r)"
  proof -
    let ?i = "rd_pos r - 1"
    have i: "?i < length (rd_buf r)" and suc: "Suc ?i = rd_pos r"
      using assms by (auto simp: rdr_ok_def)
    have "drop ?i ((rd_buf r)[?i := b]) = (drop ?i (rd_buf r))[0 := b]"
      by (simp add: drop_update_swap)
    also have "drop ?i (rd_buf r) = rd_buf r ! ?i # drop (rd_pos r) (rd_buf r)"
      using Cons_nth_drop_Suc [OF i] suc by simp
    finally show ?thesis by simp
  qed
  ultimately show ?thesis
    using assms by (auto simp: content_def unread_def rdr_ok_def)
qed

lemma UnreadByte_at_end:
  assumes "content r = []" "rd_last r = Some b"
  shows "\<exists>r'. UnreadByte (fill r) = (Ok (), r') \<and> content r' = [b]"
  using assms
  by (auto simp: UnreadByte_def fill_def content_def unread_def)

section \<open>Exact consumption\<close>

text \<open>
  \<open>takes p bs v\<close>: whatever follows \<open>bs\<close> in the input, \<open>p\<close> consumes exactly \<open>bs\<close> and returns
  \<open>v\<close>. The round trips of the codec are stated with it.
\<close>

definition takes :: "(rdr \<Rightarrow> 'a outcome \<times> rdr) \<Rightarrow> byte list \<Rightarrow> 'a \<Rightarrow> bool" where
  "takes p bs v \<longleftrightarrow> (\<forall>r rest. content r = bs @ rest \<longrightarrow>
     (\<exists>r'. p r = (Ok v, r') \<and> content r' = rest \<and> (rdr_ok r \<longrightarrow> rdr_ok r')))"

lemma takesI:
  assumes "\<And>r rest. content r = bs @ rest \<Longrightarrow>
     \<exists>r'. p r = (Ok v, r') \<and> content r' = rest \<and> (rdr_ok r \<longrightarrow> rdr_ok r')"
  shows "takes p bs v"
  using assms by (simp add: takes_def)

lemma takesE:
  assumes "takes p bs v" and "content r = bs @ rest"
  obtains r' where "p r = (Ok v, r')" "content r' = rest" "rdr_ok r \<longrightarrow> rdr_ok r'"
  using assms by (auto simp: takes_def)

lemma takes_ReadFull: "n = length bs \<Longrightarrow> takes (ReadFull n) bs bs"
  by (rule takesI) (rule rd.rfull_append)

lemma takes_ReadByte: "takes ReadByte [b] b"
  by (rule takesI) (simp add: rd.rbyte_Cons)

lemma takes_return: "takes (\<lambda>r. (Ok v, r)) [] v"
  by (rule takesI) auto

lemma takes_otry:
  assumes "takes p as a" and "takes (f a) bs b"
  shows "takes (\<lambda>r. otry (p r) h f) (as @ bs) b"
proof (rule takesI)
  fix r rest assume "content r = (as @ bs) @ rest"
  then have "content r = as @ (bs @ rest)" by simp
  with assms(1) obtain r1 where r1: "p r = (Ok a, r1)" "content r1 = bs @ rest"
    "rdr_ok r \<longrightarrow> rdr_ok r1" by (rule takesE)
  from assms(2) r1(2) obtain r2 where "f a r1 = (Ok b, r2)" "content r2 = rest"
    "rdr_ok r1 \<longrightarrow> rdr_ok r2" by (rule takesE)
  with r1 show "\<exists>r'. otry (p r) h f = (Ok b, r') \<and> content r' = rest \<and> (rdr_ok r \<longrightarrow> rdr_ok r')"
    by auto
qed

lemma takes_fullI:
  assumes "n = length bs" "f bs = (\<lambda>r. (Ok v, r))"
  shows "takes (\<lambda>r. otry (ReadFull n r) h f) bs v"
  using takes_otry [OF takes_ReadFull [OF assms(1)], of f "[]" v h] assms(2) takes_return [of v]
  by simp

text \<open>
  \<open>shrinks p\<close>: whatever \<open>p\<close> ends in, the input is not longer afterwards and the reader is
  still well formed.
\<close>

definition shrinks :: "(rdr \<Rightarrow> 'a outcome \<times> rdr) \<Rightarrow> bool" where
  "shrinks p \<longleftrightarrow> (\<forall>r. length (content (snd (p r))) \<le> length (content r) \<and>
     (rdr_ok r \<longrightarrow> rdr_ok (snd (p r))))"

lemma shrinksD:
  assumes "shrinks p" and "p r = (res, r')"
  shows "length (content r') \<le> length (content r)" "rdr_ok r \<Longrightarrow> rdr_ok r'"
  using assms by (metis shrinks_def snd_conv)+

lemma shrinks_ReadByte [intro, simp]: "shrinks ReadByte"
  using rd.rbyte_outcome by (auto simp: shrinks_def)

lemma shrinks_ReadFull [intro, simp]: "shrinks (ReadFull n)"
  using rd.rfull_outcome by (auto simp: shrinks_def)

lemma shrinks_return [intro, simp]: "shrinks (\<lambda>r. (x, r))"
  by (simp add: shrinks_def)

lemma shrinks_otry [intro]:
  assumes "shrinks p" "\<And>e. shrinks (h e)" "\<And>a. shrinks (f a)"
  shows "shrinks (\<lambda>r. otry (p r) h f)"
  unfolding shrinks_def
proof (intro allI)
  fix r
  obtain res r1 where p: "p r = (res, r1)" by (cases "p r")
  note s1 = shrinksD [OF assms(1) p]
  show "length (content (snd (otry (p r) h f))) \<le> length (content r) \<and>
      (rdr_ok r \<longrightarrow> rdr_ok (snd (otry (p r) h f)))"
    using s1 assms(2,3)
    by (cases res) (auto simp: p shrinks_def intro: order_trans [OF _ s1(1)])
qed

lemma shrinks_if [intro]:
  "(c \<Longrightarrow> shrinks p) \<Longrightarrow> (\<not> c \<Longrightarrow> shrinks q) \<Longrightarrow> shrinks (\<lambda>r. if c then p r else q r)"
  by (cases c) auto

end
