(* ===== verification/Go_Utf8.thy ===== *)
theory Go_Utf8
  imports Go_Bufio
begin

text \<open>
  The part of Go's \<^verbatim>\<open>unicode/utf8\<close> that the string codec uses: encoding a rune, decoding the
  first rune of a byte sequence with Go's table of accepted second bytes, where every ill-formed
  byte is the replacement rune of width one, and \<^verbatim>\<open>ReadRune\<close> of a buffered reader, which refills
  its buffer when the buffer ends inside a rune. A rune is a natural number.
\<close>

section \<open>Encoding and decoding runes\<close>

definition RuneError :: nat where
  "RuneError = 0xfffd"

definition valid_rune :: "nat \<Rightarrow> bool" where
  "valid_rune r \<longleftrightarrow> r < 0xd800 \<or> 0xdfff < r \<and> r \<le> 0x10ffff"

definition EncodeRune :: "nat \<Rightarrow> byte list" where
  "EncodeRune r0 = (let r = (if valid_rune r0 then r0 else RuneError) in
     if r < 0x80 then [of_nat r]
     else if r < 0x800 then [of_nat (0xc0 + r div 0x40), of_nat (0x80 + r mod 0x40)]
     else if r < 0x10000 then
       [of_nat (0xe0 + r div 0x1000), of_nat (0x80 + r div 0x40 mod 0x40), of_nat (0x80 + r mod 0x40)]
     else [of_nat (0xf0 + r div 0x40000), of_nat (0x80 + r div 0x1000 mod 0x40),
           of_nat (0x80 + r div 0x40 mod 0x40), of_nat (0x80 + r mod 0x40)])"

text \<open>\<^verbatim>\<open>string([]rune)\<close>.\<close>

definition utf8 :: "nat list \<Rightarrow> byte list" where
  "utf8 rs = concat (map EncodeRune rs)"

text \<open>
  Width of the sequence a first byte announces, and the range its second byte must lie in; one
  for ASCII and for bytes that start no sequence.
\<close>

definition first_info :: "nat \<Rightarrow> nat \<times> nat \<times> nat" where
  "first_info b =
     (if b < 0xc2 then (1, 0, 0)
      else if b < 0xe0 then (2, 0x80, 0xbf)
      else if b = 0xe0 then (3, 0xa0, 0xbf)
      else if b = 0xed then (3, 0x80, 0x9f)
      else if b < 0xf0 then (3, 0x80, 0xbf)
      else if b = 0xf0 then (4, 0x90, 0xbf)
      else if b < 0xf4 then (4, 0x80, 0xbf)
      else if b = 0xf4 then (4, 0x80, 0x8f)
      else (1, 0, 0))"

definition cont_byte :: "nat \<Rightarrow> bool" where
  "cont_byte b \<longleftrightarrow> 0x80 \<le> b \<and> b \<le> 0xbf"

definition DecodeRune :: "byte list \<Rightarrow> nat \<times> nat" where
  "DecodeRune p = (case map unat p of
     [] \<Rightarrow> (RuneError, 0)
   | b0 # bs \<Rightarrow>
     (case first_info b0 of (n, lo, hi) \<Rightarrow>
       if b0 < 0x80 then (b0, 1)
       else if n = 1 \<or> length bs + 1 < n then (RuneError, 1)
       else if bs ! 0 < lo \<or> hi < bs ! 0 then (RuneError, 1)
       else if n = 2 then (b0 mod 0x20 * 0x40 + bs ! 0 mod 0x40, 2)
       else if \<not> cont_byte (bs ! 1) then (RuneError, 1)
       else if n = 3 then
         (b0 mod 0x10 * 0x1000 + bs ! 0 mod 0x40 * 0x40 + bs ! 1 mod 0x40, 3)
       else if \<not> cont_byte (bs ! 2) then (RuneError, 1)
       else (b0 mod 0x08 * 0x40000 + bs ! 0 mod 0x40 * 0x1000 + bs ! 1 mod 0x40 * 0x40
             + bs ! 2 mod 0x40, 4)))"

text \<open>\<^verbatim>\<open>FullRune\<close>: the bytes start with a whole rune, or with an ill-formed one.\<close>

definition FullRune :: "byte list \<Rightarrow> bool" where
  "FullRune p = (case map unat p of
     [] \<Rightarrow> False
   | b0 # bs \<Rightarrow>
     (case first_info b0 of (n, lo, hi) \<Rightarrow>
       n \<le> length bs + 1 \<or> bs \<noteq> [] \<and> (bs ! 0 < lo \<or> hi < bs ! 0) \<or>
       1 < length bs \<and> \<not> cont_byte (bs ! 1)))"

lemma first_info_cases:
  assumes "first_info b = (n, lo, hi)"
  obtains "n = 1" | "n = 2" "0xc2 \<le> b" "b < 0xe0" "lo = 0x80" "hi = 0xbf"
  | "n = 3" "b = 0xe0" "lo = 0xa0" "hi = 0xbf" | "n = 3" "b = 0xed" "lo = 0x80" "hi = 0x9f"
  | "n = 3" "0xe1 \<le> b" "b < 0xf0" "b \<noteq> 0xed" "lo = 0x80" "hi = 0xbf"
  | "n = 4" "b = 0xf0" "lo = 0x90" "hi = 0xbf" | "n = 4" "0xf1 \<le> b" "b < 0xf4" "lo = 0x80" "hi = 0xbf"
  | "n = 4" "b = 0xf4" "lo = 0x80" "hi = 0x8f"
  using assms by (auto simp: first_info_def split: if_splits)

lemma DecodeRune_width:
  assumes "p \<noteq> []"
  shows "0 < snd (DecodeRune p) \<and> snd (DecodeRune p) \<le> length p \<and> snd (DecodeRune p) \<le> 4"
proof -
  obtain b bs where p: "p = b # bs" using assms by (cases p) auto
  obtain n lo hi where f: "first_info (unat b) = (n, lo, hi)" by (cases "first_info (unat b)")
  from f have "n \<in> {1, 2, 3, 4}" by (rule first_info_cases) auto
  then show ?thesis by (auto simp: p DecodeRune_def f Suc_le_eq)
qed

function runes_of :: "byte list \<Rightarrow> nat list" where
  "runes_of p = (if p = [] then []
     else (case DecodeRune p of (r, k) \<Rightarrow> r # runes_of (drop k p)))"
  by auto
termination
proof (relation "measure length")
  fix p :: "byte list" and r k assume "p \<noteq> []" "(r, k) = DecodeRune p"
  with DecodeRune_width [of p] have "0 < k" by (metis snd_conv)
  with \<open>p \<noteq> []\<close> show "(drop k p, p) \<in> measure length" by simp
qed simp

declare runes_of.simps [simp del]

lemma runes_of_Nil [simp]: "runes_of [] = []"
  by (simp add: runes_of.simps)

lemma runes_of_Nil_iff [simp]: "runes_of p = [] \<longleftrightarrow> p = []"
  by (simp add: runes_of.simps [of p] split: prod.splits)

section \<open>A rune comes back\<close>

lemma utf8_simps [simp]: "utf8 [] = []" "utf8 (r # rs) = EncodeRune r @ utf8 rs"
  "utf8 (rs @ rs') = utf8 rs @ utf8 rs'"
  by (simp_all add: utf8_def)

lemma unat_byte: "n < 256 \<Longrightarrow> unat (of_nat n :: byte) = n"
  by (simp add: unat_of_nat take_bit_eq_mod)

lemma DecodeRune_Encode:
  assumes "valid_rune r"
  shows "DecodeRune (EncodeRune r @ rest) = (r, length (EncodeRune r))"
proof -
  consider "r < 0x80" | "0x80 \<le> r" "r < 0x800" | "0x800 \<le> r" "r < 0x10000"
    | "0x10000 \<le> r" "r \<le> 0x10ffff" using assms by (fastforce simp: valid_rune_def)
  then show ?thesis
  proof cases
    case 1
    then show ?thesis using assms
      by (simp add: EncodeRune_def DecodeRune_def unat_byte first_info_def)
  next
    case 2
    define a c where "a = r div 0x40" "c = r mod 0x40"
    then have r: "r = a * 0x40 + c" "c < 0x40" by simp_all
    with 2 have a: "2 \<le> a" "a < 0x20" by auto
    have "EncodeRune r = [of_nat (0xc0 + a), of_nat (0x80 + c)]"
      using 2 assms unfolding EncodeRune_def Let_def by (simp add: a_c_def)
    moreover have "(0xc0 + a) mod 0x20 = a" "(0x80 + c) mod 0x40 = c"
      using a r by (simp_all add: mod_add_left_eq [symmetric, of "0xc0"] mod_add_left_eq [symmetric, of "0x80"])
    ultimately show ?thesis using a r
      by (simp add: DecodeRune_def unat_byte first_info_def del: of_nat_add)
  next
    case 3
    define a b c where "a = r div 0x1000" "b = r div 0x40 mod 0x40" "c = r mod 0x40"
    then have "r div 0x40 = a * 0x40 + b" using div_mult2_eq [of r "0x40" "0x40"] by simp
    with a_b_c_def have r: "r = a * 0x1000 + b * 0x40 + c" "c < 0x40" "b < 0x40"
      using div_mod_decomp [of r "0x40"] by simp_all
    with 3 have a: "a < 0x10" by auto
    have lim: "a = 0 \<longrightarrow> 0x20 \<le> b" "a = 0xd \<longrightarrow> b < 0x20"
      using 3 r assms by (auto simp: valid_rune_def)
    have "EncodeRune r = [of_nat (0xe0 + a), of_nat (0x80 + b), of_nat (0x80 + c)]"
      using 3 assms unfolding EncodeRune_def Let_def by (simp add: a_b_c_def)
    moreover have "(0xe0 + a) mod 0x10 = a" "(0x80 + c) mod 0x40 = c" "(0x80 + b) mod 0x40 = b"
      using a r by (simp_all add: mod_add_left_eq [symmetric, of "0xe0"] mod_add_left_eq [symmetric, of "0x80"])
    ultimately show ?thesis using a r(2,3) lim
      by (auto simp: DecodeRune_def unat_byte first_info_def cont_byte_def r(1) simp del: of_nat_add)
  next
    case 4
    define a b c d where "a = r div 0x40000" "b = r div 0x1000 mod 0x40" "c = r div 0x40 mod 0x40"
      "d = r mod 0x40"
    then have "r div 0x1000 = a * 0x40 + b" "r div 0x40 = r div 0x1000 * 0x40 + c"
      using div_mult2_eq [of r "0x1000" "0x40"] div_mult2_eq [of r "0x40" "0x40"] by simp_all
    with a_b_c_d_def have r: "r = a * 0x40000 + b * 0x1000 + c * 0x40 + d" "d < 0x40"
      using div_mod_decomp [of r "0x40"] by simp_all
    from a_b_c_d_def have r': "b < 0x40" "c < 0x40" by simp_all
    from 4 r r' have a: "a \<le> 4" by auto
    have lim: "a = 0 \<longrightarrow> 0x10 \<le> b" "a = 4 \<longrightarrow> b < 0x10"
      using 4 r r' by auto
    have "EncodeRune r = [of_nat (0xf0 + a), of_nat (0x80 + b), of_nat (0x80 + c), of_nat (0x80 + d)]"
      using 4 assms unfolding EncodeRune_def Let_def by (simp add: a_b_c_d_def)
    moreover have "(0xf0 + a) mod 0x08 = a" "(0x80 + c) mod 0x40 = c" "(0x80 + b) mod 0x40 = b"
      "(0x80 + d) mod 0x40 = d"
      using a r r' by (simp_all add: mod_add_left_eq [symmetric, of "0xf0"] mod_add_left_eq [symmetric, of "0x80"])
    ultimately show ?thesis using a r(2) r' lim
      by (auto simp: DecodeRune_def unat_byte first_info_def cont_byte_def r(1) simp del: of_nat_add)
  qed
qed

lemma EncodeRune_not_Nil [simp]: "EncodeRune r \<noteq> []"
  by (auto simp: EncodeRune_def Let_def)

lemma runes_of_utf8: "(\<And>r. r \<in> set rs \<Longrightarrow> valid_rune r) \<Longrightarrow> runes_of (utf8 rs) = rs"
  by (induction rs) (simp_all add: runes_of.simps [of "EncodeRune _ @ _"] DecodeRune_Encode)

lemma valid_RuneError [simp]: "valid_rune RuneError"
  by (simp add: valid_rune_def RuneError_def)

lemma unat_byte_less: "unat (x :: byte) < 256"
  using unsigned_less [of x, where ?'a = nat] by simp

lemma mod_block: "q * m \<le> y \<Longrightarrow> y < q * m + m \<Longrightarrow> y mod m = y - q * m" for y m q :: nat
  by (metis add_diff_cancel_left' le_add_diff_inverse mod_less mod_mult_self3 nat_add_left_cancel_less)

lemmas utf8_blocks = mod_block [of 2 "0x40"] mod_block [of 14 "0x10"] mod_block [of 30 "0x08"]

lemma DecodeRune_valid: "valid_rune (fst (DecodeRune p))"
proof (cases p)
  case Nil
  then show ?thesis by (simp add: DecodeRune_def)
next
  case (Cons b bs)
  obtain n lo hi where f: "first_info (unat b) = (n, lo, hi)" by (cases "first_info (unat b)")
  let ?t = "map unat bs"
  have two: "valid_rune (x mod 0x20 * 0x40 + y mod 0x40)" for x y
    using mod_less_divisor [of "0x20" x] mod_less_divisor [of "0x40" y]
    unfolding valid_rune_def by linarith
  have three: "valid_rune (unat b mod 0x10 * 0x1000 + ?t ! 0 mod 0x40 * 0x40 + z mod 0x40)"
    if "n = 3" "\<not> ?t ! 0 < lo" "\<not> hi < ?t ! 0" for z
    using f by (rule first_info_cases)
      (use that mod_less_divisor [of "0x40" z] in \<open>simp_all add: utf8_blocks valid_rune_def, linarith+\<close>)
  have four: "valid_rune (unat b mod 0x08 * 0x40000 + ?t ! 0 mod 0x40 * 0x1000 + y mod 0x40 * 0x40
      + z mod 0x40)" if "n = 4" "\<not> ?t ! 0 < lo" "\<not> hi < ?t ! 0" for y z
    using f by (rule first_info_cases)
      (use that mod_less_divisor [of "0x40" z] mod_less_divisor [of "0x40" y]
       in \<open>simp_all add: utf8_blocks valid_rune_def, linarith+\<close>)
  have one: "valid_rune (unat b)" if "unat b < 0x80" using that by (simp add: valid_rune_def)
  have "n \<in> {1, 2, 3, 4}" using f by (rule first_info_cases) auto
  then show ?thesis using one two three four
    by (simp add: Cons DecodeRune_def f del: nth_map split del: if_split) (auto split: if_splits)
qed

lemma runes_of_valid: "r \<in> set (runes_of p) \<Longrightarrow> valid_rune r"
proof (induction p rule: runes_of.induct)
  case (1 p)
  then show ?case
    using DecodeRune_valid [of p]
    by (cases "DecodeRune p") (auto simp: runes_of.simps [of p] split: if_splits)
qed

section \<open>Reading runes\<close>

definition ReadRune :: "rdr \<Rightarrow> (nat \<times> nat) outcome \<times> rdr" where
  "ReadRune r = (let r1 = (if length (unread r) < 4 \<and> \<not> FullRune (unread r) then fill r else r) in
     if unread r1 = [] then (Err EOF, r1)
     else (case DecodeRune (unread r1) of (c, k) \<Rightarrow>
       (Ok (c, k), r1\<lparr>rd_pos := rd_pos r1 + k, rd_last := Some (unread r1 ! (k - 1))\<rparr>)))"

lemma DecodeRune_full:
  assumes "FullRune p \<or> 4 \<le> length p"
  shows "DecodeRune (p @ q) = DecodeRune p"
proof -
  obtain b bs where p: "p = b # bs" using assms by (cases p) (auto simp: FullRune_def)
  obtain n lo hi where f: "first_info (unat b) = (n, lo, hi)" by (cases "first_info (unat b)")
  from f have n: "n \<in> {1, 2, 3, 4}" by (rule first_info_cases) auto
  have nth: "map unat (bs @ q) ! i = map unat bs ! i" if "i < length bs" for i
    using that by (simp add: nth_append)
  consider "n \<le> length bs + 1"
    | "bs \<noteq> []" "map unat bs ! 0 < lo \<or> hi < map unat bs ! 0"
    | "1 < length bs" "length bs + 1 < n" "\<not> cont_byte (map unat bs ! 1)"
    using assms n by (fastforce simp: p FullRune_def f not_le [symmetric] split: if_splits)
  then show ?thesis
  proof cases
    case 1
    have "n = 1 \<or> n = 2 \<and> bs \<noteq> [] \<or> n = 3 \<and> bs \<noteq> [] \<and> 1 < length bs \<or>
        n = 4 \<and> bs \<noteq> [] \<and> 1 < length bs \<and> 2 < length bs"
      using 1 n by auto
    then show ?thesis
      by (elim disjE conjE) (simp_all add: p DecodeRune_def f nth del: map_append nth_map)
  next
    case 2
    with nth [of 0] show ?thesis
      by (auto simp: p DecodeRune_def f simp del: map_append nth_map)
  next
    case 3
    with nth [of 0] nth [of 1] n show ?thesis
      by (auto simp: p DecodeRune_def f simp del: map_append nth_map)
  qed
qed

lemma DecodeRune_take: "4 \<le> n \<Longrightarrow> DecodeRune (take n p) = DecodeRune p"
  using DecodeRune_full [of "take n p" "drop n p"] by (cases "length p \<le> n") auto

text \<open>\<^verbatim>\<open>ReadRune\<close> decodes the first rune of the content, wherever the buffer ends.\<close>

lemma ReadRune_Nil:
  assumes "content r = []"
  shows "\<exists>r'. ReadRune r = (Err EOF, r') \<and> content r' = [] \<and> (rdr_ok r \<longrightarrow> rdr_ok r')"
proof -
  have "unread r = []" using assms by (simp add: content_def)
  moreover have "unread (fill r) = []" using assms by (simp add: unread_fill_empty calculation)
  ultimately show ?thesis using assms
    by (intro exI [of _ "fill r"]) (auto simp: ReadRune_def FullRune_def)
qed

lemma ReadRune_some:
  assumes "content r \<noteq> []"
  defines "k \<equiv> snd (DecodeRune (content r))"
  shows "\<exists>r'. ReadRune r = (Ok (DecodeRune (content r)), r') \<and> content r' = drop k (content r) \<and>
    (rdr_ok r \<longrightarrow> rdr_ok r')"
proof -
  define r1 where "r1 = (if length (unread r) < 4 \<and> \<not> FullRune (unread r) then fill r else r)"
  have c1: "content r1 = content r" and ok1: "rdr_ok r \<Longrightarrow> rdr_ok r1" by (auto simp: r1_def)
  have d: "DecodeRune (unread r1) = DecodeRune (content r)" and u: "unread r1 \<noteq> []"
  proof -
    have "unread r1 = take bufSize (content r)" if "length (unread r) < 4" "\<not> FullRune (unread r)"
      using that by (simp add: r1_def unread_fill bufSize_def)
    moreover have "DecodeRune (content r) = DecodeRune (unread r)"
      if "FullRune (unread r) \<or> 4 \<le> length (unread r)"
      using DecodeRune_full [OF that] by (simp add: content_def)
    ultimately show "DecodeRune (unread r1) = DecodeRune (content r)" "unread r1 \<noteq> []"
      using assms(1) by (auto simp: r1_def DecodeRune_take bufSize_def FullRune_def)
  qed
  have k: "k \<le> length (unread r1)" using DecodeRune_width [OF u] by (simp add: d k_def)
  let ?r' = "r1\<lparr>rd_pos := rd_pos r1 + k, rd_last := Some (unread r1 ! (k - 1))\<rparr>"
  have "ReadRune r = (Ok (DecodeRune (content r)), ?r')"
    unfolding ReadRune_def r1_def [symmetric] Let_def using u by (simp add: d k_def split: prod.splits)
  moreover have "content ?r' = drop k (content r)"
  proof -
    have "content r = unread r1 @ rd_src r1" using c1 by (simp add: content_def)
    then show ?thesis using k by (simp add: content_def unread_def add.commute)
  qed
  moreover have "rdr_ok r \<Longrightarrow> rdr_ok ?r'"
    using ok1 k u by (auto simp: rdr_ok_def unread_def)
  ultimately show ?thesis by blast
qed

lemma takes_ReadRune:
  "valid_rune c \<Longrightarrow> takes ReadRune (EncodeRune c) (c, length (EncodeRune c))"
  by (rule takesI) (metis DecodeRune_Encode EncodeRune_not_Nil Nil_is_append_conv ReadRune_some
      append_eq_conv_conj snd_conv)

lemma shrinks_ReadRune [intro, simp]: "shrinks ReadRune"
  unfolding shrinks_def
  by (metis ReadRune_Nil ReadRune_some diff_le_self le_refl length_drop snd_conv)

end
