(* ===== verification/Server_Service.thy ===== *)
theory Server_Service
  imports Go_Reflect Go_Utf8
begin

text \<open>
  The service table of the server, the first part of \<^verbatim>\<open>server/rpc_server.go\<close> with \<^verbatim>\<open>TrimSuffix\<close> of \<^verbatim>\<open>common/misc.go\<close>:
  which methods of a handler can be called, and the registration of a handler. What \<^verbatim>\<open>reflect\<close> tells of a
  handler is a record. \<open>up\<close> is the table of \<^verbatim>\<open>unicode\<close> for upper case letters beyond Latin-1.
\<close>

section \<open>Data\<close>

text \<open>A method: the types of its parameters, the receiver first, and of its results.\<close>

record rmethod =
  rm_Name :: string
  rm_PkgPath :: string
  rm_In :: "rtype list"
  rm_Out :: "rtype list"

text \<open>A handler: its service and version, the name of its type behind a pointer, and its methods.\<close>

record handler =
  hd_Service :: string
  hd_Version :: string
  hd_TypeName :: string
  hd_Methods :: "rmethod list"

record methodType =
  mt_method :: rmethod
  mt_ArgType :: rtype
  mt_ReplyType :: "rtype option"
  mt_ContextType :: rtype
  mt_stream :: bool
  mt_numCalls :: int64

definition NumCalls :: "methodType \<Rightarrow> int64" where
  "NumCalls m = mt_numCalls m"

record service =
  svc_name :: string
  svc_rcvr :: handler
  svc_method :: "string \<rightharpoonup> methodType"

section \<open>Methods that can be called\<close>

text \<open>\<^verbatim>\<open>unicode.IsUpper\<close>.\<close>

definition IsUpper :: "(nat \<Rightarrow> bool) \<Rightarrow> nat \<Rightarrow> bool" where
  "IsUpper up r = (if r \<le> 0xFF then (0x41 \<le> r \<and> r \<le> 0x5A) \<or> (0xC0 \<le> r \<and> r \<le> 0xDE \<and> r \<noteq> 0xD7) else up r)"

definition isExported :: "(nat \<Rightarrow> bool) \<Rightarrow> string \<Rightarrow> bool" where
  "isExported up name = IsUpper up (fst (DecodeRune (str name)))"

text \<open>The type behind the pointers.\<close>

fun strip_ptrs :: "rtype \<Rightarrow> rtype" where
  "strip_ptrs (RType k n p e ky s) =
     (if k = KPtr then (case e of None \<Rightarrow> RType k n p e ky s | Some t \<Rightarrow> strip_ptrs t) else RType k n p e ky s)"

definition isExportedOrBuiltinType :: "(nat \<Rightarrow> bool) \<Rightarrow> rtype \<Rightarrow> bool" where
  "isExportedOrBuiltinType up t = (let t = strip_ptrs t in isExported up (rt_Name t) \<or> rt_PkgPath t = [])"

text \<open>The check of the results, and the value that is returned after it.\<close>

definition prepare_out :: "rmethod \<Rightarrow> rtype \<Rightarrow> rtype option \<Rightarrow> rtype \<Rightarrow> bool \<Rightarrow> methodType option" where
  "prepare_out method argType replyType contextType stream =
     (if length (rm_Out method) \<noteq> 1 then None
      else if rm_Out method ! 0 \<noteq> typeOfError then None
      else Some \<lparr>mt_method = method, mt_ArgType = argType, mt_ReplyType = replyType, mt_ContextType = contextType,
                 mt_stream = stream, mt_numCalls = 0\<rparr>)"

definition prepareMethod :: "(nat \<Rightarrow> bool) \<Rightarrow> rmethod \<Rightarrow> methodType option" where
  "prepareMethod up method =
     (if rm_PkgPath method \<noteq> [] then None
      else (let ins = rm_In method in
        if length ins = 3 then
          (if \<not> rt_Streamer (ins ! 2) then None
           else prepare_out method (ins ! 2) None (ins ! 1) True)
        else if length ins = 4 then
          (if \<not> isExportedOrBuiltinType up (ins ! 2) then None
           else if rt_Kind (ins ! 3) \<noteq> KPtr then None
           else if \<not> isExportedOrBuiltinType up (ins ! 3) then None
           else prepare_out method (ins ! 2) (Some (ins ! 3)) (ins ! 1) False)
        else None))"

section \<open>Registration\<close>

definition HasSuffix :: "string \<Rightarrow> string \<Rightarrow> bool" where
  "HasSuffix s x = (length x \<le> length s \<and> drop (length s - length x) s = x)"

definition TrimSuffix :: "string \<Rightarrow> string \<Rightarrow> string" where
  "TrimSuffix s x = (if HasSuffix s x then take (length s - length x) s else s)"

text \<open>The loop over the methods: the table and the names, each with a comma behind it.\<close>

fun install_methods ::
  "(nat \<Rightarrow> bool) \<Rightarrow> rmethod list \<Rightarrow> (string \<rightharpoonup> methodType) \<Rightarrow> string \<Rightarrow> (string \<rightharpoonup> methodType) \<times> string" where
  "install_methods up [] tab names = (tab, names)"
| "install_methods up (m # ms) tab names = (case prepareMethod up m of
     None \<Rightarrow> install_methods up ms tab names
   | Some mt \<Rightarrow> install_methods up ms (tab(rm_Name m \<mapsto> mt)) (names @ rm_Name m @ '',''))"

definition register ::
  "(nat \<Rightarrow> bool) \<Rightarrow> handler \<Rightarrow> (string \<rightharpoonup> service) \<Rightarrow> string outcome \<times> (string \<rightharpoonup> service)" where
  "register up rcvr serviceMap =
     (if \<not> isExported up (hd_TypeName rcvr) then
        (Err (Errorf (''rpc Register: type '' @ hd_TypeName rcvr @ '' is not exported'')), serviceMap)
      else (let sname = hd_Service rcvr in
        if serviceMap sname \<noteq> None then (Err (Errorf (''rpc: service already defined: '' @ sname)), serviceMap)
        else (case install_methods up (hd_Methods rcvr) Map.empty [] of (tab, methods) \<Rightarrow>
          if methods = [] then
            (Err (Errorf (''rpc Register: type '' @ sname @ '' has no exported methods of suitable type'')), serviceMap)
          else (Ok (TrimSuffix methods '',''),
                serviceMap(sname \<mapsto> \<lparr>svc_name = sname, svc_rcvr = rcvr, svc_method = tab\<rparr>)))))"

end
