(* ===== verification/Go_Json.thy ===== *)
theory Go_Json
  imports Go_Utf8 Go_Strings
begin

text \<open>
  The part of Go's \<^verbatim>\<open>encoding/json\<close> that the JSON-RPC codec uses, on strings with one character per
  byte: the scanner, which finds where the first value of a text ends and what the members of an
  object or the elements of an array are; quoting and unquoting of strings; and the compact form in
  which a raw value is written. A value keeps its text, as \<^verbatim>\<open>json.RawMessage\<close> does.
\<close>

section \<open>Scanning\<close>

text \<open>
  Scanning from the left gives a result and the rest of the text, or finds that the text is too
  short, or a character that is not allowed.
\<close>

datatype 'a scan = Got 'a string | Short | Bad

fun sbind :: "'a scan \<Rightarrow> ('a \<Rightarrow> string \<Rightarrow> 'b scan) \<Rightarrow> 'b scan" where
  "sbind (Got a s) f = f a s"
| "sbind Short f = Short"
| "sbind Bad f = Bad"

definition scons :: "char \<Rightarrow> string scan \<Rightarrow> string scan" where
  "scons c m = sbind m (\<lambda>cs s. Got (c # cs) s)"

definition json_space :: "char \<Rightarrow> bool" where
  "json_space c \<longleftrightarrow> c = CHR '' '' \<or> c = CHR 0x09 \<or> c = CHR 0x0D \<or> c = CHR 0x0A"

definition skip :: "string \<Rightarrow> string" where
  "skip s = dropWhile json_space s"

text \<open>The next character that is not a space.\<close>

definition snext :: "string \<Rightarrow> char scan" where
  "snext s = (case skip s of [] \<Rightarrow> Short | c # t \<Rightarrow> Got c t)"

fun scan_lit :: "string \<Rightarrow> string \<Rightarrow> unit scan" where
  "scan_lit [] s = Got () s"
| "scan_lit (c # cs) [] = Short"
| "scan_lit (c # cs) (d # s) = (if c = d then scan_lit cs s else Bad)"

text \<open>
  A string after its opening quote. The number is the state: 0 inside the string, 1 after a
  backslash, \<open>k + 1\<close> when \<open>k\<close> hexadecimal digits are still to come.
\<close>

definition hex_digit :: "char \<Rightarrow> nat option" where
  "hex_digit c = (let n = of_char c :: nat in
     if 48 \<le> n \<and> n \<le> 57 then Some (n - 48)
     else if 97 \<le> n \<and> n \<le> 102 then Some (n - 87)
     else if 65 \<le> n \<and> n \<le> 70 then Some (n - 55) else None)"

definition str_next :: "nat \<Rightarrow> char \<Rightarrow> nat option" where
  "str_next m c =
     (if m = 0 then (if c = CHR 0x5C then Some 1 else if (of_char c :: nat) < 32 then None else Some 0)
      else if m = 1 then
        (if c \<in> set [CHR ''b'', CHR ''f'', CHR ''n'', CHR ''r'', CHR ''t'', CHR 0x5C, CHR ''/'', CHR 0x22] then Some 0
         else if c = CHR ''u'' then Some 5 else None)
      else if hex_digit c = None then None else if m = 2 then Some 0 else Some (m - 1))"

fun scan_str :: "nat \<Rightarrow> string \<Rightarrow> string scan" where
  "scan_str m [] = Short"
| "scan_str m (c # s) =
     (if m = 0 \<and> c = CHR 0x22 then Got [] s
      else (case str_next m c of None \<Rightarrow> Bad | Some m' \<Rightarrow> scons c (scan_str m' s)))"

text \<open>The states of a number are those of the Go scanner: after a sign, a leading zero, a digit, and so on.\<close>

datatype numst = NNeg | N0 | N1 | NDot | NDot0 | NE | NESign | NE0

definition json_digit :: "char \<Rightarrow> bool" where
  "json_digit c \<longleftrightarrow> (48 :: nat) \<le> of_char c \<and> (of_char c :: nat) \<le> 57"

fun num_next :: "numst \<Rightarrow> char \<Rightarrow> numst option" where
  "num_next NNeg c = (if c = CHR ''0'' then Some N0 else if json_digit c then Some N1 else None)"
| "num_next N1 c = (if json_digit c then Some N1 else if c = CHR ''.'' then Some NDot
     else if c = CHR ''e'' \<or> c = CHR ''E'' then Some NE else None)"
| "num_next N0 c = (if c = CHR ''.'' then Some NDot else if c = CHR ''e'' \<or> c = CHR ''E'' then Some NE else None)"
| "num_next NDot c = (if json_digit c then Some NDot0 else None)"
| "num_next NDot0 c = (if json_digit c then Some NDot0 else if c = CHR ''e'' \<or> c = CHR ''E'' then Some NE else None)"
| "num_next NE c = (if c = CHR ''+'' \<or> c = CHR ''-'' then Some NESign else if json_digit c then Some NE0 else None)"
| "num_next NESign c = (if json_digit c then Some NE0 else None)"
| "num_next NE0 c = (if json_digit c then Some NE0 else None)"

definition num_final :: "numst \<Rightarrow> bool" where
  "num_final st \<longleftrightarrow> st = N0 \<or> st = N1 \<or> st = NDot0 \<or> st = NE0"

fun scan_num :: "numst \<Rightarrow> string \<Rightarrow> unit scan" where
  "scan_num st [] = (if num_final st then Got () [] else Short)"
| "scan_num st (c # s) = (case num_next st c of
     Some st' \<Rightarrow> scan_num st' s
   | None \<Rightarrow> if num_final st then Got () (c # s) else Bad)"

text \<open>The text that has been read when \<open>s\<close> has shrunk to \<open>rest\<close>.\<close>

definition taken :: "string \<Rightarrow> string \<Rightarrow> string" where
  "taken s rest = take (length s - length rest) s"

text \<open>What the first character of a value announces: \<^verbatim>\<open>stateBeginValue\<close>.\<close>

datatype jhead = HObject | HArray | HString | HNumber numst | HLiteral string | HBad

definition json_head :: "char \<Rightarrow> jhead" where
  "json_head c =
     (if c = CHR ''{'' then HObject else if c = CHR ''['' then HArray else if c = CHR 0x22 then HString
      else if c = CHR ''-'' then HNumber NNeg else if c = CHR ''0'' then HNumber N0
      else if c = CHR ''t'' then HLiteral ''rue'' else if c = CHR ''f'' then HLiteral ''alse''
      else if c = CHR ''n'' then HLiteral ''ull'' else if json_digit c then HNumber N1 else HBad)"

text \<open>
  A value, the members of an object after the brace or a comma, and the elements of an array after
  the bracket or a comma. The members come with the text of the key between its quotes and the text
  of the value. The number bounds the depth of the recursion; twice the length of the text is enough.
\<close>

fun scan_value :: "nat \<Rightarrow> string \<Rightarrow> unit scan"
  and scan_members :: "nat \<Rightarrow> string \<Rightarrow> (string \<times> string) list scan"
  and scan_elems :: "nat \<Rightarrow> string \<Rightarrow> string list scan" where
  "scan_value 0 s = Bad"
| "scan_value (Suc n) s = (case s of [] \<Rightarrow> Short | c # t \<Rightarrow>
     (case json_head c of
        HObject \<Rightarrow> sbind (snext t) (\<lambda>d u. if d = CHR ''}'' then Got () u else sbind (scan_members n t) (\<lambda>_ u. Got () u))
      | HArray \<Rightarrow> sbind (snext t) (\<lambda>d u. if d = CHR '']'' then Got () u else sbind (scan_elems n t) (\<lambda>_ u. Got () u))
      | HString \<Rightarrow> sbind (scan_str 0 t) (\<lambda>_ u. Got () u)
      | HNumber st \<Rightarrow> scan_num st t
      | HLiteral cs \<Rightarrow> scan_lit cs t
      | HBad \<Rightarrow> Bad))"
| "scan_members 0 s = Bad"
| "scan_members (Suc n) s =
     sbind (snext s) (\<lambda>c t. if c \<noteq> CHR 0x22 then Bad else
     sbind (scan_str 0 t) (\<lambda>k t.
     sbind (snext t) (\<lambda>c t. if c \<noteq> CHR '':'' then Bad else
     sbind (scan_value n (skip t)) (\<lambda>_ u.
     sbind (snext u) (\<lambda>c r.
       if c = CHR ''}'' then Got [(k, taken (skip t) u)] r
       else if c = CHR '','' then sbind (scan_members n r) (\<lambda>ms r. Got ((k, taken (skip t) u) # ms) r)
       else Bad)))))"
| "scan_elems 0 s = Bad"
| "scan_elems (Suc n) s =
     sbind (scan_value n (skip s)) (\<lambda>_ u.
     sbind (snext u) (\<lambda>c r.
       if c = CHR '']'' then Got [taken (skip s) u] r
       else if c = CHR '','' then sbind (scan_elems n r) (\<lambda>es r. Got (taken (skip s) u # es) r)
       else Bad))"

definition scan_fuel :: "string \<Rightarrow> nat" where
  "scan_fuel s = 2 * length s + 2"

text \<open>The members of a text that is an object, and the elements of one that is an array.\<close>

definition object_members :: "string \<Rightarrow> (string \<times> string) list option" where
  "object_members s = (case skip s of c # t \<Rightarrow>
       if c = CHR ''{'' then
         (case snext t of Got d u \<Rightarrow>
            if d = CHR ''}'' then Some []
            else (case scan_members (scan_fuel t) t of Got ms r \<Rightarrow> Some ms | _ \<Rightarrow> None)
          | _ \<Rightarrow> None)
       else None
     | [] \<Rightarrow> None)"

definition array_elems :: "string \<Rightarrow> string list option" where
  "array_elems s = (case skip s of c # t \<Rightarrow>
       if c = CHR ''['' then
         (case snext t of Got d u \<Rightarrow>
            if d = CHR '']'' then Some []
            else (case scan_elems (scan_fuel t) t of Got es r \<Rightarrow> Some es | _ \<Rightarrow> None)
          | _ \<Rightarrow> None)
       else None
     | [] \<Rightarrow> None)"

text \<open>\<^verbatim>\<open>checkValid\<close>: the text is one value, with spaces around it.\<close>

definition checkValid :: "string \<Rightarrow> goerr option" where
  "checkValid s = (case scan_value (scan_fuel s) (skip s) of
     Got _ r \<Rightarrow> if skip r = [] then None else Some (Errorf ''invalid character after top-level value'')
   | Short \<Rightarrow> Some (Errorf ''unexpected end of JSON input'')
   | Bad \<Rightarrow> Some (Errorf ''invalid character''))"

text \<open>A compact value: a value without spaces around it.\<close>

definition json_text :: "string \<Rightarrow> bool" where
  "json_text v \<longleftrightarrow> scan_value (scan_fuel v) v = Got () []"

section \<open>Strings\<close>

text \<open>\<^verbatim>\<open>getu4\<close>: the number of four hexadecimal digits.\<close>

definition hex_val :: "string \<Rightarrow> nat" where
  "hex_val s = foldl (\<lambda>n c. 16 * n + (case hex_digit c of None \<Rightarrow> 0 | Some d \<Rightarrow> d)) 0 s"

definition u4 :: "string \<Rightarrow> nat option" where
  "u4 s = (if 6 \<le> length s \<and> s ! 0 = CHR 0x5C \<and> s ! 1 = CHR ''u'' then Some (hex_val (take 4 (drop 2 s))) else None)"

definition surrogates :: "nat \<Rightarrow> nat option \<Rightarrow> nat" where
  "surrogates r r1 = (case r1 of None \<Rightarrow> RuneError | Some r1 \<Rightarrow>
     if 0xd800 \<le> r \<and> r < 0xdc00 \<and> 0xdc00 \<le> r1 \<and> r1 < 0xe000
     then (r - 0xd800) * 0x400 + (r1 - 0xdc00) + 0x10000 else RuneError)"

definition unescape :: "char \<Rightarrow> char" where
  "unescape c = (if c = CHR ''b'' then CHR 0x08 else if c = CHR ''f'' then CHR 0x0C else if c = CHR ''n'' then CHR 0x0A
     else if c = CHR ''r'' then CHR 0x0D else if c = CHR ''t'' then CHR 0x09 else c)"

text \<open>\<^verbatim>\<open>unquote\<close> on the text between the quotes.\<close>

function unquote :: "string \<Rightarrow> string" where
  "unquote s = (case s of [] \<Rightarrow> []
   | c # t \<Rightarrow>
     if c = CHR 0x5C then
       (case t of [] \<Rightarrow> []
        | e # t' \<Rightarrow>
          if e = CHR ''u'' then
            (case u4 s of None \<Rightarrow> []
             | Some r \<Rightarrow>
               if 0xd800 \<le> r \<and> r < 0xe000 then
                 (let r' = surrogates r (u4 (drop 6 s)) in
                  if r' \<noteq> RuneError then chars (EncodeRune r') @ unquote (drop 12 s)
                  else chars (EncodeRune RuneError) @ unquote (drop 6 s))
               else chars (EncodeRune r) @ unquote (drop 6 s))
          else unescape e # unquote t')
     else if (of_char c :: nat) < 0x80 then c # unquote t
     else (case DecodeRune (str s) of (r, k) \<Rightarrow> chars (EncodeRune r) @ unquote (drop (max 1 k) s)))"
  by pat_completeness auto
termination
  by (relation "measure length") auto

declare unquote.simps [simp del]

text \<open>\<^verbatim>\<open>encodeState.string\<close> with the escapes for HTML, which is how \<^verbatim>\<open>Marshal\<close> and \<^verbatim>\<open>Encode\<close> write strings.\<close>

definition hex_char :: "nat \<Rightarrow> char" where
  "hex_char n = (if n < 10 then char_of (48 + n) else char_of (87 + n))"

definition html_safe :: "char \<Rightarrow> bool" where
  "html_safe c \<longleftrightarrow> (32 :: nat) \<le> of_char c \<and>
     c \<notin> set [CHR 0x22, CHR 0x5C, CHR ''<'', CHR ''>'', CHR ''&'']"

definition quote_ascii :: "char \<Rightarrow> string" where
  "quote_ascii c = (if html_safe c then [c]
     else if c = CHR 0x5C \<or> c = CHR 0x22 then [CHR 0x5C, c]
     else if c = CHR 0x0A then [CHR 0x5C, CHR ''n'']
     else if c = CHR 0x0D then [CHR 0x5C, CHR ''r'']
     else if c = CHR 0x09 then [CHR 0x5C, CHR ''t'']
     else [CHR 0x5C, CHR ''u'', CHR ''0'', CHR ''0'', hex_char (of_char c div 16), hex_char (of_char c mod 16)])"

function quote_body :: "string \<Rightarrow> string" where
  "quote_body s = (case s of [] \<Rightarrow> []
   | c # t \<Rightarrow>
     if (of_char c :: nat) < 0x80 then quote_ascii c @ quote_body t
     else (case DecodeRune (str s) of (r, k) \<Rightarrow>
       (if r = RuneError \<and> k = 1 then CHR 0x5C # ''ufffd''
        else if r = 0x2028 \<or> r = 0x2029 then CHR 0x5C # ''u202'' @ [hex_char (r mod 16)]
        else take k s) @ quote_body (drop (max 1 k) s)))"
  by pat_completeness auto
termination
  by (relation "measure length") auto

declare quote_body.simps [simp del]

definition quote :: "string \<Rightarrow> string" where
  "quote s = CHR 0x22 # quote_body s @ [CHR 0x22]"

section \<open>Raw values\<close>

text \<open>
  \<^verbatim>\<open>compact\<close> with the escapes for HTML: spaces outside of strings go, and the characters \<^verbatim>\<open><\<close>, \<^verbatim>\<open>>\<close>, \<^verbatim>\<open>&\<close>, U+2028
  and U+2029 are escaped. The first argument is 0 outside of strings, 1 in a string and 2 after a
  backslash in a string.
\<close>

fun compact_at :: "nat \<Rightarrow> string \<Rightarrow> string" where
  "compact_at m [] = []"
| "compact_at m (c # s) =
     (let m' = (if m = 0 then (if c = CHR 0x22 then 1 else 0)
                else if m = 2 then 1
                else if c = CHR 0x5C then 2 else if c = CHR 0x22 then 0 else 1)
      in if c = CHR ''<'' \<or> c = CHR ''>'' \<or> c = CHR ''&'' then
           [CHR 0x5C, CHR ''u'', CHR ''0'', CHR ''0'', hex_char (of_char c div 16), hex_char (of_char c mod 16)] @ compact_at m' s
         else if c = CHR 0xE2 \<and> 2 \<le> length s \<and> s ! 0 = CHR 0x80 \<and> (s ! 1 = CHR 0xA8 \<or> s ! 1 = CHR 0xA9) then
           CHR 0x5C # ''u202'' @ [hex_char (of_char (s ! 1) mod 16)] @ compact_at m' (tl (tl s))
         else if m = 0 \<and> json_space c then compact_at m' s
         else c # compact_at m' s)"

text \<open>What \<^verbatim>\<open>Marshal\<close> writes for a raw message.\<close>

definition marshal_raw :: "string \<Rightarrow> string outcome" where
  "marshal_raw r = (case checkValid r of None \<Rightarrow> Ok (compact_at 0 r) | Some e \<Rightarrow> Err e)"

section \<open>Facts on scanning\<close>

declare scan_value.simps(2) [simp del] scan_members.simps(2) [simp del] scan_elems.simps(2) [simp del]

text \<open>A text that does not continue a number.\<close>

definition ends_num :: "string \<Rightarrow> bool" where
  "ends_num t \<longleftrightarrow> t = [] \<or> hd t \<in> set [CHR '','', CHR ''}'', CHR '']'', CHR '' '', CHR 0x0A, CHR 0x0D, CHR 0x09]"

lemma num_next_ends: "ends_num (c # t) \<Longrightarrow> num_next st c = None"
  by (cases st) (auto simp: ends_num_def json_digit_def)

lemma sbind_Got: "sbind m f = Got b r \<longleftrightarrow> (\<exists>a s. m = Got a s \<and> f a s = Got b r)"
  by (cases m) simp_all

lemma scons_Got: "scons c m = Got b r \<longleftrightarrow> (\<exists>cs. m = Got cs r \<and> b = c # cs)"
  by (auto simp: scons_def sbind_Got)

lemma skip_append: "skip (s @ t) = (if skip s = [] then skip t else skip s @ t)"
  by (simp add: skip_def dropWhile_append dropWhile_eq_Nil_conv)

lemma snext_append: "snext s = Got c u \<Longrightarrow> snext (s @ t) = Got c (u @ t)"
  by (auto simp: snext_def skip_append split: list.splits)

lemma scan_lit_append: "scan_lit cs s = Got a u \<Longrightarrow> scan_lit cs (s @ t) = Got a (u @ t)"
  by (induction cs s rule: scan_lit.induct) (auto split: if_splits)

lemma scan_str_append: "scan_str m s = Got a u \<Longrightarrow> scan_str m (s @ t) = Got a (u @ t)"
  by (induction s arbitrary: m a) (auto simp: scons_Got split: if_splits option.splits)

lemma scan_num_append:
  "scan_num st s = Got a u \<Longrightarrow> u \<noteq> [] \<or> ends_num t \<Longrightarrow> scan_num st (s @ t) = Got a (u @ t)"
proof (induction st s rule: scan_num.induct)
  case (1 st)
  then show ?case by (cases t) (auto simp: num_next_ends split: if_splits)
qed (auto split: option.splits if_splits)

lemma taken_append: "taken (s @ t) (u @ t) = taken s u" if "length u \<le> length s"
  using that by (simp add: taken_def)

lemma skip_length: "length (skip s) \<le> length s"
  by (simp add: skip_def length_dropWhile_le)

lemma snext_length: "snext s = Got c u \<Longrightarrow> length u < length s"
  using skip_length [of s] by (auto simp: snext_def split: list.splits)

lemma scan_lit_length: "scan_lit cs s = Got a u \<Longrightarrow> length u \<le> length s"
  by (induction cs s rule: scan_lit.induct) (auto split: if_splits)

lemma scan_str_length: "scan_str m s = Got a u \<Longrightarrow> length u < length s"
proof (induction s arbitrary: m a)
  case (Cons c s)
  then show ?case by (force simp: scons_Got split: if_splits option.splits)
qed simp

lemma scan_num_length: "scan_num st s = Got a u \<Longrightarrow> length u \<le> length s"
  by (induction st s rule: scan_num.induct) (fastforce split: option.splits if_splits)+

lemma scan_length:
  "(\<forall>s x u. scan_value n s = Got x u \<longrightarrow> length u < length s) \<and>
   (\<forall>s x u. scan_members n s = Got x u \<longrightarrow> length u < length s) \<and>
   (\<forall>s x u. scan_elems n s = Got x u \<longrightarrow> length u < length s)"
proof (induction n)
  case (Suc n)
  then have v: "\<And>s x u. scan_value n (skip s) = Got x u \<Longrightarrow> length u < length s"
    and m: "\<And>s x u. scan_members n s = Got x u \<Longrightarrow> length u < length s"
    and e: "\<And>s x u. scan_elems n s = Got x u \<Longrightarrow> length u < length s"
    using skip_length less_le_trans by blast+
  have "length u < length s" if "scan_value (Suc n) s = Got x u" for s x u
    using that by (auto simp: scan_value.simps(2) sbind_Got less_Suc_eq_le split: list.splits jhead.splits if_splits
        dest!: snext_length scan_lit_length scan_str_length scan_num_length m e)
  moreover have "length u < length s" if "scan_members (Suc n) s = Got x u" for s x u
    using that by (auto simp: scan_members.simps(2) sbind_Got split: if_splits
        dest!: snext_length scan_str_length v m)
  moreover have "length u < length s" if "scan_elems (Suc n) s = Got x u" for s x u
    using that by (auto simp: scan_elems.simps(2) sbind_Got split: if_splits dest!: snext_length v e)
  ultimately show ?case by blast
qed simp

lemma scan_value_length: "scan_value n s = Got x u \<Longrightarrow> length u < length s"
  using scan_length by blast

text \<open>What follows the text does not change what is found, if it does not continue a number.\<close>

lemma scan_append:
  "(\<forall>s x u t. scan_value n s = Got x u \<longrightarrow> u \<noteq> [] \<or> ends_num t \<longrightarrow> scan_value n (s @ t) = Got x (u @ t)) \<and>
   (\<forall>s x u t. scan_members n s = Got x u \<longrightarrow> scan_members n (s @ t) = Got x (u @ t)) \<and>
   (\<forall>s x u t. scan_elems n s = Got x u \<longrightarrow> scan_elems n (s @ t) = Got x (u @ t))"
proof (induction n)
  case (Suc n)
  have m: "scan_members n (s @ t) = Got x (u @ t)" if "scan_members n s = Got x u" for s x u t
    using Suc that by blast
  have e: "scan_elems n (s @ t) = Got x (u @ t)" if "scan_elems n s = Got x u" for s x u t
    using Suc that by blast
  have v: "scan_value n (skip (s @ t)) = Got x (u @ t) \<and> taken (skip (s @ t)) (u @ t) = taken (skip s) u"
    if "scan_value n (skip s) = Got x u" "snext u = Got c r" for s x u t c r
  proof -
    have "u \<noteq> []" using that(2) by (auto simp: snext_def skip_def)
    moreover have "length u < length (skip s)" using that(1) by (rule scan_value_length)
    ultimately show ?thesis using Suc that by (auto simp: skip_append taken_append)
  qed
  have "scan_value (Suc n) (s @ t) = Got x (u @ t)" if *: "scan_value (Suc n) s = Got x u" "u \<noteq> [] \<or> ends_num t" for s x u t
  proof (cases s)
    case (Cons c s')
    have brace: "sbind (snext (s' @ t)) (\<lambda>d u. if d = b then Got () u else sbind (f (s' @ t)) (\<lambda>_ u. Got () u)) = Got x (u @ t)"
      if g: "sbind (snext s') (\<lambda>d u. if d = b then Got () u else sbind (f s') (\<lambda>_ u. Got () u)) = Got x u"
        and f: "\<And>a u. f s' = Got a u \<Longrightarrow> f (s' @ t) = Got a (u @ t)" for b and f :: "string \<Rightarrow> 'b scan"
    proof -
      from g obtain d r where d: "snext s' = Got d r" by (auto simp: sbind_Got)
      show ?thesis using g f unfolding snext_append [OF d] d by (auto simp: sbind_Got)
    qed
    have scan_str_bind: "sbind (scan_str 0 (s' @ t)) (\<lambda>_ u. Got () u) = Got x (u @ t)"
      if "sbind (scan_str 0 s') (\<lambda>_ u. Got () u) = Got x u"
      using that by (auto simp: sbind_Got dest: scan_str_append [where t = t])
    show ?thesis using * Cons
      by (auto simp: scan_value.simps(2) brace m e scan_lit_append scan_num_append scan_str_bind split: jhead.splits)
  qed (use that in \<open>simp add: scan_value.simps(2)\<close>)
  moreover have "scan_members (Suc n) (s @ t) = Got x (u @ t)" if *: "scan_members (Suc n) s = Got x u" for s x u t
  proof -
    from * obtain s1 k s2 s3 y s4 c s5 where
      "snext s = Got (CHR 0x22) s1" "scan_str 0 s1 = Got k s2" "snext s2 = Got (CHR '':'') s3"
      and v1: "scan_value n (skip s3) = Got y s4" "snext s4 = Got c s5"
      and c: "c = CHR ''}'' \<and> x = [(k, taken (skip s3) s4)] \<and> u = s5 \<or>
         c = CHR '','' \<and> (\<exists>ms. scan_members n s5 = Got ms u \<and> x = (k, taken (skip s3) s4) # ms)"
      by (auto simp: scan_members.simps(2) sbind_Got split: if_splits)
    moreover from v [OF v1, of t] c m have "scan_members n (s5 @ t) = Got ms (u @ t)" if "scan_members n s5 = Got ms u" for ms
      using that by blast
    ultimately show ?thesis using v [OF v1, of t]
      by (auto simp: scan_members.simps(2) snext_append scan_str_append)
  qed
  moreover have "scan_elems (Suc n) (s @ t) = Got x (u @ t)" if *: "scan_elems (Suc n) s = Got x u" for s x u t
  proof -
    from * obtain y s4 c s5 where v1: "scan_value n (skip s) = Got y s4" "snext s4 = Got c s5"
      and "c = CHR '']'' \<and> x = [taken (skip s) s4] \<and> u = s5 \<or>
         c = CHR '','' \<and> (\<exists>ms. scan_elems n s5 = Got ms u \<and> x = taken (skip s) s4 # ms)"
      by (auto simp: scan_elems.simps(2) sbind_Got split: if_splits)
    then show ?thesis using v [OF v1, of t] e by (auto simp: scan_elems.simps(2) snext_append)
  qed
  ultimately show ?case by blast
qed simp

text \<open>More fuel does not change what is found, and the length of the text is enough.\<close>

lemma sbind_cong: "m = m' \<Longrightarrow> (\<And>a s. m' = Got a s \<Longrightarrow> f a s = g a s) \<Longrightarrow> sbind m f = sbind m' g"
  by (cases m') simp_all

lemma scan_fuel_enough:
  "(\<forall>s k. 2 * length s < n \<longrightarrow> scan_value (n + k) s = scan_value n s) \<and>
   (\<forall>s k. 2 * length s < n \<longrightarrow> scan_members (n + k) s = scan_members n s) \<and>
   (\<forall>s k. 2 * length s + 1 < n \<longrightarrow> scan_elems (n + k) s = scan_elems n s)"
proof (induction n)
  case (Suc n)
  have v: "scan_value (n + k) (skip s) = scan_value n (skip s)" if "2 * length s < n" for s k
    using Suc that skip_length [of s] by auto
  have m: "scan_members (n + k) s = scan_members n s" if "2 * length s < n" for s k
    using Suc that by auto
  have e: "scan_elems (n + k) s = scan_elems n s" if "2 * length s + 1 < n" for s k
    using Suc that by auto
  have vl: "length u < length s" if "scan_value n (skip s) = Got x u" for s x u
    using scan_value_length [OF that] skip_length [of s] by simp
  have "scan_value (Suc n + k) s = scan_value (Suc n) s" if "2 * length s < Suc n" for s k
    using that by (cases s) (auto simp: scan_value.simps(2) m e split: jhead.splits intro!: sbind_cong)
  moreover have "scan_members (Suc n + k) s = scan_members (Suc n) s" if "2 * length s < Suc n" for s k
    unfolding add_Suc scan_members.simps(2)
  proof (intro sbind_cong refl if_cong)
    fix a s1 k' s2 a' s3
    assume "snext s = Got a s1" "scan_str 0 s1 = Got k' s2" "snext s2 = Got a' s3"
    then have l: "2 * length s3 < n" using that by (auto dest!: snext_length scan_str_length)
    then show "scan_value (n + k) (skip s3) = scan_value n (skip s3)" by (rule v)
    fix y s4 c s5
    assume "scan_value n (skip s3) = Got y s4" "snext s4 = Got c s5"
    then have "2 * length s5 < n" using l by (auto dest!: snext_length vl)
    then show "scan_members (n + k) s5 = scan_members n s5" by (rule m)
  qed
  moreover have "scan_elems (Suc n + k) s = scan_elems (Suc n) s" if "2 * length s + 1 < Suc n" for s k
    unfolding add_Suc scan_elems.simps(2)
  proof (intro sbind_cong refl if_cong)
    show "scan_value (n + k) (skip s) = scan_value n (skip s)" using that by (intro v) simp
    fix y s4 c s5
    assume "scan_value n (skip s) = Got y s4" "snext s4 = Got c s5"
    then have "2 * length s5 + 1 < n" using that by (auto dest!: snext_length vl)
    then show "scan_elems (n + k) s5 = scan_elems n s5" by (rule e)
  qed
  ultimately show ?case by blast
qed simp

lemma scan_value_fuel: "2 * length s < n \<Longrightarrow> 2 * length s < m \<Longrightarrow> scan_value n s = scan_value m s"
  using scan_fuel_enough [of "2 * length s + 1"] by (metis Suc_eq_plus1 Suc_leI le_add_diff_inverse lessI)

lemma scan_members_fuel: "2 * length s < n \<Longrightarrow> 2 * length s < m \<Longrightarrow> scan_members n s = scan_members m s"
  using scan_fuel_enough [of "2 * length s + 1"] by (metis Suc_eq_plus1 Suc_leI le_add_diff_inverse lessI)

lemma scan_elems_fuel: "2 * length s + 1 < n \<Longrightarrow> 2 * length s + 1 < m \<Longrightarrow> scan_elems n s = scan_elems m s"
  using scan_fuel_enough [of "2 * length s + 2"]
  by (metis Suc_leI add_2_eq_Suc' add.commute le_add_diff_inverse lessI plus_1_eq_Suc)

lemma json_text_append:
  assumes "json_text v" "ends_num t" "2 * length v < n"
  shows "scan_value n (v @ t) = Got () t"
proof -
  have "scan_value n v = Got () []"
    using assms(1,3) scan_value_fuel [of v n "scan_fuel v"] by (simp add: json_text_def scan_fuel_def)
  then show ?thesis using scan_append [of n] assms(2) by fastforce
qed

lemma json_text_head:
  assumes "json_text v"
  obtains c s where "v = c # s" "json_head c \<noteq> HBad" "\<not> json_space c"
proof -
  from assms obtain c s where v: "v = c # s" "json_head c \<noteq> HBad"
    by (cases v) (auto simp: json_text_def scan_fuel_def scan_value.simps(2) split: jhead.splits)
  then have "\<not> json_space c" by (auto simp: json_space_def json_head_def json_digit_def)
  with v that show ?thesis by blast
qed

lemma skip_json_text: "json_text v \<Longrightarrow> skip (v @ t) = v @ t"
  by (erule json_text_head) (simp add: skip_def)

lemma json_text_not_Nil [simp]: "\<not> json_text []"
  using json_text_head by blast

lemma skip_Cons [simp]: "\<not> json_space c \<Longrightarrow> skip (c # s) = c # s"
  by (simp add: skip_def)

lemma snext_Cons [simp]: "\<not> json_space c \<Longrightarrow> snext (c # s) = Got c s"
  by (simp add: snext_def)

lemma not_space [simp]: "\<not> json_space (CHR 0x22)" "\<not> json_space (CHR ''{'')" "\<not> json_space (CHR ''}'')"
  "\<not> json_space (CHR ''['')" "\<not> json_space (CHR '']'')" "\<not> json_space (CHR '','')" "\<not> json_space (CHR '':'')"
  by (simp_all add: json_space_def)

lemma ends_num_Cons [simp]: "ends_num []" "ends_num (CHR '','' # t)" "ends_num (CHR ''}'' # t)" "ends_num (CHR '']'' # t)"
  "ends_num (CHR 0x0A # t)"
  by (simp_all add: ends_num_def)

section \<open>Writing objects\<close>

fun members_text :: "(string \<times> string) list \<Rightarrow> string" where
  "members_text [] = []"
| "members_text [(k, v)] = [CHR 0x22] @ k @ [CHR 0x22, CHR '':''] @ v"
| "members_text ((k, v) # ms) = [CHR 0x22] @ k @ [CHR 0x22, CHR '':''] @ v @ [CHR '',''] @ members_text ms"

definition object_text :: "(string \<times> string) list \<Rightarrow> string" where
  "object_text ms = ''{'' @ members_text ms @ ''}''"

definition key_text :: "string \<Rightarrow> bool" where
  "key_text k \<longleftrightarrow> scan_str 0 (k @ [CHR 0x22]) = Got k []"

lemma key_text_append: "key_text k \<Longrightarrow> scan_str 0 (k @ CHR 0x22 # t) = Got k t"
  using scan_str_append [of 0 "k @ [CHR 0x22]" k "[]" t] by (simp add: key_text_def)

definition members_ok :: "(string \<times> string) list \<Rightarrow> bool" where
  "members_ok ms \<longleftrightarrow> list_all (\<lambda>(k, v). key_text k \<and> json_text v) ms"

lemma scan_members_text:
  "ms \<noteq> [] \<Longrightarrow> members_ok ms \<Longrightarrow> 2 * length (members_text ms) < n \<Longrightarrow>
   scan_members n (members_text ms @ CHR ''}'' # t) = Got ms t"
proof (induction ms arbitrary: n rule: members_text.induct)
  case (2 k v)
  then have kv: "key_text k" "json_text v" by (simp_all add: members_ok_def)
  from 2 obtain m where n: "n = Suc m" "2 * length v < m" by (cases n) auto
  have *: "scan_value m (v @ CHR ''}'' # t) = Got () (CHR ''}'' # t)"
    using kv n by (simp add: json_text_append)
  show ?case
    using * by (simp add: n scan_members.simps(2) key_text_append kv skip_json_text taken_def)
next
  case (3 k v m ms)
  then have kv: "key_text k" "json_text v" "members_ok (m # ms)" by (simp_all add: members_ok_def)
  let ?r = "members_text (m # ms) @ CHR ''}'' # t"
  from 3 obtain l where n: "n = Suc l" "2 * length v < l" "2 * length (members_text (m # ms)) < l"
    by (cases n) auto
  have *: "scan_value l (v @ CHR '','' # ?r) = Got () (CHR '','' # ?r)"
    using kv n by (intro json_text_append) auto
  have IH: "scan_members l ?r = Got (m # ms) t" using 3 kv n by simp
  show ?case using * IH
    by (simp add: n scan_members.simps(2) key_text_append kv skip_json_text taken_def)
qed simp

lemma members_text_head: "ms \<noteq> [] \<Longrightarrow> \<exists>s. members_text ms = CHR 0x22 # s"
  by (induction ms rule: members_text.induct) auto

lemma object_text_json [simp, intro]: "members_ok ms \<Longrightarrow> json_text (object_text ms)"
proof (cases "ms = []")
  case False
  assume ok: "members_ok ms"
  obtain s where s: "members_text ms = CHR 0x22 # s" using members_text_head [OF False] by blast
  have "scan_members (2 * length (object_text ms) + 1) (members_text ms @ ''}'') = Got ms []"
    using scan_members_text [OF False ok, of _ "[]"] by (simp add: object_text_def)
  then show ?thesis
    by (simp add: json_text_def scan_fuel_def scan_value.simps(2) object_text_def json_head_def s)
qed (simp add: json_text_def scan_fuel_def scan_value.simps(2) object_text_def json_head_def eval_nat_numeral)

lemma object_members_text:
  assumes "members_ok ms"
  shows "object_members (object_text ms @ t) = Some ms"
proof (cases "ms = []")
  case False
  obtain s where s: "members_text ms = CHR 0x22 # s" using members_text_head [OF False] by blast
  have "scan_members (scan_fuel (members_text ms @ CHR ''}'' # t)) (members_text ms @ CHR ''}'' # t) = Got ms t"
    using scan_members_text [OF False assms] by (simp add: scan_fuel_def)
  then show ?thesis by (simp add: object_members_def object_text_def s)
qed (simp add: object_members_def object_text_def)

lemma checkValid_json_text: "json_text v \<Longrightarrow> checkValid v = None"
  using skip_json_text [of v "[]"] by (simp add: checkValid_def json_text_def skip_def)

section \<open>Strings come back\<close>

text \<open>Texts after which the scanner is inside the string again.\<close>

definition str_part :: "string \<Rightarrow> bool" where
  "str_part p \<longleftrightarrow> (\<forall>k s t. scan_str 0 s = Got k t \<longrightarrow> scan_str 0 (p @ s) = Got (p @ k) t)"

lemma str_part_Nil [simp]: "str_part []"
  by (simp add: str_part_def)

lemma str_part_append: "str_part p \<Longrightarrow> str_part q \<Longrightarrow> str_part (p @ q)"
  by (simp add: str_part_def)

lemma str_part_key: "str_part k \<Longrightarrow> key_text k"
  by (simp add: str_part_def key_text_def)

lemma str_part_char:
  assumes "(32 :: nat) \<le> of_char c" "c \<noteq> CHR 0x22" "c \<noteq> CHR 0x5C"
  shows "str_part [c]"
  using assms by (simp add: str_part_def str_next_def scons_def)

lemma str_part_high: "(\<And>c. c \<in> set p \<Longrightarrow> (0x80 :: nat) \<le> of_char c) \<Longrightarrow> str_part p"
proof (induction p)
  case (Cons c p)
  then have "str_part [c]" by (intro str_part_char) force+
  then show ?case using Cons str_part_append [of "[c]" p] by simp
qed simp

lemma hex_char_digit: "n < 16 \<Longrightarrow> hex_digit (hex_char n) = Some n"
  by (auto simp: hex_char_def hex_digit_def Let_def)

lemma str_part_u:
  assumes "hex_digit a \<noteq> None" "hex_digit b \<noteq> None" "hex_digit c \<noteq> None" "hex_digit d \<noteq> None"
  shows "str_part [CHR 0x5C, CHR ''u'', a, b, c, d]"
  using assms by (auto simp: str_part_def str_next_def scons_def)

lemma str_next_backslash [simp]: "str_next 0 (CHR 0x5C) = Some 1"
  by (simp add: str_next_def)

lemma str_part_esc:
  assumes "str_next 1 c = Some 0"
  shows "str_part [CHR 0x5C, c]"
  using assms by (simp add: str_part_def scons_def)

lemma str_next_esc [simp]: "str_next (Suc 0) (CHR ''n'') = Some 0" "str_next (Suc 0) (CHR ''r'') = Some 0"
  "str_next (Suc 0) (CHR ''t'') = Some 0" "str_next (Suc 0) (CHR 0x5C) = Some 0" "str_next (Suc 0) (CHR 0x22) = Some 0"
  by (simp_all add: str_next_def)

lemma hex_digit_0 [simp]: "hex_digit (CHR ''0'') = Some 0" "hex_digit (CHR ''2'') = Some 2" "hex_digit (CHR ''f'') = Some 15"
  "hex_digit (CHR ''d'') = Some 13"
  by (simp_all add: hex_digit_def)

lemma str_part_ascii: "(of_char c :: nat) < 0x80 \<Longrightarrow> str_part (quote_ascii c)"
  unfolding quote_ascii_def
  by (simp add: str_part_esc str_part_u hex_char_digit) (auto simp: html_safe_def intro!: str_part_char str_part_esc str_part_u)

text \<open>The text that stands for one rune.\<close>

definition quote_rune :: "nat \<Rightarrow> string" where
  "quote_rune r = (if r < 0x80 then quote_ascii (char_of r)
     else if r = 0x2028 \<or> r = 0x2029 then CHR 0x5C # ''u202'' @ [hex_char (r mod 16)] else chars (EncodeRune r))"

lemma EncodeRune_ascii: "r < 0x80 \<Longrightarrow> EncodeRune r = [of_nat r]"
  by (simp add: EncodeRune_def valid_rune_def)

lemma EncodeRune_high:
  assumes "valid_rune r" "0x80 \<le> r"
  shows "2 \<le> length (EncodeRune r) \<and> (\<forall>b \<in> set (EncodeRune r). 0x80 \<le> unat b)"
proof -
  have *: "0x80 \<le> unat (of_nat (a + m) :: byte)" if "0x80 \<le> a" "a + m < 256" for a m
    using that unat_byte [of "a + m"] by simp
  from assms have "r \<le> 0x10ffff" by (auto simp: valid_rune_def)
  then show ?thesis using assms
    by (auto simp: EncodeRune_def Let_def simp del: of_nat_add of_nat_numeral intro!: *)
qed

lemma quote_body_simps [simp]: "quote_body [] = []" "unquote [] = []"
  by (simp_all add: quote_body.simps unquote.simps)

lemma chars_high:
  assumes "valid_rune r" "0x80 \<le> r"
  obtains c t where "chars (EncodeRune r) = c # t" "\<not> (of_char c :: nat) < 0x80" "c \<noteq> CHR 0x5C"
proof -
  obtain b bs where b: "EncodeRune r = b # bs" using EncodeRune_not_Nil by (meson neq_Nil_conv)
  have u: "0x80 \<le> unat b" using EncodeRune_high [OF assms] b by simp
  have "of_char (char_of (unat b)) = unat b" using unat_byte_less [of b] by simp
  then have "\<not> (of_char (char_of (unat b)) :: nat) < 0x80" using u by simp
  moreover from this have "char_of (unat b) \<noteq> CHR 0x5C" by force
  ultimately show ?thesis using that [of "char_of (unat b)" "chars bs"] b by simp
qed

lemma DecodeRune_chars: "valid_rune r \<Longrightarrow> DecodeRune (EncodeRune r @ str s) = (r, length (EncodeRune r))"
  by (rule DecodeRune_Encode)

lemma quote_body_rune:
  assumes "valid_rune r"
  shows "quote_body (chars (EncodeRune r) @ s) = quote_rune r @ quote_body s"
proof (cases "r < 0x80")
  case True
  then have u: "unat (of_nat r :: byte) = r" by (simp add: unat_byte)
  have c: "(of_char (char_of r :: char) :: nat) = r" using True by simp
  show ?thesis using True
    by (simp add: EncodeRune_ascii quote_body.simps [of "_ # _"] quote_rune_def u c del: of_char_of)
next
  case False
  then obtain c t where c: "chars (EncodeRune r) = c # t" "\<not> (of_char c :: nat) < 0x80"
    using assms by (auto elim: chars_high)
  have l: "length (EncodeRune r) = Suc (length t)" using c(1) by (metis chars_simps(4) length_Cons)
  have "DecodeRune (str (c # t @ s)) = (r, Suc (length t))"
    using DecodeRune_chars [OF assms, of s] c(1) l by (metis append_Cons str_chars str_simps(3))
  moreover have "Suc (length t) \<noteq> 1" using EncodeRune_high [OF assms] False l by auto
  ultimately show ?thesis using c False
    by (simp add: quote_body.simps [of "c # _"] quote_rune_def del: str_simps)
qed

lemma unquote_u:
  assumes "hex_digit a \<noteq> None" "hex_digit b \<noteq> None" "hex_digit c \<noteq> None" "hex_digit d \<noteq> None"
    and "hex_val [a, b, c, d] = r" "r < 0xd800"
  shows "unquote (CHR 0x5C # CHR ''u'' # a # b # c # d # s) = chars (EncodeRune r) @ unquote s"
  using assms by (simp add: unquote.simps [of "_ # _"] u4_def)

lemma unquote_ascii:
  assumes "(of_char c :: nat) < 0x80"
  shows "unquote (quote_ascii c @ s) = c # unquote s"
proof -
  let ?n = "of_char c :: nat"
  have h: "hex_val [CHR ''0'', CHR ''0'', hex_char (?n div 16), hex_char (?n mod 16)] = ?n"
    using assms by (simp add: hex_val_def hex_char_digit)
  have e: "chars (EncodeRune ?n) = [c]" using assms by (simp add: EncodeRune_ascii unat_byte)
  have u: "unquote ([CHR 0x5C, CHR ''u'', CHR ''0'', CHR ''0'', hex_char (?n div 16), hex_char (?n mod 16)] @ s) = c # unquote s"
    using unquote_u [OF _ _ _ _ h] assms by (simp add: hex_char_digit e)
  show ?thesis
  proof (cases "html_safe c")
    case True
    then show ?thesis using assms by (simp add: quote_ascii_def unquote.simps [of "_ # _"] html_safe_def)
  next
    case False
    then show ?thesis unfolding quote_ascii_def using u
      by (simp add: unquote.simps [of "CHR 0x5C # CHR 0x5C # _"] unquote.simps [of "CHR 0x5C # CHR 0x22 # _"]
          unquote.simps [of "CHR 0x5C # CHR ''n'' # _"] unquote.simps [of "CHR 0x5C # CHR ''r'' # _"]
          unquote.simps [of "CHR 0x5C # CHR ''t'' # _"] unescape_def)
  qed
qed

lemma unquote_rune:
  assumes "valid_rune r"
  shows "unquote (quote_rune r @ s) = chars (EncodeRune r) @ unquote s"
proof (cases "r < 0x80")
  case True
  then show ?thesis using unquote_ascii [of "char_of r" s] by (simp add: quote_rune_def EncodeRune_ascii unat_byte)
next
  case False
  show ?thesis
  proof (cases "r = 0x2028 \<or> r = 0x2029")
    case True
    then have "hex_val [CHR ''2'', CHR ''0'', CHR ''2'', hex_char (r mod 16)] = r" "r < 0xd800"
      by (auto simp: hex_val_def hex_char_digit)
    from unquote_u [OF _ _ _ _ this] show ?thesis using True by (auto simp: quote_rune_def hex_char_digit)
  next
    case no: False
    obtain c t where c: "chars (EncodeRune r) = c # t" "\<not> (of_char c :: nat) < 0x80" "c \<noteq> CHR 0x5C"
      using assms False by (auto elim: chars_high)
    have l: "length (EncodeRune r) = Suc (length t)" using c(1) by (metis chars_simps(4) length_Cons)
    have "DecodeRune (str (c # t @ s)) = (r, Suc (length t))"
      using DecodeRune_chars [OF assms, of s] c(1) l by (metis append_Cons str_chars str_simps(3))
    then show ?thesis using c False no
      by (simp add: unquote.simps [of "c # _"] quote_rune_def del: str_simps)
  qed
qed

lemma str_part_rune:
  assumes "valid_rune r"
  shows "str_part (quote_rune r)"
proof -
  have "str_part (chars (EncodeRune r))" if "\<not> r < 0x80"
  proof (rule str_part_high)
    fix c assume "c \<in> set (chars (EncodeRune r))"
    then obtain b where "b \<in> set (EncodeRune r)" "c = char_of (unat b)" by (auto simp: chars_def)
    then show "(0x80 :: nat) \<le> of_char c"
      using EncodeRune_high [OF assms] that unat_byte_less [of b] by auto
  qed
  then show ?thesis
    by (auto simp: quote_rune_def hex_char_digit intro!: str_part_ascii str_part_u)
qed

text \<open>The strings that are well-formed UTF-8.\<close>

definition utf8_text :: "string \<Rightarrow> bool" where
  "utf8_text s \<longleftrightarrow> chars (utf8 (runes_of (str s))) = s"

lemma quote_runes:
  assumes "\<And>r. r \<in> set rs \<Longrightarrow> valid_rune r"
  shows "quote_body (chars (utf8 rs)) = concat (map quote_rune rs)"
    "unquote (concat (map quote_rune rs)) = chars (utf8 rs)" "str_part (concat (map quote_rune rs))"
  using assms by (induction rs) (simp_all add: quote_body_rune unquote_rune str_part_rune str_part_append)

lemma utf8_textE:
  assumes "utf8_text s"
  obtains rs where "\<And>r. r \<in> set rs \<Longrightarrow> valid_rune r" "s = chars (utf8 rs)"
  using that [of "runes_of (str s)"] assms runes_of_valid by (auto simp: utf8_text_def)

lemma unquote_quote: "utf8_text s \<Longrightarrow> unquote (quote_body s) = s"
  by (erule utf8_textE) (simp add: quote_runes)

lemma quote_key_text: "utf8_text s \<Longrightarrow> key_text (quote_body s)"
  by (erule utf8_textE) (simp add: quote_runes str_part_key)

lemma ascii_utf8_text: "(\<And>c. c \<in> set s \<Longrightarrow> (of_char c :: nat) < 0x80) \<Longrightarrow> utf8_text s"
proof (induction s)
  case (Cons c s)
  then have c: "(of_char c :: nat) < 0x80" by simp
  then have "str (c # s) = EncodeRune (of_char c) @ str s" by (simp only: EncodeRune_ascii of_nat_of_char str_simps append.simps)
  moreover have "valid_rune (of_char c)" using c by (simp add: valid_rune_def)
  ultimately have "runes_of (str (c # s)) = of_char c # runes_of (str s)"
    by (simp only: runes_of.simps [of "EncodeRune _ @ _"]) (simp add: DecodeRune_Encode)
  then show ?case using Cons c by (simp add: utf8_text_def EncodeRune_ascii unat_byte)
qed (simp add: utf8_text_def)

lemma quote_json_text: "utf8_text s \<Longrightarrow> json_text (quote s)"
  using key_text_append [OF quote_key_text, of s "[]"]
  by (simp add: json_text_def scan_fuel_def scan_value.simps(2) quote_def json_head_def)

section \<open>Numbers\<close>

lemma json_digit_val: "json_digit c \<longleftrightarrow> digit_val c \<noteq> None"
  by (simp add: json_digit_def digit_val_def Let_def)

lemma scan_num_digits: "(\<And>c. c \<in> set s \<Longrightarrow> json_digit c) \<Longrightarrow> scan_num N1 s = Got () []"
  by (induction s) (simp_all add: num_final_def)

lemma nat_str_hd0: "0 < n \<Longrightarrow> hd (nat_str n) \<noteq> CHR ''0''"
proof (induction n rule: nat_str.induct)
  case (1 n)
  have d: "char_of (48 + k :: nat) \<noteq> CHR ''0''" if "k < 10" "0 < k" for k
  proof
    assume "char_of (48 + k :: nat) = CHR ''0''"
    then have "digit_val (char_of (48 + k :: nat)) = Some 0" by (simp add: digit_val_def)
    then show False using that by (simp add: digit_val_char)
  qed
  show ?case using 1 d by (cases "n < 10") (simp_all add: nat_str.simps [of n] hd_append)
qed

lemma json_head_digit:
  assumes "json_digit c"
  shows "json_head c = HNumber (if c = CHR ''0'' then N0 else N1)"
proof -
  let ?k = "of_char c - 48 :: nat"
  have k: "?k \<in> set [0..<10]" "c = char_of (48 + ?k)" using assms by (auto simp: json_digit_def)
  have "\<forall>k \<in> set [0..<10]. json_head (char_of (48 + k :: nat)) =
      HNumber (if char_of (48 + k :: nat) = CHR ''0'' then N0 else N1)" by code_simp
  then show ?thesis using k by metis
qed

lemma nat_str_json_text: "json_text (nat_str n)"
proof (cases "n = 0")
  case True
  then have "nat_str n = ''0''" by (simp only: nat_str.simps [of 0]) code_simp
  then show ?thesis
    by (simp add: json_text_def scan_fuel_def scan_value.simps(2) json_head_def num_final_def eval_nat_numeral)
next
  case False
  obtain c s where c: "nat_str n = c # s" using nat_str_not_Nil by (meson neq_Nil_conv)
  have d: "\<And>d. d \<in> set (c # s) \<Longrightarrow> json_digit d"
    using nat_str_digit [of _ n] by (simp add: c json_digit_val)
  have "c \<noteq> CHR ''0''" using nat_str_hd0 [of n] False c by simp
  then show ?thesis using d
    by (simp add: c json_text_def scan_fuel_def scan_value.simps(2) json_head_digit scan_num_digits)
qed

lemma itoa_json_text: "0 \<le> i \<Longrightarrow> json_text (itoa i)"
  by (simp add: itoa_def nat_str_json_text)

end
