(* ===== verification/Codec_Message.thy ===== *)
theory Codec_Message
  imports Go_Prelude
begin

text \<open>
  The package \<^verbatim>\<open>codec\<close>: the message that a codec reads and writes (\<^verbatim>\<open>codec/codec.go\<close>) and the
  enumerations of transports and codecs (\<^verbatim>\<open>codec/const.go\<close>). Both enumerations are Go integers, so
  every number is a value of the type and only the named ones have a name.
\<close>

section \<open>Messages\<close>

abbreviation (input) Error :: int64 where "Error \<equiv> 0x01"
abbreviation (input) Request :: int64 where "Request \<equiv> 0x02"
abbreviation (input) Response :: int64 where "Response \<equiv> 0x04"
abbreviation (input) Heartbeat :: int64 where "Heartbeat \<equiv> 0x08"

record Message =
  m_ID :: int64
  m_Version :: "byte list"
  m_Type :: int64
  m_ServicePath :: "byte list"
  m_Target :: "byte list"
  m_Method :: "byte list"
  m_Timeout :: int
  m_Error :: "byte list"
  m_Header :: "byte list \<rightharpoonup> byte list"
  m_BodyLen :: int

definition Message0 :: Message where
  "Message0 = \<lparr>m_ID = 0, m_Version = [], m_Type = 0, m_ServicePath = [], m_Target = [], m_Method = [],
     m_Timeout = 0, m_Error = [], m_Header = Map.empty, m_BodyLen = 0\<rparr>"

section \<open>Transports and codecs\<close>

text \<open>
  The name of a number: \<^verbatim>\<open>t.String()\<close> is the entry of the table strictly between the two sentinels.
  \<open>type_of\<close> is the loop of \<^verbatim>\<open>GetTransportType\<close> and \<^verbatim>\<open>GetCodecType\<close> over the indices in between.
\<close>

definition transportTypeStrings :: "string list" where
  "transportTypeStrings = [[], ''TCP'', ''HTTP'', []]"

definition codecTypeStrings :: "string list" where
  "codecTypeStrings = [[], ''jsonrpc'', ''dubbo'', []]"

abbreviation (input) TRANSPORT_TCP :: int where "TRANSPORT_TCP \<equiv> 1"
abbreviation (input) TRANSPORT_HTTP :: int where "TRANSPORT_HTTP \<equiv> 2"
abbreviation (input) TRANSPORTTYPE_UNKNOWN :: int where "TRANSPORTTYPE_UNKNOWN \<equiv> 3"
abbreviation (input) CODECTYPE_JSONRPC :: int where "CODECTYPE_JSONRPC \<equiv> 1"
abbreviation (input) CODECTYPE_DUBBO :: int where "CODECTYPE_DUBBO \<equiv> 2"
abbreviation (input) CODECTYPE_UNKNOWN :: int where "CODECTYPE_UNKNOWN \<equiv> 3"

definition TransportType_String :: "int \<Rightarrow> string" where
  "TransportType_String t = (if 0 < t \<and> t < TRANSPORTTYPE_UNKNOWN then transportTypeStrings ! nat t else [])"

definition CodecType_String :: "int \<Rightarrow> string" where
  "CodecType_String c = (if 0 < c \<and> c < CODECTYPE_UNKNOWN then codecTypeStrings ! nat c else [])"

fun first_index :: "string list \<Rightarrow> string \<Rightarrow> nat list \<Rightarrow> int \<Rightarrow> int" where
  "first_index tab t [] d = d"
| "first_index tab t (i # is) d = (if tab ! i = t then int i else first_index tab t is d)"

definition GetTransportType :: "string \<Rightarrow> int" where
  "GetTransportType t = first_index transportTypeStrings t [1..<3] TRANSPORTTYPE_UNKNOWN"

definition GetCodecType :: "string \<Rightarrow> int" where
  "GetCodecType t = first_index codecTypeStrings t [1..<3] CODECTYPE_UNKNOWN"

lemma upt_1_3 [simp]: "[Suc 0..<3] = [1, 2]"
  by (simp add: upt_rec)

lemmas codec_names = GetCodecType_def CodecType_String_def codecTypeStrings_def
  GetTransportType_def TransportType_String_def transportTypeStrings_def

lemma CodecType_String_cases:
  "CodecType_String c = (if c = 1 then ''jsonrpc'' else if c = 2 then ''dubbo'' else [])"
proof -
  have "c = 1 \<or> c = 2" if "0 < c" "c < 3" using that by arith
  then show ?thesis by (auto simp: codec_names)
qed

text \<open>
  The names of the codecs and the numbers of the codecs are inverse to each other: a number with
  a name is found again under its name, a name that is found is the name of that number, and
  every other name gives the unknown codec, which has no name.
\<close>

theorem codec_type_names:
  "(CodecType_String c \<noteq> [] \<longrightarrow> GetCodecType (CodecType_String c) = c) \<and>
   (GetCodecType s \<noteq> CODECTYPE_UNKNOWN \<longrightarrow> CodecType_String (GetCodecType s) = s) \<and>
   CodecType_String CODECTYPE_UNKNOWN = []"
  by (auto simp: CodecType_String_cases) (simp_all add: codec_names split: if_splits)

theorem codec_type_names_witness:
  "GetCodecType (CodecType_String CODECTYPE_DUBBO) = CODECTYPE_DUBBO \<and>
   CodecType_String (GetCodecType ''jsonrpc'') = ''jsonrpc''"
  using codec_type_names [of CODECTYPE_DUBBO "''jsonrpc''"] by (simp add: codec_names)

end
