(* ===== verification/Jsonrpc_Error.thy ===== *)
theory Jsonrpc_Error
  imports Go_Json Go_Reflect Codec_Message
begin

text \<open>
  The errors of the JSON-RPC codec, \<^verbatim>\<open>codec/jsonrpc/errors.go\<close>, with the decoding of a Go struct from the
  members of an object, which the errors, the requests and the responses share. The message of an
  error that \<^verbatim>\<open>encoding/json\<close> reports is shortened to its fixed part.
\<close>

section \<open>Decoding structs\<close>

text \<open>
  Keys are compared with the names of the fields without regard to case, where the long s and the
  Kelvin sign count as the letters s and k.
\<close>

fun json_fold :: "string \<Rightarrow> string" where
  "json_fold [] = []"
| "json_fold (c # s) =
     (if c = CHR 0xC5 \<and> s \<noteq> [] \<and> hd s = CHR 0xBF then CHR ''s'' # json_fold (tl s)
      else if c = CHR 0xE2 \<and> 2 \<le> length s \<and> s ! 0 = CHR 0x84 \<and> s ! 1 = CHR 0xAA then CHR ''k'' # json_fold (tl (tl s))
      else (if (65 :: nat) \<le> of_char c \<and> (of_char c :: nat) \<le> 90 then char_of (of_char c + 32 :: nat) else c) # json_fold s)"

definition is_null :: "string \<Rightarrow> bool" where
  "is_null raw \<longleftrightarrow> raw \<noteq> [] \<and> hd raw = CHR ''n''"

text \<open>A value stored into a string or an integer: null changes nothing, another kind of value is an error.\<close>

definition set_string :: "string \<Rightarrow> string \<Rightarrow> string \<times> bool" where
  "set_string raw old = (if is_null raw then (old, False)
     else if raw \<noteq> [] \<and> hd raw = CHR 0x22 then (unquote (butlast (tl raw)), False) else (old, True))"

definition set_int :: "string \<Rightarrow> int \<Rightarrow> int \<times> bool" where
  "set_int raw old = (if is_null raw then (old, False) else (case Atoi raw of None \<Rightarrow> (old, True) | Some i \<Rightarrow> (i, False)))"

text \<open>
  The members in their order; \<open>st\<close> stores the value of one member and tells whether it has the wrong type.
  A wrong type does not end the decoding.
\<close>

fun set_members :: "(string \<Rightarrow> string \<Rightarrow> 'r \<Rightarrow> 'r \<times> bool) \<Rightarrow> (string \<times> string) list \<Rightarrow> 'r \<Rightarrow> 'r \<times> bool" where
  "set_members st [] r = (r, False)"
| "set_members st ((k, v) # ms) r = (case st (unquote k) v r of (r, b) \<Rightarrow>
     (case set_members st ms r of (r, b') \<Rightarrow> (r, b \<or> b')))"

definition decode_struct :: "(string \<Rightarrow> string \<Rightarrow> 'r \<Rightarrow> 'r \<times> bool) \<Rightarrow> string \<Rightarrow> 'r \<Rightarrow> 'r \<times> bool" where
  "decode_struct st raw r = (if is_null (skip raw) then (r, False)
     else (case object_members raw of None \<Rightarrow> (r, True) | Some ms \<Rightarrow> set_members st ms r))"

definition errUnmarshal :: goerr where
  "errUnmarshal = Errorf ''json: cannot unmarshal''"

section \<open>Error objects\<close>

text \<open>
  \<^verbatim>\<open>Error\<close>. Its data is nil, another error, a value that was decoded from a text, or a value that
  \<^verbatim>\<open>json.Marshal\<close> refuses with a message.
\<close>

datatype jerror = JError (er_Code: int) (er_Message: string) (er_Data: jdata)
  and jdata = DNil | DError jerror | DText string | DBad string

definition jNewError :: "int \<Rightarrow> string \<Rightarrow> jerror" where
  "jNewError code message = JError code message DNil"

definition errParse :: jerror where "errParse = jNewError (- 32700) ''Parse error''"
definition errRequest :: jerror where "errRequest = jNewError (- 32600) ''Invalid request''"
definition errMethod :: jerror where "errMethod = jNewError (- 32601) ''Method not found''"
definition errParams :: jerror where "errParams = jNewError (- 32602) ''Invalid params''"
definition errInternal :: jerror where "errInternal = jNewError (- 32603) ''Internal error''"
definition errServer :: jerror where "errServer = jNewError (- 32000) ''Server error''"
definition errServerError :: jerror where "errServerError = jNewError (- 32001) ''jsonrpc2.Error: json.Marshal failed''"

lemmas error_codes = errParse_def errRequest_def errMethod_def errParams_def errInternal_def errServer_def
  errServerError_def jNewError_def

definition newError :: "string \<Rightarrow> jerror" where
  "newError message =
     (if HasPrefix message ''rpc: service/method request ill-formed'' then jNewError (er_Code errMethod) message
      else if HasPrefix message ''rpc: can't find service'' then jNewError (er_Code errMethod) message
      else if HasPrefix message ''rpc: can't find method'' then jNewError (er_Code errMethod) message
      else jNewError (er_Code errServer) message)"

text \<open>
  \<^verbatim>\<open>json.Marshal(e)\<close>; the member for nil data is left out. \<open>norm\<close> is what \<^verbatim>\<open>Marshal\<close> writes for the value
  that a text was decoded to.
\<close>

fun marshal_error :: "(string \<Rightarrow> string) \<Rightarrow> jerror \<Rightarrow> string outcome" where
  "marshal_error norm (JError code message data) =
     (let ms = [(''code'', itoa code), (''message'', quote message)] in
      case data of
        DNil \<Rightarrow> Ok (object_text ms)
      | DText t \<Rightarrow> Ok (object_text (ms @ [(''data'', norm t)]))
      | DError e \<Rightarrow> (case marshal_error norm e of Ok t \<Rightarrow> Ok (object_text (ms @ [(''data'', t)])) | res \<Rightarrow> res)
      | DBad m \<Rightarrow> Err (Errorf m))"

text \<open>\<^verbatim>\<open>Error()\<close> of an error object and of the errors of the other packages.\<close>

fun Error_Error :: "(string \<Rightarrow> string) \<Rightarrow> jerror \<Rightarrow> string" where
  "Error_Error norm e = (case marshal_error norm e of
     Ok t \<Rightarrow> t
   | Err (Errorf m) \<Rightarrow> ''{'' @ [CHR 0x22] @ ''code'' @ [CHR 0x22, CHR '':''] @ itoa (er_Code errServerError)
       @ [CHR '','', CHR 0x22] @ ''message'' @ [CHR 0x22, CHR '':''] @ quote m @ ''}''
   | _ \<Rightarrow> [])"

fun err_text :: "goerr \<Rightarrow> string" where
  "err_text EOF = ''EOF''"
| "err_text ErrUnexpectedEOF = ''unexpected EOF''"
| "err_text ErrBufferFull = ''bufio: buffer full''"
| "err_text ErrNotEnoughBuf = ''not enough buf''"
| "err_text ErrIllegalRefIndex = ''illegal ref index''"
| "err_text ErrBodyNotEnough = ''body buffer too short''"
| "err_text ErrJavaException = ''got java exception''"
| "err_text ErrIllegalPackage = ''illegal package!''"
| "err_text ErrNodeExists = ''zk: node already exists''"
| "err_text ErrNoNode = ''zk: node does not exist''"
| "err_text (CommonError i c d s) =
     object_text [(''id'', quote i), (''code'', itoa c), (''detail'', quote d), (''status'', quote s)]"
| "err_text (JsonError c m) = Error_Error id (jNewError c m)"
| "err_text (Errorf m) = m"
| "err_text (Wrapped m e) = (if m = [] then err_text e else m @ '': '' @ err_text e)"

text \<open>An error object as a Go error; the ones the codec returns have no data.\<close>

definition as_error :: "jerror \<Rightarrow> goerr" where
  "as_error e = JsonError (er_Code e) (er_Message e)"

text \<open>Decoding an error object.\<close>

definition set_Error :: "string \<Rightarrow> string \<Rightarrow> jerror \<Rightarrow> jerror \<times> bool" where
  "set_Error k v e = (case e of JError code message data \<Rightarrow>
     if json_fold k = ''code'' then (case set_int v code of (code, b) \<Rightarrow> (JError code message data, b))
     else if json_fold k = ''message'' then (case set_string v message of (message, b) \<Rightarrow> (JError code message data, b))
     else if json_fold k = ''data'' then (JError code message (if is_null v then DNil else DText v), False)
     else (e, False))"

definition decode_Error :: "string \<Rightarrow> jerror outcome" where
  "decode_Error t = (case checkValid t of Some e \<Rightarrow> Err e
   | None \<Rightarrow> (case decode_struct set_Error t (JError 0 [] DNil) of (e, b) \<Rightarrow> if b then Err errUnmarshal else Ok e))"

text \<open>
  \<^verbatim>\<open>ServerError\<close>. The error is nil, an error object or another error with its text. A text that is no
  error object is a panic.
\<close>

datatype rpcerr = RNil | RError jerror | ROther string

definition str_index :: "char \<Rightarrow> string \<Rightarrow> nat option" where
  "str_index c s = (if c \<in> set s then Some (length (takeWhile (\<lambda>d. d \<noteq> c) s)) else None)"

definition ServerError :: "rpcerr \<Rightarrow> jerror option outcome" where
  "ServerError rpcerr = (case rpcerr of
     RNil \<Rightarrow> Ok None
   | RError err \<Rightarrow>
       (case er_Data err of
          DError err2 \<Rightarrow> if er_Code err = er_Code errInternal then Ok (Some err2) else Ok (Some err)
        | _ \<Rightarrow> Ok (Some err))
   | ROther errmsg \<Rightarrow>
       (let cut = HasPrefix errmsg ''reading '' \<and> CHR ''{'' \<in> set errmsg \<and> errmsg \<noteq> [] \<and> last errmsg = CHR ''}'';
            errmsg = (case str_index (CHR ''{'') errmsg of Some s \<Rightarrow> if cut then drop s errmsg else errmsg | None \<Rightarrow> errmsg)
        in case decode_Error errmsg of
             Ok e \<Rightarrow>
               if er_Code e = er_Code errInternal \<and> er_Data e \<noteq> DNil \<and> cut
               then Ok (Some (JError (er_Code e) (er_Message e) DNil)) else Ok (Some e)
           | Err _ \<Rightarrow> Panic | Panic \<Rightarrow> Panic | NoFuel \<Rightarrow> NoFuel))"

section \<open>The reader and the writer\<close>

text \<open>
  A \<^verbatim>\<open>json.Decoder\<close>: the text that has not been decoded yet, as far as it has been read ahead or is in the
  reader, and the error that ended decoding, which is returned ever after. \<^verbatim>\<open>Decode(&raw)\<close> gives the text
  of the next value.
\<close>

record jdecoder =
  jd_in :: string
  jd_err :: "goerr option"

definition jd_fail :: "goerr \<Rightarrow> jdecoder \<Rightarrow> 'a outcome \<times> jdecoder" where
  "jd_fail e d = (Err e, d\<lparr>jd_err := Some e\<rparr>)"

definition Decode_raw :: "jdecoder \<Rightarrow> string outcome \<times> jdecoder" where
  "Decode_raw d = (case jd_err d of Some e \<Rightarrow> (Err e, d)
   | None \<Rightarrow>
       (let s = skip (jd_in d) in
        if s = [] then jd_fail EOF d
        else (case scan_value (scan_fuel s) s of
          Got _ r \<Rightarrow> (Ok (taken s r), d\<lparr>jd_in := r\<rparr>)
        | Short \<Rightarrow> jd_fail ErrUnexpectedEOF d
        | Bad \<Rightarrow> jd_fail (Errorf ''invalid character'') d)))"

lemma Decode_raw_text:
  assumes "jd_err d = None" "jd_in d = v @ t" "json_text v" "ends_num t"
  shows "Decode_raw d = (Ok v, d\<lparr>jd_in := t\<rparr>)"
proof -
  have "scan_value (scan_fuel (v @ t)) (v @ t) = Got () t"
    using json_text_append [OF assms(3,4)] by (simp add: scan_fuel_def)
  moreover have "v \<noteq> []" using assms(3) by auto
  ultimately show ?thesis using assms by (simp add: Decode_raw_def skip_json_text taken_def Let_def)
qed

end
