(* ===== verification/Jsonrpc_Client.thy ===== *)
theory Jsonrpc_Client
  imports Jsonrpc_Error
begin

text \<open>
  The client side of the JSON-RPC codec, \<^verbatim>\<open>codec/jsonrpc/client.go\<close>: writing a request and reading the
  header and the body of a response. Strings of a message are bytes, those of the codec characters. The
  buffer that the codec writes to takes every byte.
\<close>

unbundle bit_operations_syntax

section \<open>Data\<close>

abbreviation (input) MAX_JSONRPC_ID :: int64 where "MAX_JSONRPC_ID \<equiv> 0x7FFFFFFF"

definition VERSION :: string where
  "VERSION = ''2.0''"

text \<open>
  An argument of a call: its type, whether it or the value it points to is a nil map or slice (there is
  nothing it points to if it is a nil pointer), and what \<^verbatim>\<open>json.Marshal\<close> makes of it.
\<close>

record goarg =
  ga_Type :: rtype
  ga_IsNil :: bool
  ga_ElemIsNil :: "bool option"
  ga_Marshal :: "string outcome"

record clientRequest =
  cr_Version :: string
  cr_Method :: string
  cr_Params :: "goarg option"
  cr_ID :: int64

record clientResponse =
  cp_Version :: string
  cp_ID :: int
  cp_Result :: "string option"
  cp_Error :: "jerror option"

definition resp_reset :: "clientResponse \<Rightarrow> clientResponse" where
  "resp_reset r = \<lparr>cp_Version = [], cp_ID = 0, cp_Result = None, cp_Error = None\<rparr>"

record clientCodec =
  cc_dec :: jdecoder
  cc_out :: string
  cc_req :: clientRequest
  cc_resp :: clientResponse
  cc_pending :: "int64 \<rightharpoonup> string"

definition newClientCodec :: "string \<Rightarrow> clientCodec" where
  "newClientCodec conn = \<lparr>cc_dec = \<lparr>jd_in = conn, jd_err = None\<rparr>, cc_out = [],
     cc_req = \<lparr>cr_Version = [], cr_Method = [], cr_Params = None, cr_ID = 0\<rparr>,
     cc_resp = \<lparr>cp_Version = [], cp_ID = 0, cp_Result = None, cp_Error = None\<rparr>, cc_pending = Map.empty\<rparr>"

section \<open>Requests\<close>

text \<open>The check of the argument: what is sent, an error, or the panic of \<^verbatim>\<open>IsNil\<close> on what a nil pointer points to.\<close>

definition string_keys :: "rtype \<Rightarrow> bool" where
  "string_keys t = (case rt_Key t of Some k \<Rightarrow> rt_Kind k = KString | None \<Rightarrow> False)"

definition elem_param :: "goarg \<Rightarrow> goarg option outcome" where
  "elem_param p = (case ga_ElemIsNil p of None \<Rightarrow> Panic | Some b \<Rightarrow> Ok (if b then None else Some p))"

definition check_param :: "goarg option \<Rightarrow> goarg option outcome" where
  "check_param param = (case param of None \<Rightarrow> Ok None
   | Some p \<Rightarrow>
       (let t = ga_Type p; k = rt_Kind t in
        if k = KMap then Ok (if string_keys t \<and> ga_IsNil p then None else Some p)
        else if k = KSlice then Ok (if ga_IsNil p then None else Some p)
        else if k = KArray \<or> k = KStruct then Ok (Some p)
        else if k = KPtr then
          (case rt_Elem t of None \<Rightarrow> Panic
           | Some u \<Rightarrow>
               (let k = rt_Kind u in
                if k = KMap then (if string_keys u then elem_param p else Ok (Some p))
                else if k = KSlice then elem_param p
                else if k = KArray \<or> k = KStruct then Ok (Some p)
                else Err (as_error (jNewError (er_Code errInternal) (''unsupported param type: Ptr to '' @ kind_String k)))))
        else Err (as_error (jNewError (er_Code errInternal) (''unsupported param type: '' @ kind_String k)))))"

text \<open>\<^verbatim>\<open>enc.Encode(&c.req)\<close>: the members in the order of the fields and a newline. Nil parameters are written as null.\<close>

definition request_text :: "string \<Rightarrow> string \<Rightarrow> string \<Rightarrow> int64 \<Rightarrow> string" where
  "request_text version method params i = object_text [(''jsonrpc'', quote version), (''method'', quote method),
     (''params'', params), (''id'', itoa (sint i))]"

definition encode_request :: "clientRequest \<Rightarrow> string outcome" where
  "encode_request r = (case (case cr_Params r of None \<Rightarrow> Ok ''null'' | Some p \<Rightarrow> ga_Marshal p) of
     Ok params \<Rightarrow> Ok (request_text (cr_Version r) (cr_Method r) params (cr_ID r) @ [CHR 0x0A])
   | res \<Rightarrow> res)"

definition cc_Write :: "Message \<Rightarrow> goarg option \<Rightarrow> clientCodec \<Rightarrow> unit outcome \<times> clientCodec" where
  "cc_Write m param c = (case check_param param of
     Err e \<Rightarrow> (Err e, c) | Panic \<Rightarrow> (Panic, c) | NoFuel \<Rightarrow> (NoFuel, c)
   | Ok param \<Rightarrow>
       (let req = \<lparr>cr_Version = VERSION, cr_Method = chars (m_Method m), cr_Params = param,
                   cr_ID = m_ID m AND MAX_JSONRPC_ID\<rparr>;
            c = c\<lparr>cc_req := req, cc_pending := (cc_pending c)(cr_ID req \<mapsto> chars (m_Method m))\<rparr>
        in case encode_request req of
             Ok t \<Rightarrow> (Ok (), c\<lparr>cc_out := cc_out c @ t\<rparr>)
           | Err e \<Rightarrow> (Err e, c) | Panic \<Rightarrow> (Panic, c) | NoFuel \<Rightarrow> (NoFuel, c)))"

section \<open>Responses\<close>

definition set_resp :: "string \<Rightarrow> string \<Rightarrow> clientResponse \<Rightarrow> clientResponse \<times> bool" where
  "set_resp k v r =
     (if json_fold k = ''jsonrpc'' then (case set_string v (cp_Version r) of (s, b) \<Rightarrow> (r\<lparr>cp_Version := s\<rparr>, b))
      else if json_fold k = ''id'' then (case set_int v (cp_ID r) of (i, b) \<Rightarrow> (r\<lparr>cp_ID := i\<rparr>, b))
      else if json_fold k = ''result'' then (r\<lparr>cp_Result := if is_null v then None else Some v\<rparr>, False)
      else if json_fold k = ''error'' then
        (if is_null v then (r\<lparr>cp_Error := None\<rparr>, False)
         else (case decode_struct set_Error v (case cp_Error r of None \<Rightarrow> JError 0 [] DNil | Some e \<Rightarrow> e) of
           (e, b) \<Rightarrow> (r\<lparr>cp_Error := Some e\<rparr>, b)))
      else (r, False))"

definition cc_ReadHeader :: "(string \<Rightarrow> string) \<Rightarrow> Message \<Rightarrow> clientCodec \<Rightarrow> unit outcome \<times> Message \<times> clientCodec" where
  "cc_ReadHeader norm m c = (let c = c\<lparr>cc_resp := resp_reset (cc_resp c)\<rparr> in
     case Decode_raw (cc_dec c) of
       (Ok raw, d) \<Rightarrow>
         (case decode_struct set_resp raw (cc_resp c) of (resp, bad) \<Rightarrow>
           (let c = c\<lparr>cc_dec := d, cc_resp := resp\<rparr> in
            if bad then (Err (as_error (jNewError (er_Code errInternal) (err_text errUnmarshal))), m, c)
            else (let rid = word_of_int (cp_ID resp) in
              case cc_pending c rid of
                None \<Rightarrow> (Err (Errorf ''can not find method of response id %v, response error:%v''), m\<lparr>m_Method := []\<rparr>, c)
              | Some method \<Rightarrow>
                  (Ok (), m\<lparr>m_Method := str method, m_ID := rid,
                     m_Error := str (case cp_Error resp of None \<Rightarrow> [] | Some e \<Rightarrow> Error_Error norm e)\<rparr>,
                   c\<lparr>cc_pending := (cc_pending c)(rid := None)\<rparr>))))
     | (Err e, d) \<Rightarrow>
         (Err (if e = EOF then EOF else as_error (jNewError (er_Code errInternal) (err_text e))), m, c\<lparr>cc_dec := d\<rparr>)
     | (Panic, d) \<Rightarrow> (Panic, m, c) | (NoFuel, d) \<Rightarrow> (NoFuel, m, c))"

text \<open>\<^verbatim>\<open>ReadBody\<close>. \<open>U\<close> is \<^verbatim>\<open>json.Unmarshal\<close> into the value the caller gives.\<close>

definition cc_ReadBody :: "(string \<Rightarrow> 'x \<Rightarrow> goerr option \<times> 'x) \<Rightarrow> 'x option \<Rightarrow> clientCodec \<Rightarrow> goerr option \<times> 'x option" where
  "cc_ReadBody U x c = (case (x, cp_Result (cc_resp c)) of
     (Some x, Some raw) \<Rightarrow> (case U raw x of (e, x) \<Rightarrow> (e, Some x))
   | _ \<Rightarrow> (None, x))"

section \<open>The numbers of requests\<close>

text \<open>The number of a request on the wire is between 0 and \<^verbatim>\<open>MAX_JSONRPC_ID\<close>.\<close>

lemma masked_id: "0 \<le> sint (i AND MAX_JSONRPC_ID)" "sint (i AND MAX_JSONRPC_ID) \<le> 0x7FFFFFFF"
proof -
  have "i AND MAX_JSONRPC_ID = take_bit 31 i" by (simp add: take_bit_eq_mask mask_eq_exp_minus_1)
  then have u: "uint (i AND MAX_JSONRPC_ID) < 2 ^ 31"
    by (simp only: unsigned_take_bit_eq take_bit_int_less_exp)
  have "sint (word_of_int (uint (i AND MAX_JSONRPC_ID)) :: int64) = uint (i AND MAX_JSONRPC_ID)"
    by (rule sint_word_of_int_small) (use u in \<open>auto intro: order_trans [OF _ uint_ge_0]\<close>)
  then have "sint (i AND MAX_JSONRPC_ID) = uint (i AND MAX_JSONRPC_ID)" by simp
  with u show "0 \<le> sint (i AND MAX_JSONRPC_ID)" "sint (i AND MAX_JSONRPC_ID) \<le> 0x7FFFFFFF" by simp_all
qed

end
