(* ===== verification/Jsonrpc_Server.thy ===== *)
theory Jsonrpc_Server
  imports Jsonrpc_Error
begin

text \<open>
  The server side of the JSON-RPC codec, \<^verbatim>\<open>codec/jsonrpc/server.go\<close>. Raw messages are shared by pointer:
  a request holds pointers to the raw texts of its parameters and its id, the table of pending requests
  keeps the pointer of the id, and the package variable \<^verbatim>\<open>null\<close> is a raw message too. They live in a store, in
  which number 0 is \<^verbatim>\<open>null\<close>; a new codec is made in the store of the process.
\<close>

section \<open>Data\<close>

record serverRequest =
  sr_Version :: string
  sr_Method :: string
  sr_Params :: "nat option"
  sr_ID :: "nat option"

record serverCodec =
  sv_dec :: jdecoder
  sv_out :: string
  sv_req :: serverRequest
  sv_seq :: int64
  sv_pending :: "int64 \<rightharpoonup> nat option"
  sv_raw :: "string list"

abbreviation (input) null_ptr :: nat where "null_ptr \<equiv> 0"

definition raw0 :: "string list" where
  "raw0 = [''null'']"

definition Version :: string where
  "Version = ''2.0''"

definition newServerCodec :: "string \<Rightarrow> string list \<Rightarrow> serverCodec" where
  "newServerCodec conn h = \<lparr>sv_dec = \<lparr>jd_in = conn, jd_err = None\<rparr>, sv_out = [],
     sv_req = \<lparr>sr_Version = [], sr_Method = [], sr_Params = None, sr_ID = None\<rparr>,
     sv_seq = 0, sv_pending = Map.empty, sv_raw = h\<rparr>"

section \<open>Requests\<close>

text \<open>\<^verbatim>\<open>reset\<close> empties the raw messages that the request points to and keeps the pointers.\<close>

definition clear :: "nat option \<Rightarrow> string list \<Rightarrow> string list" where
  "clear p h = (case p of None \<Rightarrow> h | Some p \<Rightarrow> h[p := []])"

definition req_reset :: "serverRequest \<Rightarrow> string list \<Rightarrow> serverRequest \<times> string list" where
  "req_reset r h = (r\<lparr>sr_Version := [], sr_Method := []\<rparr>, clear (sr_ID r) (clear (sr_Params r) h))"

text \<open>A value stored through a pointer to a raw message: null makes it nil, a nil pointer gets a new message.\<close>

definition set_raw :: "string \<Rightarrow> nat option \<Rightarrow> string list \<Rightarrow> nat option \<times> string list" where
  "set_raw v p h = (if is_null v then (None, h)
     else (case p of None \<Rightarrow> (Some (length h), h @ [v]) | Some p \<Rightarrow> (Some p, h[p := v])))"

definition set_req :: "string \<Rightarrow> string \<Rightarrow> serverRequest \<times> string list \<Rightarrow> (serverRequest \<times> string list) \<times> bool" where
  "set_req k v rh = (case rh of (r, h) \<Rightarrow>
     if json_fold k = ''jsonrpc'' then (case set_string v (sr_Version r) of (s, b) \<Rightarrow> ((r\<lparr>sr_Version := s\<rparr>, h), b))
     else if json_fold k = ''method'' then (case set_string v (sr_Method r) of (s, b) \<Rightarrow> ((r\<lparr>sr_Method := s\<rparr>, h), b))
     else if json_fold k = ''params'' then (case set_raw v (sr_Params r) h of (p, h) \<Rightarrow> ((r\<lparr>sr_Params := p\<rparr>, h), False))
     else if json_fold k = ''id'' then (case set_raw v (sr_ID r) h of (p, h) \<Rightarrow> ((r\<lparr>sr_ID := p\<rparr>, h), False))
     else (rh, False))"

text \<open>The map of the members: which keys there are, and which of them have a value that is not null.\<close>

definition members_map :: "(string \<times> string) list \<Rightarrow> string \<rightharpoonup> string" where
  "members_map ms = map_of (rev (map (\<lambda>(k, v). (unquote k, v)) ms))"

definition members_num :: "(string \<times> string) list \<Rightarrow> nat" where
  "members_num ms = length (remdups (map (\<lambda>(k, v). unquote k) ms))"

definition has_value :: "(string \<rightharpoonup> string) \<Rightarrow> string \<Rightarrow> bool" where
  "has_value m k = (case m k of None \<Rightarrow> False | Some v \<Rightarrow> \<not> is_null v)"

text \<open>The checks of \<^verbatim>\<open>UnmarshalJSON\<close> after the two decodings, in their order.\<close>

definition bad_request :: goerr where
  "bad_request = Errorf ''bad request''"

definition bad_params :: "nat option \<Rightarrow> string list \<Rightarrow> bool" where
  "bad_params p h = (case p of None \<Rightarrow> True
   | Some p \<Rightarrow> h ! p = [] \<or> hd (h ! p) \<noteq> CHR ''['' \<and> hd (h ! p) \<noteq> CHR ''{'')"

definition bad_id :: "nat \<Rightarrow> string list \<Rightarrow> bool" where
  "bad_id p h \<longleftrightarrow> h ! p = [] \<or> hd (h ! p) \<in> set [CHR ''t'', CHR ''f'', CHR ''{'', CHR ''[''] "

definition UnmarshalJSON :: "string \<Rightarrow> serverRequest \<times> string list \<Rightarrow> goerr option \<times> serverRequest \<times> string list" where
  "UnmarshalJSON raw rh = (case decode_struct set_req raw (case rh of (r, h) \<Rightarrow> req_reset r h) of ((r, h), bad) \<Rightarrow>
     if bad then (Some bad_request, r, h)
     else (case object_members raw of
       None \<Rightarrow> (Some bad_request, r, h)
     | Some ms \<Rightarrow>
         (let om = members_map ms; n = members_num ms; okID = (om ''id'' \<noteq> None); okParams = (om ''params'' \<noteq> None) in
          if \<not> has_value om ''jsonrpc'' \<or> \<not> has_value om ''method'' then (Some bad_request, r, h)
          else if n = 3 \<and> \<not> (okID \<or> okParams) \<or> n = 4 \<and> \<not> (okID \<and> okParams) \<or> n > 4 then (Some bad_request, r, h)
          else if sr_Version r \<noteq> Version then (Some bad_request, r, h)
          else if okParams \<and> bad_params (sr_Params r) h then (Some bad_request, r, h)
          else (let r = (if okID \<and> sr_ID r = None then r\<lparr>sr_ID := Some null_ptr\<rparr> else r) in
            if okID \<and> bad_id (case sr_ID r of None \<Rightarrow> null_ptr | Some p \<Rightarrow> p) h then (Some bad_request, r, h)
            else (None, r, h)))))"

section \<open>Responses\<close>

text \<open>\<^verbatim>\<open>enc.Encode\<close> of a response: the first member that cannot be written is the error; nothing is written then.\<close>

definition add_member :: "string \<Rightarrow> string outcome \<Rightarrow> (string \<times> string) list outcome \<Rightarrow> (string \<times> string) list outcome" where
  "add_member k v ms = (case ms of Ok ms \<Rightarrow>
     (case v of Ok t \<Rightarrow> Ok (ms @ [(k, t)]) | Err e \<Rightarrow> Err e | Panic \<Rightarrow> Panic | NoFuel \<Rightarrow> NoFuel) | _ \<Rightarrow> ms)"

definition add_opt :: "string \<Rightarrow> string outcome option \<Rightarrow> (string \<times> string) list outcome \<Rightarrow> (string \<times> string) list outcome" where
  "add_opt k v ms = (case v of None \<Rightarrow> ms | Some v \<Rightarrow> add_member k v ms)"

definition encode_response ::
  "string list \<Rightarrow> nat option \<Rightarrow> string outcome option \<Rightarrow> string outcome option \<Rightarrow> string outcome" where
  "encode_response h rid result error =
     (case add_opt ''error'' error (add_opt ''result'' result
         (add_member ''id'' (case rid of None \<Rightarrow> Ok ''null'' | Some p \<Rightarrow> marshal_raw (h ! p))
           (Ok [(''jsonrpc'', quote Version)]))) of
       Ok ms \<Rightarrow> Ok (object_text ms @ [CHR 0x0A]) | Err e \<Rightarrow> Err e | Panic \<Rightarrow> Panic | NoFuel \<Rightarrow> NoFuel)"

definition sv_send :: "string outcome \<Rightarrow> serverCodec \<Rightarrow> serverCodec" where
  "sv_send t c = (case t of Ok t \<Rightarrow> c\<lparr>sv_out := sv_out c @ t\<rparr> | _ \<Rightarrow> c)"

text \<open>The reply to a request that could not be read; its outcome is ignored.\<close>

definition send_error :: "jerror \<Rightarrow> serverCodec \<Rightarrow> serverCodec" where
  "send_error e c = sv_send (encode_response (sv_raw c) (Some null_ptr) None (Some (marshal_error id e))) c"

definition header_get :: "(byte list \<rightharpoonup> byte list) \<Rightarrow> string \<Rightarrow> byte list" where
  "header_get h k = (case h (str k) of None \<Rightarrow> [] | Some v \<Rightarrow> v)"

definition sv_ReadHeader :: "Message \<Rightarrow> serverCodec \<Rightarrow> unit outcome \<times> Message \<times> serverCodec" where
  "sv_ReadHeader m c =
     (case req_reset (sv_req c) (sv_raw c) of (r, h) \<Rightarrow>
      (let c = c\<lparr>sv_req := r, sv_raw := h\<rparr> in
       case Decode_raw (sv_dec c) of
         (Ok raw, d) \<Rightarrow>
           (case UnmarshalJSON raw (r, h) of (err, r, h) \<Rightarrow>
             (let c = c\<lparr>sv_dec := d, sv_req := r, sv_raw := h\<rparr> in
              case err of
                Some e \<Rightarrow> (Err e, m, if err_text e = ''bad request'' then send_error errRequest c else c)
              | None \<Rightarrow>
                  (let m = m\<lparr>m_Method := str (sr_Method r), m_Target := header_get (m_Header m) ''Path''\<rparr> in
                   if header_get (m_Header m) ''HttpMethod'' \<noteq> str ''POST'' then (Err (as_error errMethod), m, c)
                   else (let seq = sv_seq c + 1 in
                     (Ok (), m\<lparr>m_ID := seq\<rparr>,
                      c\<lparr>sv_seq := seq, sv_pending := (sv_pending c)(seq \<mapsto> sr_ID r), sv_req := r\<lparr>sr_ID := None\<rparr>\<rparr>)))))
       | (Err e, d) \<Rightarrow> (Err e, m, send_error errParse (c\<lparr>sv_dec := d\<rparr>))
       | (Panic, d) \<Rightarrow> (Panic, m, c) | (NoFuel, d) \<Rightarrow> (NoFuel, m, c)))"

text \<open>
  \<^verbatim>\<open>ReadBody\<close>. \<open>U\<close> is \<^verbatim>\<open>json.Unmarshal\<close> into the argument. Parameters that are an array and do not fit the argument
  are decoded into an array that holds the argument: its first element goes there, unless it is null.
\<close>

definition unmarshal_first :: "(string \<Rightarrow> 'x \<Rightarrow> goerr option \<times> 'x) \<Rightarrow> string \<Rightarrow> 'x \<Rightarrow> goerr option \<times> 'x" where
  "unmarshal_first U raw x = (case array_elems raw of
     None \<Rightarrow> (Some errUnmarshal, x)
   | Some [] \<Rightarrow> (None, x)
   | Some (v # _) \<Rightarrow> if is_null v then (None, x) else U v x)"

definition sv_ReadBody ::
  "(string \<Rightarrow> 'x \<Rightarrow> goerr option \<times> 'x) \<Rightarrow> 'x option \<Rightarrow> serverCodec \<Rightarrow> goerr option \<times> 'x option" where
  "sv_ReadBody U x c = (case (x, sr_Params (sv_req c)) of
     (Some x, Some p) \<Rightarrow>
       (let params = sv_raw c ! p in
        case (case checkValid params of Some e \<Rightarrow> (Some e, x) | None \<Rightarrow> U params x) of
          (None, x) \<Rightarrow> (None, Some x)
        | (Some e, x) \<Rightarrow>
            if 2 < length params \<and> hd params = CHR ''['' \<and> last params = CHR '']'' then
              (case unmarshal_first U params x of
                 (None, x) \<Rightarrow> (None, Some x)
               | (Some e, x) \<Rightarrow> (Some (as_error (jNewError (er_Code errParams) (err_text e))), Some x))
            else (Some (as_error (jNewError (er_Code errParams) (err_text e))), Some x))
   | _ \<Rightarrow> (None, x))"

text \<open>\<^verbatim>\<open>Write\<close>. The result is nil or a value of which it is known what \<^verbatim>\<open>json.Marshal\<close> makes of it.\<close>

definition sv_Write :: "Message \<Rightarrow> string outcome option \<Rightarrow> serverCodec \<Rightarrow> unit outcome \<times> serverCodec" where
  "sv_Write m x c = (case sv_pending c (m_ID m) of
     None \<Rightarrow> (Err (Errorf ''invalid sequence number in response''), c)
   | Some b \<Rightarrow>
       (let c = c\<lparr>sv_pending := (sv_pending c)(m_ID m := None)\<rparr>; error = chars (m_Error m) in
        if b = None then (Ok (), c)
        else
          (let result = (if error = [] then Some (case x of None \<Rightarrow> marshal_raw (sv_raw c ! null_ptr) | Some t \<Rightarrow> t) else x);
               err = (if error = [] then None
                      else if hd error = CHR ''{'' \<and> last error = CHR ''}'' then Some (marshal_raw error)
                      else Some (marshal_raw (Error_Error id (newError error))));
               t = encode_response (sv_raw c) b result err
           in ((case t of Ok _ \<Rightarrow> Ok () | Err e \<Rightarrow> Err e | Panic \<Rightarrow> Panic | NoFuel \<Rightarrow> NoFuel), sv_send t c))))"

section \<open>Facts on decoding a request\<close>

lemma members_map_simps [simp]:
  "members_map [] = Map.empty"
  "members_map ((k, v) # ms) x = (case members_map ms x of None \<Rightarrow> if x = unquote k then Some v else None | Some w \<Rightarrow> Some w)"
  by (auto simp: members_map_def map_add_def split: option.splits)

lemma dom_members_map: "dom (members_map ms) = unquote ` fst ` set ms"
  by (force simp: members_map_def dom_map_of_conv_image_fst)

definition names :: "string list" where
  "names = [''jsonrpc'', ''method'', ''params'', ''id'']"

lemma json_fold_names [simp]: "json_fold ''jsonrpc'' = ''jsonrpc''" "json_fold ''method'' = ''method''"
  "json_fold ''params'' = ''params''" "json_fold ''id'' = ''id''"
  by code_simp+

text \<open>The pointers of a request are in the store and do not share a raw message.\<close>

definition req_ptrs :: "serverRequest \<Rightarrow> string list \<Rightarrow> bool" where
  "req_ptrs r h \<longleftrightarrow> (\<forall>p. sr_Params r = Some p \<or> sr_ID r = Some p \<longrightarrow> 0 < p \<and> p < length h) \<and>
     (sr_Params r \<noteq> None \<longrightarrow> sr_Params r \<noteq> sr_ID r)"

text \<open>The raw messages that the request does not point to are kept.\<close>

definition others_kept :: "serverRequest \<Rightarrow> string list \<Rightarrow> string list \<Rightarrow> bool" where
  "others_kept r h h' \<longleftrightarrow> length h \<le> length h' \<and>
     (\<forall>p < length h. sr_Params r \<noteq> Some p \<longrightarrow> sr_ID r \<noteq> Some p \<longrightarrow> h' ! p = h ! p)"

lemma set_req_ptrs:
  assumes "req_ptrs r h" "set_req k v (r, h) = ((r', h'), b)" "h \<noteq> []"
  shows "req_ptrs r' h' \<and> others_kept r h h' \<and>
    (\<forall>p. sr_Params r' = Some p \<or> sr_ID r' = Some p \<longrightarrow> sr_Params r = Some p \<or> sr_ID r = Some p \<or> length h \<le> p)"
  using assms
  by (auto simp: set_req_def set_raw_def req_ptrs_def others_kept_def nth_append split: if_splits prod.splits option.splits)

lemma set_members_ptrs:
  assumes "req_ptrs r h" "set_members set_req ms (r, h) = ((r', h'), b)" "h \<noteq> []"
  shows "req_ptrs r' h' \<and> others_kept r h h' \<and>
    (\<forall>p. sr_Params r' = Some p \<or> sr_ID r' = Some p \<longrightarrow> sr_Params r = Some p \<or> sr_ID r = Some p \<or> length h \<le> p)"
  using assms
proof (induction ms arbitrary: r h b)
  case (Cons m ms)
  obtain k v where m: "m = (k, v)" by (cases m)
  obtain r1 h1 b1 where 1: "set_req (unquote k) v (r, h) = ((r1, h1), b1)" by (metis surj_pair)
  obtain b2 where 2: "set_members set_req ms (r1, h1) = ((r', h'), b2)"
    using Cons.prems(2) by (auto simp: m 1 split: prod.splits)
  note p1 = set_req_ptrs [OF Cons.prems(1) 1 Cons.prems(3)]
  then have "h1 \<noteq> []" using Cons.prems(3) by (auto simp: others_kept_def)
  note p2 = Cons.IH [OF _ 2 this]
  show ?case
    using p1 p2 by (auto simp: others_kept_def) (metis order_less_le_trans linorder_not_le)+
qed (auto simp: others_kept_def)

text \<open>What the members of an object leave in a request, if their keys are distinct names of fields.\<close>

definition raw_at :: "string option \<Rightarrow> nat option \<Rightarrow> string list \<Rightarrow> nat option \<Rightarrow> string list \<Rightarrow> bool" where
  "raw_at vo p h p' h' = (case vo of None \<Rightarrow> p' = p \<and> (\<forall>q. p = Some q \<longrightarrow> h' ! q = h ! q)
   | Some v \<Rightarrow> if is_null v then p' = None else \<exists>q. p' = Some q \<and> h' ! q = v)"

definition wrong_string :: "string \<Rightarrow> bool" where
  "wrong_string v = snd (set_string v [])"

lemma set_string_snd: "snd (set_string v s) = wrong_string v"
  by (simp add: set_string_def wrong_string_def)

definition set_or :: "string \<Rightarrow> string option \<Rightarrow> string" where
  "set_or s vo = (case vo of None \<Rightarrow> s | Some v \<Rightarrow> fst (set_string v s))"

definition fields_set ::
  "(string \<rightharpoonup> string) \<Rightarrow> serverRequest \<Rightarrow> string list \<Rightarrow> serverRequest \<Rightarrow> string list \<Rightarrow> bool \<Rightarrow> bool" where
  "fields_set om r h r' h' b \<longleftrightarrow> sr_Version r' = set_or (sr_Version r) (om ''jsonrpc'') \<and>
     sr_Method r' = set_or (sr_Method r) (om ''method'') \<and>
     raw_at (om ''params'') (sr_Params r) h (sr_Params r') h' \<and> raw_at (om ''id'') (sr_ID r) h (sr_ID r') h' \<and>
     (b \<longleftrightarrow> (\<exists>v. (om ''jsonrpc'' = Some v \<or> om ''method'' = Some v) \<and> wrong_string v))"

lemma set_req_fields:
  assumes "req_ptrs r h" "set_req k v (r, h) = ((r', h'), b)" "k \<in> set names"
  shows "fields_set [k \<mapsto> v] r h r' h' b"
proof -
  have s: "set_string v s = (fst (set_string v s), wrong_string v)" for s
    using set_string_snd [of v s] by (cases "set_string v s") simp
  consider "k = ''jsonrpc''" | "k = ''method''" | "k = ''params''" | "k = ''id''"
    using assms(3) by (auto simp: names_def)
  then show ?thesis
    using assms(1,2)
    by cases (subst (asm) set_req_def; subst (asm) s; auto simp: fields_set_def set_or_def raw_at_def set_raw_def
        req_ptrs_def nth_append split: if_splits option.splits)+
qed

lemma fields_set_trans:
  assumes "fields_set [k \<mapsto> v] r h r1 h1 b1" "fields_set om r1 h1 r' h' b2" "om k = None"
  shows "fields_set (om(k \<mapsto> v)) r h r' h' (b1 \<or> b2)"
  using assms unfolding fields_set_def set_or_def raw_at_def
  by (cases "k = ''jsonrpc''"; cases "k = ''method''"; cases "k = ''params''"; cases "k = ''id''")
    (auto split: option.splits if_splits)

lemma set_members_fields:
  assumes "req_ptrs r h" "set_members set_req ms (r, h) = ((r', h'), b)" "h \<noteq> []"
    and "distinct (map (unquote \<circ> fst) ms)" "unquote ` fst ` set ms \<subseteq> set names"
  shows "fields_set (members_map ms) r h r' h' b"
  using assms
proof (induction ms arbitrary: r h b)
  case (Cons m ms)
  obtain k v where m: "m = (k, v)" by (cases m)
  obtain r1 h1 b1 where 1: "set_req (unquote k) v (r, h) = ((r1, h1), b1)" by (metis surj_pair)
  obtain b2 where 2: "set_members set_req ms (r1, h1) = ((r', h'), b2)" and b: "b = (b1 \<or> b2)"
    using Cons.prems(2) by (auto simp: m 1 split: prod.splits)
  note p1 = set_req_ptrs [OF Cons.prems(1) 1 Cons.prems(3)]
  then have h1: "h1 \<noteq> []" using Cons.prems(3) by (auto simp: others_kept_def)
  have d: "distinct (map (unquote \<circ> fst) ms)" "unquote ` fst ` set ms \<subseteq> set names" "unquote k \<in> set names"
    and k: "unquote k \<notin> dom (members_map ms)"
    using Cons.prems(4,5) by (auto simp: m dom_members_map image_image comp_def)
  have "fields_set (members_map ms) r1 h1 r' h' b2"
    using p1 by (intro Cons.IH [OF _ 2 h1 d(1,2)]) simp
  with set_req_fields [OF Cons.prems(1) 1 d(3)] k
  have "fields_set ((members_map ms)(unquote k \<mapsto> v)) r h r' h' b" by (auto simp: b intro: fields_set_trans)
  moreover have "members_map ((k, v) # ms) = (members_map ms)(unquote k \<mapsto> v)"
    using k by (auto split: option.splits)
  ultimately show ?case by (simp only: m)
qed (auto simp: fields_set_def raw_at_def set_or_def)

section \<open>Which requests are accepted\<close>

lemma scan_members_values: "scan_members n s = Got ms u \<Longrightarrow> (k, v) \<in> set ms \<Longrightarrow> v \<noteq> []"
proof (induction n arbitrary: s ms u)
  case (Suc n)
  then obtain t x w where v: "scan_value n (skip t) = Got x w"
    and c: "(k, v) \<in> set ms \<longrightarrow> v = taken (skip t) w \<or> (\<exists>r ms' u. scan_members n r = Got ms' u \<and> (k, v) \<in> set ms')"
    by (clarsimp simp: scan_members.simps(2) sbind_Got split: if_splits) blast+
  have "taken (skip t) w \<noteq> []" using scan_value_length [OF v] by (auto simp: taken_def)
  then show ?case using c Suc.IH Suc.prems(2) by auto
qed simp

lemma object_members_values: "object_members raw = Some ms \<Longrightarrow> (k, v) \<in> set ms \<Longrightarrow> v \<noteq> []"
  by (auto simp: object_members_def dest: scan_members_values split: list.splits if_splits scan.splits)

lemma members_map_value: "object_members raw = Some ms \<Longrightarrow> members_map ms k = Some v \<Longrightarrow> v \<noteq> []"
  using object_members_values by (fastforce simp: members_map_def dest!: map_of_SomeD)

lemma object_not_null: "object_members raw = Some ms \<Longrightarrow> \<not> is_null (skip raw)"
  by (auto simp: object_members_def is_null_def split: list.splits if_splits)

text \<open>A request of JSON-RPC 2.0: its members are among the four, the version is 2.0, the method a string, the
  parameters an array or an object, and the id no boolean, array or object.\<close>

definition is_string :: "string \<Rightarrow> bool" where
  "is_string v \<longleftrightarrow> v \<noteq> [] \<and> hd v = CHR 0x22"

definition text_of :: "string \<Rightarrow> string" where
  "text_of v = unquote (butlast (tl v))"

definition request_spec :: "(string \<times> string) list \<Rightarrow> bool" where
  "request_spec ms \<longleftrightarrow> list_all (\<lambda>(k, v). unquote k \<in> set names) ms \<and>
     (case members_map ms ''jsonrpc'' of Some v \<Rightarrow> is_string v \<and> text_of v = Version | None \<Rightarrow> False) \<and>
     (case members_map ms ''method'' of Some v \<Rightarrow> is_string v | None \<Rightarrow> False) \<and>
     (case members_map ms ''params'' of Some v \<Rightarrow> hd v = CHR ''['' \<or> hd v = CHR ''{'' | None \<Rightarrow> True) \<and>
     (case members_map ms ''id'' of Some v \<Rightarrow> hd v \<notin> set [CHR ''t'', CHR ''f'', CHR ''{'', CHR ''[''] | None \<Rightarrow> True)"

text \<open>The count of the members is right exactly if there are no others.\<close>

lemma member_count:
  assumes "distinct (map (unquote \<circ> fst) ms)" "''jsonrpc'' \<in> dom (members_map ms)" "''method'' \<in> dom (members_map ms)"
  defines "n \<equiv> members_num ms" and "D \<equiv> dom (members_map ms)"
  shows "(n = 3 \<and> \<not> (''id'' \<in> D \<or> ''params'' \<in> D) \<or> n = 4 \<and> \<not> (''id'' \<in> D \<and> ''params'' \<in> D) \<or> n > 4) \<longleftrightarrow>
    \<not> D \<subseteq> set names"
proof -
  have D: "D = set (map (unquote \<circ> fst) ms)" by (simp add: D_def dom_members_map image_image)
  have "members_num ms = length (map (unquote \<circ> fst) ms)"
    using assms(1) by (simp add: members_num_def distinct_remdups_id case_prod_beta' comp_def)
  then have n: "n = card D" using assms(1) distinct_card unfolding n_def D by metis
  have fin: "finite D" by (simp add: D)
  have base: "{''jsonrpc'', ''method''} \<subseteq> D" using assms(2,3) by (simp add: D_def)
  have le: "card D \<le> 4" if "D \<subseteq> set names"
    using card_mono [OF _ that] by (simp add: names_def)
  have sub: "X \<subseteq> D \<Longrightarrow> card D = card X \<Longrightarrow> D = X" for X using card_subset_eq [OF fin, of X] by metis
  have lower: "2 \<le> card D" using card_mono [OF fin base] by simp
  show ?thesis
  proof (cases "D \<subseteq> set names")
    case True
    have in4: "x \<in> D \<longleftrightarrow> x = ''jsonrpc'' \<or> x = ''method'' \<or> x = ''id'' \<and> ''id'' \<in> D \<or> x = ''params'' \<and> ''params'' \<in> D" for x
      using True base by (auto simp: names_def)
    have *: "card D = 2 + (if ''id'' \<in> D then 1 else 0) + (if ''params'' \<in> D then 1 else 0)"
    proof -
      let ?E = "\<lambda>i p. set ([''jsonrpc'', ''method''] @ (if i then [''id''] else []) @ (if p then [''params''] else []))"
      have "D = ?E (''id'' \<in> D) (''params'' \<in> D)" by (intro set_eqI, subst in4) (simp split: if_splits)
      moreover have "card (?E i p) = 2 + (if i then 1 else 0) + (if p then 1 else 0)" for i p
        by (cases i; cases p) simp_all
      ultimately show ?thesis by metis
    qed
    show ?thesis using True le by (auto simp: n *)
  next
    case False
    have no: "card D \<noteq> card X" if "X \<subseteq> D" "X \<subseteq> set names" for X
      using sub [OF that(1)] that(2) False by metis
    have "card D \<noteq> 2" using no [OF base] by (simp add: names_def)
    moreover have "\<not> (''id'' \<in> D \<or> ''params'' \<in> D)" if "card D = 3"
    proof
      assume "''id'' \<in> D \<or> ''params'' \<in> D"
      then show False
        using no [of "{''jsonrpc'', ''method'', ''id''}"] no [of "{''jsonrpc'', ''method'', ''params''}"] base that
        by (simp add: names_def) blast
    qed
    moreover have "\<not> (''id'' \<in> D \<and> ''params'' \<in> D)" if "card D = 4"
      using no [of "{''jsonrpc'', ''method'', ''id'', ''params''}"] base that by (simp add: names_def) blast
    ultimately show ?thesis using False lower n by linarith
  qed
qed

lemma names_all: "list_all (\<lambda>(k, v). unquote k \<in> set names) ms \<longleftrightarrow> dom (members_map ms) \<subseteq> set names"
  by (force simp: list_all_iff dom_members_map)

lemma is_string_cases:
  "is_string v \<Longrightarrow> \<not> is_null v" "is_string v \<Longrightarrow> \<not> wrong_string v" "is_string v \<Longrightarrow> fst (set_string v s) = text_of v"
  "\<not> is_null v \<Longrightarrow> \<not> wrong_string v \<Longrightarrow> is_string v"
  by (auto simp: is_string_def is_null_def wrong_string_def set_string_def text_of_def split: if_splits)

text \<open>What \<^verbatim>\<open>UnmarshalJSON\<close> leaves after an accepted request.\<close>

definition request_read :: "(string \<times> string) list \<Rightarrow> serverRequest \<Rightarrow> string list \<Rightarrow> bool" where
  "request_read ms r h \<longleftrightarrow>
     (case members_map ms ''method'' of Some v \<Rightarrow> sr_Method r = text_of v | None \<Rightarrow> False) \<and>
     (case members_map ms ''params'' of Some v \<Rightarrow> \<exists>p. sr_Params r = Some p \<and> h ! p = v | None \<Rightarrow> True) \<and>
     (case members_map ms ''id'' of
        Some v \<Rightarrow> if is_null v then sr_ID r = Some null_ptr else \<exists>p. sr_ID r = Some p \<and> h ! p = v
      | None \<Rightarrow> True)"

lemma clear_simps [simp]: "length (clear p h) = length h" "clear p h = [] \<longleftrightarrow> h = []"
  by (simp_all add: clear_def split: option.splits)

lemma clear_nth: "p \<noteq> Some i \<Longrightarrow> clear p h ! i = h ! i"
  by (cases p) (simp_all add: clear_def nth_list_update_neq)

lemma req_reset_ptrs: "req_ptrs r h \<Longrightarrow> req_reset r h = (r0, h0) \<Longrightarrow> req_ptrs r0 h0"
  by (auto simp: req_reset_def req_ptrs_def)

lemma if_chain:
  "\<not> (\<not> a \<and> v = w \<and> \<not> c \<and> \<not> d) \<Longrightarrow>
   fst (if a then (x, y1) else if v \<noteq> w then (x, y2) else if c then (x, y3) else if d then (x, y4) else z) = x"
  by auto

lemma request_accepted_aux:
  assumes ms: "object_members raw = Some ms" and d: "distinct (map (unquote \<circ> fst) ms)"
    and r: "req_ptrs r h" "h \<noteq> []" "h ! null_ptr = ''null''"
  shows "(request_spec ms \<longrightarrow> (\<exists>r' h'. UnmarshalJSON raw (r, h) = (None, r', h') \<and> request_read ms r' h' \<and>
      (members_map ms ''params'' = None \<longrightarrow> sr_Params r' = sr_Params r \<and> (\<forall>p. sr_Params r = Some p \<longrightarrow> h' ! p = [])))) \<and>
    (\<not> request_spec ms \<longrightarrow> (\<exists>r' h'. UnmarshalJSON raw (r, h) = (Some bad_request, r', h')))"
proof -
  obtain r0 h0 where 0: "req_reset r h = (r0, h0)" by fastforce
  have p0: "req_ptrs r0 h0" "h0 \<noteq> []" using req_reset_ptrs [OF r(1) 0] r(2) 0 by (auto simp: req_reset_def)
  have null: "h0 ! null_ptr = ''null''"
  proof -
    have "sr_ID r \<noteq> Some null_ptr" "sr_Params r \<noteq> Some null_ptr" using r(1) by (auto simp: req_ptrs_def)
    then show ?thesis using r(3) 0 by (auto simp: req_reset_def clear_nth)
  qed
  obtain r1 h1 b where 1: "set_members set_req ms (r0, h0) = ((r1, h1), b)" by (metis surj_pair)
  have dec: "decode_struct set_req raw (r0, h0) = ((r1, h1), b)"
    by (simp add: decode_struct_def object_not_null [OF ms] ms 1)
  note kept = set_members_ptrs [OF p0(1) 1 p0(2)]
  have null1: "h1 ! null_ptr = ''null''" and ne: "h1 \<noteq> []"
    using kept null p0 by (auto simp: others_kept_def req_ptrs_def)
  let ?om = "members_map ms" and ?D = "dom (members_map ms)"
  show ?thesis
  proof (cases "has_value ?om ''jsonrpc'' \<and> has_value ?om ''method'' \<and> ?D \<subseteq> set names")
    case False
    have "\<not> request_spec ms"
      using False is_string_cases(1) unfolding request_spec_def names_all has_value_def by (auto split: option.splits)
    moreover have "\<exists>r' h'. UnmarshalJSON raw (r, h) = (Some bad_request, r', h')"
    proof (cases "has_value ?om ''jsonrpc'' \<and> has_value ?om ''method''")
      case True
      then have in2: "''jsonrpc'' \<in> ?D" "''method'' \<in> ?D" by (auto simp: has_value_def split: option.splits)
      from member_count [OF d this] True False
      show ?thesis unfolding UnmarshalJSON_def by (simp add: 0 dec ms Let_def domIff)
    qed (auto simp: UnmarshalJSON_def 0 dec ms Let_def)
    ultimately show ?thesis by blast
  next
    case True
    then have in2: "''jsonrpc'' \<in> ?D" "''method'' \<in> ?D" by (auto simp: has_value_def split: option.splits)
    have sub: "unquote ` fst ` set ms \<subseteq> set names" using True by (simp add: dom_members_map)
    note f = set_members_fields [OF p0(1) 1 p0(2) d sub]
    obtain vj vm where vj: "?om ''jsonrpc'' = Some vj" "\<not> is_null vj" and vm: "?om ''method'' = Some vm" "\<not> is_null vm"
      using True by (auto simp: has_value_def split: option.splits)
    have b: "b \<longleftrightarrow> \<not> is_string vj \<or> \<not> is_string vm"
    proof -
      have "b \<longleftrightarrow> wrong_string vj \<or> wrong_string vm" using f vj(1) vm(1) unfolding fields_set_def by auto
      then show ?thesis using is_string_cases(2,4) vj(2) vm(2) by blast
    qed
    have names: "list_all (\<lambda>(k, v). unquote k \<in> set names) ms" using True by (simp add: names_all)
    let ?okP = "?om ''params'' \<noteq> None" and ?okI = "?om ''id'' \<noteq> None"
    let ?r2 = "if ?okI \<and> sr_ID r1 = None then r1\<lparr>sr_ID := Some null_ptr\<rparr> else r1"
    have count: "\<not> (members_num ms = 3 \<and> \<not> (?okI \<or> ?okP) \<or> members_num ms = 4 \<and> \<not> (?okI \<and> ?okP) \<or> members_num ms > 4)"
      using member_count [OF d in2] True by (simp add: domIff)
    have ver: "sr_Version r1 = text_of vj" "sr_Method r1 = text_of vm" if "\<not> b"
      using f that b vj(1) vm(1) is_string_cases(3) by (simp_all add: fields_set_def set_or_def)
    have params: "?okP \<and> bad_params (sr_Params r1) h1 \<longleftrightarrow>
        (case ?om ''params'' of Some v \<Rightarrow> hd v \<noteq> CHR ''['' \<and> hd v \<noteq> CHR ''{'' | None \<Rightarrow> False)"
    proof (cases "?om ''params''")
      case (Some v)
      then show ?thesis using f members_map_value [OF ms Some]
        by (auto simp: fields_set_def raw_at_def bad_params_def is_null_def split: if_splits)
    qed simp
    have ident: "?okI \<and> bad_id (case sr_ID ?r2 of None \<Rightarrow> null_ptr | Some p \<Rightarrow> p) h1 \<longleftrightarrow>
        (case ?om ''id'' of Some v \<Rightarrow> hd v \<in> set [CHR ''t'', CHR ''f'', CHR ''{'', CHR ''[''] | None \<Rightarrow> False)"
    proof (cases "?om ''id''")
      case (Some v)
      then show ?thesis using f members_map_value [OF ms Some] null1
        by (auto simp: fields_set_def raw_at_def bad_id_def is_null_def split: if_splits)
    qed simp
    have spec: "request_spec ms \<longleftrightarrow> \<not> b \<and> sr_Version r1 = Version \<and> \<not> (?okP \<and> bad_params (sr_Params r1) h1) \<and>
        \<not> (?okI \<and> bad_id (case sr_ID ?r2 of None \<Rightarrow> null_ptr | Some p \<Rightarrow> p) h1)"
      unfolding params ident request_spec_def using names vj(1) vm(1) b ver
      by (auto split: option.splits)
    have hv: "has_value ?om ''jsonrpc''" "has_value ?om ''method''" using True by simp_all
    have eval: "UnmarshalJSON raw (r, h) =
        (if b then (Some bad_request, r1, h1) else if sr_Version r1 \<noteq> Version then (Some bad_request, r1, h1)
         else if ?okP \<and> bad_params (sr_Params r1) h1 then (Some bad_request, r1, h1)
         else if ?okI \<and> bad_id (case sr_ID ?r2 of None \<Rightarrow> null_ptr | Some p \<Rightarrow> p) h1 then (Some bad_request, ?r2, h1)
         else (None, ?r2, h1))"
      by (simp only: UnmarshalJSON_def prod.case 0 dec ms option.case Let_def count hv if_False if_True simp_thms
          cong: if_cong)
    have "request_read ms ?r2 h1" if "request_spec ms"
      using that f vm(1) ver spec null1 unfolding request_spec_def request_read_def fields_set_def raw_at_def
      by (auto simp: is_null_def split: option.splits if_splits)
    moreover have "sr_Params ?r2 = sr_Params r \<and> (\<forall>p. sr_Params r = Some p \<longrightarrow> h1 ! p = [])" if "?om ''params'' = None"
    proof -
      have "h0 ! p = []" if "sr_Params r = Some p" for p
        using that 0 r(1) by (auto simp: req_reset_def req_ptrs_def clear_def nth_list_update split: option.splits)
      then show ?thesis using f that 0 by (auto simp: fields_set_def raw_at_def req_reset_def)
    qed
    moreover have "UnmarshalJSON raw (r, h) = (None, ?r2, h1)" if "request_spec ms"
      unfolding eval using that [unfolded spec] by (simp only: if_False simp_thms)
    moreover have "fst (UnmarshalJSON raw (r, h)) = Some bad_request" if "\<not> request_spec ms"
      unfolding eval by (rule if_chain) (rule that [unfolded spec])
    ultimately show ?thesis by (metis prod.collapse)
  qed
qed

lemma reset_keeps:
  assumes "req_reset r h = (r0, h0)"
  shows "others_kept r h h0" "length h0 = length h" "sr_Params r0 = sr_Params r" "sr_ID r0 = sr_ID r"
  using assms by (auto simp: req_reset_def others_kept_def clear_nth)

lemma reset_ok:
  assumes "req_ptrs r h" "h \<noteq> []" "h ! null_ptr = ''null''" "req_reset r h = (r0, h0)"
  shows "req_ptrs r0 h0" "h0 \<noteq> []" "h0 ! null_ptr = ''null''"
proof -
  show "req_ptrs r0 h0" by (rule req_reset_ptrs [OF assms(1,4)])
  show "h0 \<noteq> []" using reset_keeps(2) [OF assms(4)] assms(2) by auto
  show "h0 ! null_ptr = ''null''" using reset_keeps(1) [OF assms(4)] assms(1-3) by (auto simp: others_kept_def req_ptrs_def)
qed

section \<open>Pending requests\<close>

text \<open>
  The invariant of the server side: \<^verbatim>\<open>null\<close> is the text null, the pointers of the request are in the store and
  none of them is the pointer of a pending id or of \<^verbatim>\<open>null\<close>, and no pending request has a number that is
  still to come.
\<close>

definition codec_ok :: "serverCodec \<Rightarrow> bool" where
  "codec_ok c \<longleftrightarrow> sv_raw c \<noteq> [] \<and> sv_raw c ! null_ptr = ''null'' \<and> req_ptrs (sv_req c) (sv_raw c) \<and>
     (\<forall>k p. sv_pending c k = Some (Some p) \<longrightarrow> p < length (sv_raw c) \<and> sr_ID (sv_req c) \<noteq> Some p \<and> sr_Params (sv_req c) \<noteq> Some p) \<and>
     (\<forall>k. sv_pending c k \<noteq> None \<longrightarrow> sint k \<le> sint (sv_seq c))"

definition pending_kept :: "serverCodec \<Rightarrow> serverCodec \<Rightarrow> bool" where
  "pending_kept c c' \<longleftrightarrow> (\<forall>k b. sv_pending c k = Some b \<longrightarrow> sv_pending c' k = Some b \<and>
     (\<forall>p. b = Some p \<longrightarrow> sv_raw c' ! p = sv_raw c ! p))"

lemma codec_ok_new: "h \<noteq> [] \<Longrightarrow> h ! null_ptr = ''null'' \<Longrightarrow> codec_ok (newServerCodec conn h)"
  by (simp add: codec_ok_def newServerCodec_def req_ptrs_def)

lemma UnmarshalJSON_ptrs:
  assumes "UnmarshalJSON raw (r, h) = (err, r', h')" "req_ptrs r h" "h \<noteq> []" "h ! null_ptr = ''null''"
  shows "others_kept r h h' \<and> h' ! null_ptr = ''null'' \<and>
    (\<forall>p. sr_Params r' = Some p \<longrightarrow> sr_Params r = Some p \<or> sr_ID r = Some p \<or> length h \<le> p) \<and>
    (\<forall>p. sr_ID r' = Some p \<longrightarrow> (sr_Params r = Some p \<or> sr_ID r = Some p \<or> length h \<le> p \<or> p = null_ptr) \<and>
       p < length h' \<and> sr_Params r' \<noteq> Some p) \<and>
    req_ptrs (r'\<lparr>sr_ID := None\<rparr>) h' \<and> (err \<noteq> None \<longrightarrow> req_ptrs r' h')"
proof -
  obtain r0 h0 where 0: "req_reset r h = (r0, h0)" by fastforce
  have p0: "req_ptrs r0 h0" "h0 \<noteq> []" using req_reset_ptrs [OF assms(2) 0] assms(3) 0 by (auto simp: req_reset_def)
  have k0: "others_kept r h h0" "length h0 = length h" "sr_Params r0 = sr_Params r" "sr_ID r0 = sr_ID r"
    using 0 by (auto simp: req_reset_def others_kept_def clear_nth)
  obtain r1 h1 b where 1: "decode_struct set_req raw (r0, h0) = ((r1, h1), b)" by (metis surj_pair)
  have p1: "req_ptrs r1 h1 \<and> others_kept r0 h0 h1 \<and>
    (\<forall>p. sr_Params r1 = Some p \<or> sr_ID r1 = Some p \<longrightarrow> sr_Params r0 = Some p \<or> sr_ID r0 = Some p \<or> length h0 \<le> p)"
    using 1 p0 set_members_ptrs [OF p0(1) _ p0(2)]
    by (auto simp: decode_struct_def others_kept_def split: if_splits option.splits)
  then have k1: "others_kept r h h1" using k0 by (auto simp: others_kept_def)
  then have n1: "h1 ! null_ptr = ''null''" using assms(2,3,4) by (auto simp: others_kept_def req_ptrs_def)
  then have "\<not> bad_id null_ptr h1" by (simp add: bad_id_def)
  then have "h' = h1 \<and> (r' = r1 \<or> r' = r1\<lparr>sr_ID := Some null_ptr\<rparr> \<and> err = None)"
    using assms(1) by (auto simp: UnmarshalJSON_def 0 1 Let_def split: if_splits option.splits)
  moreover have "h1 \<noteq> []" using k1 assms(3) by (auto simp: others_kept_def)
  ultimately show ?thesis using p1 k1 n1 k0 by (auto simp: req_ptrs_def)
qed

lemma send_error_simps [simp]: "sv_raw (send_error e c) = sv_raw c" "sv_req (send_error e c) = sv_req c"
  "sv_pending (send_error e c) = sv_pending c" "sv_seq (send_error e c) = sv_seq c" "sv_dec (send_error e c) = sv_dec c"
  by (simp_all add: send_error_def sv_send_def split: outcome.splits)

lemma seq_Suc: "sint s < 2 ^ 63 - 1 \<Longrightarrow> sint (s + 1 :: int64) = sint s + 1"
proof -
  assume "sint s < 2 ^ 63 - 1"
  moreover have "- (2 ^ 63) \<le> sint s" using sint_ge [of s] by simp
  ultimately have "sint (word_of_int (sint s + 1) :: int64) = sint s + 1"
    by (intro sint_word_of_int_small) simp_all
  then show ?thesis by simp
qed

text \<open>
  C13: Reading a request keeps the invariant and every pending id, whether the request is accepted or not, if it came with a POST;
  an accepted request gets a number that no pending request has.
\<close>

theorem pending_ids_kept:
  assumes "codec_ok c" "header_get (m_Header m) ''HttpMethod'' = str ''POST''" "sint (sv_seq c) < 2 ^ 63 - 1"
    and "sv_ReadHeader m c = (res, m', c')"
  shows "codec_ok c' \<and> pending_kept c c' \<and> (res = Ok () \<longrightarrow> sv_pending c (m_ID m') = None \<and> sv_pending c' (m_ID m') \<noteq> None)"
proof -
  obtain r0 h0 where 0: "req_reset (sv_req c) (sv_raw c) = (r0, h0)" by fastforce
  have k: "req_ptrs (sv_req c) (sv_raw c)" "sv_raw c \<noteq> []" "sv_raw c ! null_ptr = ''null''" using assms(1) by (auto simp: codec_ok_def)
  note p0 = reset_ok(1,2) [OF k 0] and n0 = reset_ok(3) [OF k 0] and k0 = reset_keeps [OF 0]
  have q: "sv_pending c (sv_seq c + 1) = None" 
    using assms(1) seq_Suc [OF assms(3)] by (force simp: codec_ok_def)
  obtain dr d where d: "Decode_raw (sv_dec c) = (dr, d)" by fastforce
  show ?thesis
  proof (cases dr)
    case (Ok raw)
    obtain err r1 h1 where u: "UnmarshalJSON raw (r0, h0) = (err, r1, h1)" by (metis surj_pair)
    note p1 = UnmarshalJSON_ptrs [OF u p0 n0]
    have kept: "others_kept (sv_req c) (sv_raw c) h1" using p1 k0 by (auto simp: others_kept_def)
    have len: "length (sv_raw c) \<le> length h1" "h1 \<noteq> []" using kept k(2) by (auto simp: others_kept_def)
    have pend: "p < length (sv_raw c) \<and> sr_ID (sv_req c) \<noteq> Some p \<and> sr_Params (sv_req c) \<noteq> Some p"
      if "sv_pending c i = Some (Some p)" for i p using assms(1) that by (auto simp: codec_ok_def)
    have same: "h1 ! p = sv_raw c ! p" if "sv_pending c i = Some (Some p)" for i p
      using kept pend [OF that] by (auto simp: others_kept_def)
    have apart: "sr_Params r1 \<noteq> Some p \<and> (sr_ID r1 \<noteq> Some p \<or> p = null_ptr)" if "sv_pending c i = Some (Some p)" for i p
      using p1 pend [OF that] k0 by (metis linorder_not_le)
    have below: "sint i \<le> sint (sv_seq c)" if "sv_pending c i \<noteq> None" for i
      using assms(1) that by (auto simp: codec_ok_def)
    show ?thesis
    proof (cases err)
      case (Some e)
      then have "req_ptrs r1 h1" using p1 by simp
      moreover from this have "sr_ID r1 \<noteq> Some null_ptr" by (auto simp: req_ptrs_def)
      moreover have "\<exists>c1. res = Err e \<and> m' = m \<and> c' = (if err_text e = ''bad request'' then send_error errRequest c1 else c1) \<and>
          sv_raw c1 = h1 \<and> sv_req c1 = r1 \<and> sv_pending c1 = sv_pending c \<and> sv_seq c1 = sv_seq c"
        using assms(4) Some by (auto simp: sv_ReadHeader_def 0 d Ok u Let_def)
      ultimately show ?thesis using p1 len pend same apart below
        by (fastforce simp: codec_ok_def pending_kept_def)
    next
      case None
      have c': "res = Ok ()" "m_ID m' = sv_seq c + 1" "sv_raw c' = h1" "sv_req c' = r1\<lparr>sr_ID := None\<rparr>"
        "sv_pending c' = (sv_pending c)(sv_seq c + 1 \<mapsto> sr_ID r1)" "sv_seq c' = sv_seq c + 1"
        using assms(2,4) None by (auto simp: sv_ReadHeader_def 0 d Ok u Let_def)
      have new: "p < length h1 \<and> sr_Params r1 \<noteq> Some p" if "sr_ID r1 = Some p" for p
        using p1 that by blast
      have "codec_ok c'"
        unfolding codec_ok_def c' using p1 len pend apart below new seq_Suc [OF assms(3)] less_le_trans
        by (auto split: if_splits) force+
      moreover have "pending_kept c c'" unfolding pending_kept_def c' using same q by auto
      ultimately show ?thesis using c' q by simp
    qed
  qed (use assms 0 d k0 p0 n0 in \<open>auto simp: sv_ReadHeader_def codec_ok_def pending_kept_def others_kept_def\<close>)
qed

theorem pending_ids_kept_witness:
  "\<exists>res m' c'. sv_ReadHeader (Message0\<lparr>m_Header := [str ''HttpMethod'' \<mapsto> str ''POST'']\<rparr>) (newServerCodec ''{'' raw0) = (res, m', c') \<and> codec_ok c'"
proof -
  let ?m = "Message0\<lparr>m_Header := [str ''HttpMethod'' \<mapsto> str ''POST'']\<rparr>" and ?c = "newServerCodec ''{'' raw0"
  obtain res m' c' where r: "sv_ReadHeader ?m ?c = (res, m', c')" by (metis surj_pair)
  have "codec_ok ?c" by (rule codec_ok_new) (simp_all add: raw0_def)
  moreover have "header_get (m_Header ?m) ''HttpMethod'' = str ''POST''" by (simp add: header_get_def)
  moreover have "sint (sv_seq ?c) < 2 ^ 63 - 1" by (simp add: newServerCodec_def)
  ultimately show ?thesis using pending_ids_kept [OF _ _ _ r] r by blast
qed

section \<open>Accepted requests\<close>


lemma key_text_names [simp]: "key_text ''jsonrpc''" "key_text ''method''" "key_text ''params''" "key_text ''id''"
  "key_text ''result''" "key_text ''error''" "key_text ''code''" "key_text ''message''" "key_text ''data''"
  by code_simp+

lemma unquote_ascii_text:
  "(\<And>c. c \<in> set s \<Longrightarrow> (of_char c :: nat) < 0x80 \<and> c \<noteq> CHR 0x5C) \<Longrightarrow> unquote s = s"
  by (induction s) (simp_all add: unquote.simps [of "_ # _"])

lemma unquote_names [simp]: "unquote ''jsonrpc'' = ''jsonrpc''" "unquote ''method'' = ''method''" "unquote ''params'' = ''params''"
  "unquote ''id'' = ''id''" "unquote ''result'' = ''result''" "unquote ''error'' = ''error''" "unquote ''code'' = ''code''"
  "unquote ''message'' = ''message''" "unquote ''data'' = ''data''"
  by (rule unquote_ascii_text; simp; elim disjE; simp)+

lemma json_text_consts [simp]: "json_text ''null''" "json_text ''{}''" "json_text ''[]''" "json_text ''1''"
  by code_simp+

lemma Version_text [simp]: "json_text (quote Version)" "json_text (quote ''2.0'')" "is_string (quote s)" "quote s \<noteq> []" "hd (quote s) = CHR 0x22"
  by (auto simp: Version_def is_string_def quote_def [of s] intro!: quote_json_text ascii_utf8_text)

lemma text_of_quote: "utf8_text s \<Longrightarrow> text_of (quote s) = s"
  by (simp add: text_of_def quote_def unquote_quote)

lemma utf8_Version [simp]: "utf8_text Version"
  by (rule ascii_utf8_text) (auto simp: Version_def)

lemma utf8_m [simp]: "utf8_text ''m''"
  by (rule ascii_utf8_text) auto

text \<open>The request that the witnesses read.\<close>

definition request1 :: "(string \<times> string) list" where
  "request1 = [(''jsonrpc'', quote Version), (''method'', quote ''m''), (''id'', ''1'')]"

lemma request1_simps [simp]: "members_ok request1" "distinct (map (unquote \<circ> fst) request1)"
  "members_map request1 ''jsonrpc'' = Some (quote Version)" "members_map request1 ''method'' = Some (quote ''m'')"
  "members_map request1 ''params'' = None" "members_map request1 ''id'' = Some ''1''"
  by (simp_all add: request1_def members_ok_def quote_json_text)

lemma request1_spec [simp]: "request_spec request1"
  by (simp add: request_spec_def) (simp add: request1_def names_def text_of_quote)


text \<open>Reading a request that is accepted.\<close>

lemma ReadHeader_accepted:
  assumes "codec_ok c" "jd_err (sv_dec c) = None" "jd_in (sv_dec c) = object_text ms @ t" "ends_num t"
    and "members_ok ms" "distinct (map (unquote \<circ> fst) ms)" "request_spec ms"
  obtains r' h' where "request_read ms r' h'"
    "members_map ms ''params'' = None \<longrightarrow> sr_Params r' = sr_Params (sv_req c) \<and> (\<forall>p. sr_Params (sv_req c) = Some p \<longrightarrow> h' ! p = [])"
    "sv_ReadHeader m c = (let m = m\<lparr>m_Method := str (sr_Method r'), m_Target := header_get (m_Header m) ''Path''\<rparr>;
       c = c\<lparr>sv_dec := (sv_dec c)\<lparr>jd_in := t\<rparr>, sv_req := r', sv_raw := h'\<rparr> in
       if header_get (m_Header m) ''HttpMethod'' \<noteq> str ''POST'' then (Err (as_error errMethod), m, c)
       else (Ok (), m\<lparr>m_ID := sv_seq c + 1\<rparr>,
         c\<lparr>sv_seq := sv_seq c + 1, sv_pending := (sv_pending c)(sv_seq c + 1 \<mapsto> sr_ID r'), sv_req := r'\<lparr>sr_ID := None\<rparr>\<rparr>))"
proof -
  obtain r0 h0 where 0: "req_reset (sv_req c) (sv_raw c) = (r0, h0)" by fastforce
  have k: "req_ptrs (sv_req c) (sv_raw c)" "sv_raw c \<noteq> []" "sv_raw c ! null_ptr = ''null''" using assms(1) by (auto simp: codec_ok_def)
  note p0 = reset_ok(1,2) [OF k 0] and n0 = reset_ok(3) [OF k 0] and k0 = reset_keeps [OF 0]
  have ms: "object_members (object_text ms) = Some ms" using object_members_text [OF assms(5), of "[]"] by simp
  have d: "Decode_raw (sv_dec c) = (Ok (object_text ms), (sv_dec c)\<lparr>jd_in := t\<rparr>)"
    using assms by (intro Decode_raw_text) auto
  from request_accepted_aux [OF ms assms(6) p0 n0, THEN conjunct1, THEN mp, OF assms(7)] obtain r' h' where
    u: "UnmarshalJSON (object_text ms) (r0, h0) = (None, r', h')" "request_read ms r' h'"
      "members_map ms ''params'' = None \<longrightarrow> sr_Params r' = sr_Params r0 \<and> (\<forall>p. sr_Params r0 = Some p \<longrightarrow> h' ! p = [])"
    by (elim exE conjE)
  show ?thesis using u k0 by (intro that [of r' h']) (simp_all add: sv_ReadHeader_def 0 d Let_def)
qed

text \<open>
  C35: Parameters are optional in JSON-RPC. But once a request with parameters has been read, a request without parameters on the
  same codec has an empty raw message for them, and reading its body fails with the code of invalid
  parameters.
\<close>

theorem stale_params_rejected:
  assumes "codec_ok c" "jd_err (sv_dec c) = None" "jd_in (sv_dec c) = object_text ms @ t" "ends_num t"
    and "members_ok ms" "distinct (map (unquote \<circ> fst) ms)" "request_spec ms" "members_map ms ''params'' = None"
    and "header_get (m_Header m) ''HttpMethod'' = str ''POST''" "sr_Params (sv_req c) = Some p"
  shows "\<exists>m' c'. sv_ReadHeader m c = (Ok (), m', c') \<and>
    sv_ReadBody U (Some x) c' = (Some (JsonError (- 32602) ''unexpected end of JSON input''), Some x)"
proof -
  have v: "checkValid [] = Some (Errorf ''unexpected end of JSON input'')" by code_simp
  obtain r' h' where r: "sr_Params r' = Some p" "h' ! p = []" and h: "sv_ReadHeader m c =
      (let m = m\<lparr>m_Method := str (sr_Method r'), m_Target := header_get (m_Header m) ''Path''\<rparr>;
       c = c\<lparr>sv_dec := (sv_dec c)\<lparr>jd_in := t\<rparr>, sv_req := r', sv_raw := h'\<rparr> in
       if header_get (m_Header m) ''HttpMethod'' \<noteq> str ''POST'' then (Err (as_error errMethod), m, c)
       else (Ok (), m\<lparr>m_ID := sv_seq c + 1\<rparr>,
         c\<lparr>sv_seq := sv_seq c + 1, sv_pending := (sv_pending c)(sv_seq c + 1 \<mapsto> sr_ID r'), sv_req := r'\<lparr>sr_ID := None\<rparr>\<rparr>))"
    using ReadHeader_accepted [OF assms(1-7), of m] assms(8,10) by metis
  show ?thesis
    unfolding h using r assms(9) v by (simp add: Let_def sv_ReadBody_def as_error_def error_codes)
qed

theorem stale_params_rejected_witness:
  "\<exists>m' c'. sv_ReadHeader (Message0\<lparr>m_Header := [str ''HttpMethod'' \<mapsto> str ''POST'']\<rparr>)
     ((newServerCodec (object_text request1) [''null'', ''[1]''])\<lparr>sv_req := \<lparr>sr_Version = [], sr_Method = [], sr_Params = Some 1, sr_ID = None\<rparr>\<rparr>)
       = (Ok (), m', c') \<and>
    sv_ReadBody (\<lambda>s x. (None, s)) (Some []) c' = (Some (JsonError (- 32602) ''unexpected end of JSON input''), Some [])"
  by (rule stale_params_rejected [where ms = request1 and t = "[]" and p = 1])
    (simp_all add: codec_ok_def newServerCodec_def req_ptrs_def header_get_def)

section \<open>Responses\<close>

text \<open>
  Every pending request is answered once. Writing its response removes it and leaves the others pending; nothing is
  written for a notification, which has no id; and a second response with the same number is an error
  and writes nothing.
\<close>

theorem answered_once:
  assumes "sv_pending c (m_ID m) = Some b" "sv_Write m x c = (res, c')"
  shows "sv_pending c' = (sv_pending c)(m_ID m := None) \<and> (b = None \<longrightarrow> res = Ok () \<and> sv_out c' = sv_out c) \<and>
    (m_ID m2 = m_ID m \<longrightarrow> sv_Write m2 y c' = (Err (Errorf ''invalid sequence number in response''), c'))"
proof -
  have "sv_pending c' = (sv_pending c)(m_ID m := None)"
    using assms by (auto simp: sv_Write_def Let_def sv_send_def split: outcome.splits if_splits)
  moreover have "b = None \<longrightarrow> res = Ok () \<and> sv_out c' = sv_out c"
    using assms by (auto simp: sv_Write_def Let_def)
  ultimately show ?thesis by (simp add: sv_Write_def)
qed

theorem answered_once_witness:
  "sv_pending (snd (sv_Write (Message0\<lparr>m_ID := 1\<rparr>) None ((newServerCodec [] raw0)\<lparr>sv_pending := [1 \<mapsto> None]\<rparr>))) = Map.empty"
  using answered_once [of "(newServerCodec [] raw0)\<lparr>sv_pending := [1 \<mapsto> None]\<rparr>" "Message0\<lparr>m_ID := 1\<rparr>" None None
      "fst (sv_Write (Message0\<lparr>m_ID := 1\<rparr>) None ((newServerCodec [] raw0)\<lparr>sv_pending := [1 \<mapsto> None]\<rparr>))"
      "snd (sv_Write (Message0\<lparr>m_ID := 1\<rparr>) None ((newServerCodec [] raw0)\<lparr>sv_pending := [1 \<mapsto> None]\<rparr>))" "Message0\<lparr>m_ID := 1\<rparr>" None]
  by (simp add: fun_eq_iff)

text \<open>What is written for a result, and for an error when the caller gives a value besides.\<close>

lemma Write_result:
  assumes "sv_pending c (m_ID m) = Some (Some p)" "json_text (sv_raw c ! p)" "m_Error m = []"
  shows "sv_Write m (Some (Ok t)) c = (Ok (), c\<lparr>sv_pending := (sv_pending c)(m_ID m := None),
     sv_out := sv_out c @ object_text [(''jsonrpc'', quote Version), (''id'', compact_at 0 (sv_raw c ! p)), (''result'', t)] @ [CHR 0x0A]\<rparr>)"
  using assms by (simp add: sv_Write_def Let_def encode_response_def add_member_def add_opt_def marshal_raw_def
      checkValid_json_text sv_send_def)

text \<open>
  A response with an error also has a result when the caller gives a value: the member is not left out, although the
  comment on the field says so. The server gives the empty object with every error.
\<close>

theorem error_with_result:
  assumes "sv_pending c (m_ID m) = Some (Some p)" "json_text (sv_raw c ! p)" "m_Error m = str e" "e \<noteq> []"
    and "\<not> (hd e = CHR ''{'' \<and> last e = CHR ''}'')" "checkValid (Error_Error id (newError e)) = None"
  shows "\<exists>c'. sv_Write m (Some (Ok t)) c = (Ok (), c') \<and>
    sv_out c' = sv_out c @ object_text [(''jsonrpc'', quote Version), (''id'', compact_at 0 (sv_raw c ! p)), (''result'', t),
      (''error'', compact_at 0 (Error_Error id (newError e)))] @ [CHR 0x0A]"
  using assms by (auto simp: sv_Write_def Let_def encode_response_def add_member_def add_opt_def marshal_raw_def
      checkValid_json_text sv_send_def)

section \<open>The shared null\<close>

lemma nth_update_at: "i < length h \<Longrightarrow> h[j := v] ! i = (if i = j then v else h ! i)"
  by (cases "i = j") simp_all

lemma set_req_cell: "\<not> is_null (h ! i) \<Longrightarrow> i < length h \<Longrightarrow> set_req k v (r, h) = ((r', h'), b) \<Longrightarrow> \<not> is_null (h' ! i) \<and> i < length h'"
  by (auto simp: set_req_def set_raw_def nth_append nth_update_at split: if_splits prod.splits option.splits)

lemma set_members_cell:
  "\<not> is_null (h ! i) \<Longrightarrow> i < length h \<Longrightarrow> set_members set_req ms (r, h) = ((r', h'), b) \<Longrightarrow> \<not> is_null (h' ! i) \<and> i < length h'"
proof (induction ms arbitrary: r h b)
  case (Cons m ms)
  obtain k v where m: "m = (k, v)" by (cases m)
  obtain r1 h1 b1 where 1: "set_req (unquote k) v (r, h) = ((r1, h1), b1)" by (metis surj_pair)
  obtain b2 where 2: "set_members set_req ms (r1, h1) = ((r', h'), b2)"
    using Cons.prems(3) by (auto simp: m 1 split: prod.splits)
  show ?case using set_req_cell [OF Cons.prems(1,2) 1] Cons.IH [OF _ _ 2] by simp
qed auto

lemma UnmarshalJSON_cell:
  assumes "UnmarshalJSON raw (r, h) = (err, r', h')" "\<not> is_null (h ! i)" "i < length h"
  shows "\<not> is_null (h' ! i)"
proof -
  obtain r0 h0 where 0: "req_reset r h = (r0, h0)" by fastforce
  have h0: "\<not> is_null (h0 ! i)" "i < length h0"
    using 0 assms(2,3) by (auto simp: req_reset_def clear_def nth_update_at is_null_def split: option.splits if_splits)
  obtain r1 h1 b where 1: "decode_struct set_req raw (r0, h0) = ((r1, h1), b)" by (metis surj_pair)
  then have "\<not> is_null (h1 ! i)" using h0 set_members_cell [OF h0]
    by (auto simp: decode_struct_def split: if_splits option.splits)
  moreover have "h' = h1" using assms(1) by (auto simp: UnmarshalJSON_def 0 1 Let_def split: if_splits option.splits)
  ultimately show ?thesis by simp
qed

text \<open>
  A request with the id null that is refused because it is not a POST leaves the codec with a pointer to the package variable
  \<^verbatim>\<open>null\<close>. Whatever the codec reads next, the variable is not the text null any more, for every codec of
  the process.
\<close>

theorem null_overwritten:
  assumes "sr_ID (sv_req c) = Some null_ptr" "sv_raw c \<noteq> []" "sv_ReadHeader m c = (res, m', c')"
  shows "\<not> is_null (sv_raw c' ! null_ptr)"
proof -
  obtain r0 h0 where 0: "req_reset (sv_req c) (sv_raw c) = (r0, h0)" by fastforce
  have h0: "\<not> is_null (h0 ! null_ptr)" "null_ptr < length h0"
    using 0 assms(1,2) by (auto simp: req_reset_def clear_def is_null_def split: option.splits)
  show ?thesis using assms(3) h0 UnmarshalJSON_cell [OF _ h0]
    by (auto simp: sv_ReadHeader_def 0 Let_def split: prod.splits outcome.splits option.splits if_splits)
qed

text \<open>Such a codec is reached by one request.\<close>

lemma null_overwritten_reachable:
  "sr_ID (sv_req (snd (snd (sv_ReadHeader Message0 (newServerCodec (object_text [(''jsonrpc'', quote Version), (''method'', quote ''m''), (''id'', ''null'')]) raw0)))))
     = Some null_ptr"
proof -
  let ?ms = "[(''jsonrpc'', quote Version), (''method'', quote ''m''), (''id'', ''null'')]"
  let ?c = "newServerCodec (object_text ?ms) raw0"
  have ok: "members_ok ?ms" by (simp add: members_ok_def quote_json_text)
  have ms: "members_map ?ms ''jsonrpc'' = Some (quote Version)" "members_map ?ms ''method'' = Some (quote ''m'')"
    "members_map ?ms ''params'' = None" "members_map ?ms ''id'' = Some ''null''" by simp_all
  have spec: "request_spec ?ms" unfolding request_spec_def ms by (simp add: names_def text_of_quote)
  have c: "codec_ok ?c" by (rule codec_ok_new) (simp_all add: raw0_def)
  have d: "jd_err (sv_dec ?c) = None" "jd_in (sv_dec ?c) = object_text ?ms @ []" "distinct (map (unquote \<circ> fst) ?ms)"
    by (simp_all add: newServerCodec_def)
  have i: "sr_ID r' = Some null_ptr" if "request_read ?ms r' h'" for r' h'
    using that unfolding request_read_def ms by (simp add: is_null_def)
  show ?thesis
    by (rule ReadHeader_accepted [OF c d(1,2) ends_num_Cons(1) ok d(3) spec, of Message0], erule ssubst)
      (simp add: Let_def header_get_def Message0_def i)
qed

theorem null_overwritten_witness:
  "\<exists>c. sr_ID (sv_req c) = Some null_ptr \<and> sv_raw c \<noteq> [] \<and> \<not> is_null (sv_raw (snd (snd (sv_ReadHeader Message0 c))) ! null_ptr)"
proof -
  let ?c = "(newServerCodec [] raw0)\<lparr>sv_req := \<lparr>sr_Version = [], sr_Method = [], sr_Params = None, sr_ID = Some null_ptr\<rparr>\<rparr>"
  have "sr_ID (sv_req ?c) = Some null_ptr" "sv_raw ?c \<noteq> []" by (simp_all add: newServerCodec_def raw0_def)
  moreover from null_overwritten [OF this, of Message0] have "\<not> is_null (sv_raw (snd (snd (sv_ReadHeader Message0 ?c))) ! null_ptr)"
    by (metis prod.collapse)
  ultimately show ?thesis by blast
qed

end
