(* ===== verification/Jsonrpc.thy ===== *)
theory Jsonrpc
  imports Jsonrpc_Client Jsonrpc_Server
begin

text \<open>
  The JSON-RPC codec, \<^verbatim>\<open>codec/jsonrpc/jsonrpc.go\<close>, which is the client side and the server side over one buffer, and
  what the two sides make of each other's messages. Of the two sides of a codec only one is used: a
  client reads responses, a server requests.
\<close>

record jsonCodec =
  jc_mt :: int64
  jc_c :: clientCodec
  jc_s :: serverCodec

definition jc_String :: string where
  "jc_String = ''jsonrpc2-codec''"

definition unrecognised :: goerr where
  "unrecognised = Errorf ''Unrecognised message type: %v''"

definition jc_Write :: "Message \<Rightarrow> goarg option \<Rightarrow> jsonCodec \<Rightarrow> unit outcome \<times> jsonCodec" where
  "jc_Write m b j =
     (if m_Type m = Request then (case cc_Write m b (jc_c j) of (res, c) \<Rightarrow> (res, j\<lparr>jc_c := c\<rparr>))
      else if m_Type m = Response then
        (case sv_Write m (map_option ga_Marshal b) (jc_s j) of (res, s) \<Rightarrow> (res, j\<lparr>jc_s := s\<rparr>))
      else (Err unrecognised, j))"

definition jc_ReadHeader :: "(string \<Rightarrow> string) \<Rightarrow> Message \<Rightarrow> int64 \<Rightarrow> jsonCodec \<Rightarrow> unit outcome \<times> Message \<times> jsonCodec" where
  "jc_ReadHeader norm m mt j = (let j = j\<lparr>jc_mt := mt\<rparr> in
     if mt = Request then (case sv_ReadHeader m (jc_s j) of (res, m, s) \<Rightarrow> (res, m, j\<lparr>jc_s := s\<rparr>))
     else if mt = Response then (case cc_ReadHeader norm m (jc_c j) of (res, m, c) \<Rightarrow> (res, m, j\<lparr>jc_c := c\<rparr>))
     else (Err unrecognised, m, j))"

definition jc_ReadBody :: "(string \<Rightarrow> 'x \<Rightarrow> goerr option \<times> 'x) \<Rightarrow> 'x option \<Rightarrow> jsonCodec \<Rightarrow> goerr option \<times> 'x option" where
  "jc_ReadBody U b j =
     (if jc_mt j = Request then sv_ReadBody U b (jc_s j)
      else if jc_mt j = Response then cc_ReadBody U b (jc_c j)
      else (Some unrecognised, b))"

definition jc_NewCodec :: "string \<Rightarrow> string list \<Rightarrow> jsonCodec" where
  "jc_NewCodec conn h = \<lparr>jc_mt = 0, jc_c = newClientCodec conn, jc_s = newServerCodec conn h\<rparr>"

text \<open>The text that a side has in its buffer.\<close>

definition on_wire :: "string \<Rightarrow> jdecoder" where
  "on_wire t = \<lparr>jd_in = t, jd_err = None\<rparr>"

section \<open>From the client to the server\<close>

unbundle bit_operations_syntax

lemma itoa_digits:
  assumes "0 \<le> i" "c \<in> set (itoa i)"
  shows "json_digit c"
  using assms nat_str_digit [of c "nat i"] by (simp add: itoa_def json_digit_val)

lemma digit_facts:
  assumes "json_digit c"
  shows "c \<noteq> CHR ''<''" "c \<noteq> CHR ''>''" "c \<noteq> CHR ''&''" "c \<noteq> CHR 0xE2" "c \<noteq> CHR 0x22" "\<not> json_space c"
    "c \<notin> set [CHR ''t'', CHR ''f'', CHR ''{'', CHR ''['', CHR ''n'']"
  using assms by (auto simp: json_digit_def json_space_def)

lemma compact_digits: "(\<And>c. c \<in> set s \<Longrightarrow> json_digit c) \<Longrightarrow> compact_at 0 s = s"
proof (induction s)
  case (Cons c s)
  then have "json_digit c" by simp
  note f = digit_facts [OF this]
  show ?case using Cons f by (simp add: Let_def)
qed simp

lemma compact_itoa: "0 \<le> i \<Longrightarrow> compact_at 0 (itoa i) = itoa i"
  by (rule compact_digits) (rule itoa_digits)

lemma itoa_hd:
  assumes "0 \<le> i"
  shows "hd (itoa i) \<notin> set [CHR ''t'', CHR ''f'', CHR ''{'', CHR ''['', CHR ''n'']" "itoa i \<noteq> []"
proof -
  show "itoa i \<noteq> []" using assms by (simp add: itoa_def)
  then show "hd (itoa i) \<notin> set [CHR ''t'', CHR ''f'', CHR ''{'', CHR ''['', CHR ''n'']"
    using digit_facts(7) [OF itoa_digits [OF assms], of "hd (itoa i)"] by simp
qed

lemma itoa_not_null: "0 \<le> i \<Longrightarrow> \<not> is_null (itoa i)"
  using itoa_hd by (simp add: is_null_def)

definition request_members :: "string \<Rightarrow> string \<Rightarrow> int64 \<Rightarrow> (string \<times> string) list" where
  "request_members meth params i = [(''jsonrpc'', quote VERSION), (''method'', quote meth), (''params'', params), (''id'', itoa (sint i))]"

lemma VERSION_Version: "VERSION = Version"
  by (simp add: VERSION_def Version_def)

lemma request_members_map:
  "members_map (request_members meth params i) ''jsonrpc'' = Some (quote Version)"
  "members_map (request_members meth params i) ''method'' = Some (quote meth)"
  "members_map (request_members meth params i) ''params'' = Some params"
  "members_map (request_members meth params i) ''id'' = Some (itoa (sint i))"
  by (simp_all add: request_members_def VERSION_Version)

lemma request_members_ok:
  assumes "utf8_text meth" "json_text params" "0 \<le> sint i"
  shows "members_ok (request_members meth params i)" "distinct (map (unquote \<circ> fst) (request_members meth params i))"
  using assms by (simp_all add: request_members_def members_ok_def VERSION_Version quote_json_text itoa_json_text)

lemma request_members_spec:
  assumes "0 \<le> sint i"
  shows "request_spec (request_members meth params i) \<longleftrightarrow> hd params = CHR ''['' \<or> hd params = CHR ''{''"
  using itoa_hd(1) [OF assms] unfolding request_spec_def request_members_map
  by (simp add: text_of_quote) (simp add: request_members_def names_def)

lemma cc_Write_text:
  assumes "check_param param = Ok p'" "(case p' of None \<Rightarrow> Ok ''null'' | Some p \<Rightarrow> ga_Marshal p) = Ok pt"
  obtains c' where "cc_Write m param c = (Ok (), c')" "cc_out c' = cc_out c @ object_text
      (request_members (chars (m_Method m)) pt (m_ID m AND MAX_JSONRPC_ID)) @ [CHR 0x0A]"
    "cc_pending c' = (cc_pending c)(m_ID m AND MAX_JSONRPC_ID \<mapsto> chars (m_Method m))" "cc_resp c' = cc_resp c"
proof -
  have "encode_request \<lparr>cr_Version = VERSION, cr_Method = chars (m_Method m), cr_Params = p', cr_ID = m_ID m AND MAX_JSONRPC_ID\<rparr> =
      Ok (object_text (request_members (chars (m_Method m)) pt (m_ID m AND MAX_JSONRPC_ID)) @ [CHR 0x0A])"
    using assms(2) by (simp add: encode_request_def request_text_def request_members_def)
  then show ?thesis using assms(1) that by (simp add: cc_Write_def Let_def)
qed

section \<open>From the server to the client\<close>

lemma json_fold_result [simp]: "json_fold ''result'' = ''result''" "json_fold ''error'' = ''error''"
  by code_simp+

lemma cc_ReadHeader_result:
  assumes "cc_dec c = on_wire (object_text [(''jsonrpc'', quote Version), (''id'', itoa (sint i)), (''result'', t)] @ [CHR 0x0A])"
    and "0 \<le> sint i" "json_text t" "\<not> is_null t" "cc_pending c i = Some meth"
  obtains c' where "cc_ReadHeader norm m c = (Ok (), m\<lparr>m_Method := str meth, m_ID := i, m_Error := []\<rparr>, c')"
    "cp_Result (cc_resp c') = Some t" "cc_pending c' = (cc_pending c)(i := None)"
proof -
  let ?ms = "[(''jsonrpc'', quote Version), (''id'', itoa (sint i)), (''result'', t)]"
  have ok: "members_ok ?ms" using assms(2,3) by (simp add: members_ok_def itoa_json_text)
  have d: "Decode_raw (cc_dec c) = (Ok (object_text ?ms), (cc_dec c)\<lparr>jd_in := [CHR 0x0A]\<rparr>)"
    using ok assms(1) by (intro Decode_raw_text) (auto simp: on_wire_def)
  have om: "object_members (object_text ?ms) = Some ?ms" using object_members_text [OF ok, of "[]"] by simp
  have i: "sint i < 2 ^ 63" using sint_lt [of i] by simp
  have s: "set_string (quote Version) x = (Version, False)" for x
    using text_of_quote [OF utf8_Version] by (simp add: set_string_def is_null_def text_of_def)
  have n: "set_int (itoa (sint i)) x = (sint i, False)" for x
    using Atoi_itoa [OF assms(2) i] itoa_not_null [OF assms(2)] by (simp add: set_int_def)
  have dec: "decode_struct set_resp (object_text ?ms) (resp_reset (cc_resp c)) =
      (\<lparr>cp_Version = Version, cp_ID = sint i, cp_Result = Some t, cp_Error = None\<rparr>, False)"
    unfolding decode_struct_def om using object_not_null [OF om] assms(4)
    by (simp add: set_resp_def s n resp_reset_def)
  show ?thesis using d dec assms(5) that by (simp add: cc_ReadHeader_def Let_def)
qed

section \<open>A call through both sides\<close>

lemma server_reads:
  assumes "codec_ok s" "sv_dec s = on_wire (object_text (request_members meth pt i) @ [CHR 0x0A])" "utf8_text meth" "json_text pt"
    and "hd pt = CHR ''['' \<or> hd pt = CHR ''{''" "header_get (m_Header m0) ''HttpMethod'' = str ''POST''" "0 \<le> sint i"
  obtains s1 pi q where
    "sv_ReadHeader m0 s = (Ok (), m0\<lparr>m_Method := str meth, m_Target := header_get (m_Header m0) ''Path'', m_ID := sv_seq s + 1\<rparr>, s1)"
    "sv_pending s1 (sv_seq s + 1) = Some (Some pi)" "sv_raw s1 ! pi = itoa (sint i)"
    "sr_Params (sv_req s1) = Some q" "sv_raw s1 ! q = pt" "sv_out s1 = sv_out s"
proof -
  let ?rq = "request_members meth pt i"
  have d: "jd_err (sv_dec s) = None" "jd_in (sv_dec s) = object_text ?rq @ [CHR 0x0A]" using assms(2) by (simp_all add: on_wire_def)
  have spec: "request_spec ?rq" using request_members_spec [OF assms(7)] assms(5) by blast
  note ok = request_members_ok [OF assms(3,4,7)]
  obtain r' h' where rr: "request_read ?rq r' h'" and rh: "sv_ReadHeader m0 s =
     (let m = m0\<lparr>m_Method := str (sr_Method r'), m_Target := header_get (m_Header m0) ''Path''\<rparr>;
       c = s\<lparr>sv_dec := (sv_dec s)\<lparr>jd_in := [CHR 0x0A]\<rparr>, sv_req := r', sv_raw := h'\<rparr> in
       if header_get (m_Header m) ''HttpMethod'' \<noteq> str ''POST'' then (Err (as_error errMethod), m, c)
       else (Ok (), m\<lparr>m_ID := sv_seq c + 1\<rparr>,
         c\<lparr>sv_seq := sv_seq c + 1, sv_pending := (sv_pending c)(sv_seq c + 1 \<mapsto> sr_ID r'), sv_req := r'\<lparr>sr_ID := None\<rparr>\<rparr>))"
    by (rule ReadHeader_accepted [OF assms(1) d ends_num_Cons(5) ok spec])
  from rr obtain q pi where q: "sr_Method r' = meth" "sr_Params r' = Some q" "h' ! q = pt" "sr_ID r' = Some pi" "h' ! pi = itoa (sint i)"
    using itoa_not_null [OF assms(7)] text_of_quote [OF assms(3)] unfolding request_read_def request_members_map by auto
  show ?thesis using rh assms(6) q that [of _ pi q] by (simp add: Let_def)
qed

lemma server_writes:
  assumes "sv_pending s (m_ID r) = Some (Some pi)" "sv_raw s ! pi = itoa (sint i)" "0 \<le> sint i" "m_Error r = []"
  obtains s2 where "sv_Write r (Some (Ok rt)) s = (Ok (), s2)" "sv_raw s2 = sv_raw s"
    "sv_out s2 = sv_out s @ object_text [(''jsonrpc'', quote Version), (''id'', itoa (sint i)), (''result'', rt)] @ [CHR 0x0A]"
  using Write_result [OF assms(1) _ assms(4), of rt] assms(2,3) that by (simp add: itoa_json_text compact_itoa)

text \<open>
  A request that the client writes is read by the server with its method and its parameters, and the response to the number that
  the server gave it is read by the client as the response to that request: with its method, its number
  (as far as it is sent) and the result that the server wrote.
\<close>

theorem jsonrpc_exchange:
  assumes c: "cc_out c = []" and s: "codec_ok s" "sv_out s = []"
    and m: "m_Method m = str meth" "utf8_text meth" "check_param (Some p) = Ok (Some p)" "ga_Marshal p = Ok pt" "json_text pt"
      "hd pt = CHR ''['' \<or> hd pt = CHR ''{''" "header_get (m_Header m0) ''HttpMethod'' = str ''POST''"
    and r: "json_text rt" "\<not> is_null rt" "m_Error r = []"
  shows "\<exists>c1 m1 s1 s2 m2 c2. cc_Write m (Some p) c = (Ok (), c1) \<and>
    sv_ReadHeader m0 (s\<lparr>sv_dec := on_wire (cc_out c1)\<rparr>) = (Ok (), m1, s1) \<and>
    m_Method m1 = m_Method m \<and> (\<exists>q. sr_Params (sv_req s1) = Some q \<and> sv_raw s1 ! q = pt) \<and>
    sv_Write (r\<lparr>m_ID := m_ID m1\<rparr>) (Some (Ok rt)) s1 = (Ok (), s2) \<and>
    cc_ReadHeader norm m' (c1\<lparr>cc_dec := on_wire (sv_out s2)\<rparr>) = (Ok (), m2, c2) \<and>
    m_Method m2 = m_Method m \<and> m_ID m2 = m_ID m AND MAX_JSONRPC_ID \<and> m_Error m2 = [] \<and> cp_Result (cc_resp c2) = Some rt"
proof -
  let ?i = "m_ID m AND MAX_JSONRPC_ID"
  have i: "0 \<le> sint ?i" by (rule masked_id)
  obtain c1 where c1: "cc_Write m (Some p) c = (Ok (), c1)" "cc_out c1 = object_text (request_members meth pt ?i) @ [CHR 0x0A]"
      "cc_pending c1 = (cc_pending c)(?i \<mapsto> meth)"
    using cc_Write_text [OF m(3), of pt m c] m(1,4) c by auto
  let ?s = "s\<lparr>sv_dec := on_wire (cc_out c1)\<rparr>"
  have ok: "codec_ok ?s" "sv_dec ?s = on_wire (object_text (request_members meth pt ?i) @ [CHR 0x0A])"
    using s(1) c1(2) by (simp_all add: codec_ok_def)
  obtain s1 pi q where s1: "sv_ReadHeader m0 ?s =
      (Ok (), m0\<lparr>m_Method := str meth, m_Target := header_get (m_Header m0) ''Path'', m_ID := sv_seq ?s + 1\<rparr>, s1)"
      "sv_pending s1 (sv_seq ?s + 1) = Some (Some pi)" "sv_raw s1 ! pi = itoa (sint ?i)"
      "sr_Params (sv_req s1) = Some q" "sv_raw s1 ! q = pt" "sv_out s1 = sv_out ?s"
    by (rule server_reads [OF ok m(2,5,6,7) i])
  let ?r = "r\<lparr>m_ID := sv_seq ?s + 1\<rparr>"
  have p: "sv_pending s1 (m_ID ?r) = Some (Some pi)" "m_Error ?r = []" using s1(2) r(3) by simp_all
  obtain s2 where s2: "sv_Write ?r (Some (Ok rt)) s1 = (Ok (), s2)" "sv_raw s2 = sv_raw s1"
      "sv_out s2 = sv_out s1 @ object_text [(''jsonrpc'', quote Version), (''id'', itoa (sint ?i)), (''result'', rt)] @ [CHR 0x0A]"
    by (rule server_writes [OF p(1) s1(3) i p(2)])
  have w: "cc_dec (c1\<lparr>cc_dec := on_wire (sv_out s2)\<rparr>) =
      on_wire (object_text [(''jsonrpc'', quote Version), (''id'', itoa (sint ?i)), (''result'', rt)] @ [CHR 0x0A])"
    "cc_pending (c1\<lparr>cc_dec := on_wire (sv_out s2)\<rparr>) ?i = Some meth" using s2(3) s1(6) s(2) c1(3) by simp_all
  obtain c2 where "cc_ReadHeader norm m' (c1\<lparr>cc_dec := on_wire (sv_out s2)\<rparr>) =
      (Ok (), m'\<lparr>m_Method := str meth, m_ID := ?i, m_Error := []\<rparr>, c2)" "cp_Result (cc_resp c2) = Some rt"
    "cc_pending c2 = (cc_pending (c1\<lparr>cc_dec := on_wire (sv_out s2)\<rparr>))(?i := None)"
    by (rule cc_ReadHeader_result [OF w(1) i r(1,2) w(2)])
  then show ?thesis using c1(1) s1 s2(1) m(1) by fastforce
qed

text \<open>A slice of numbers as the argument of a call.\<close>

definition arg1 :: goarg where
  "arg1 = \<lparr>ga_Type = RType KSlice [] [] None None False, ga_IsNil = False, ga_ElemIsNil = None, ga_Marshal = Ok ''[1]''\<rparr>"

definition post_message :: Message where
  "post_message = Message0\<lparr>m_Method := str ''m'', m_Header := [str ''HttpMethod'' \<mapsto> str ''POST'']\<rparr>"

lemma post_message_simps: "m_Method post_message = str ''m''" "m_Error post_message = []"
  "header_get (m_Header post_message) ''HttpMethod'' = str ''POST''" "m_ID post_message = 0"
  by (simp_all add: post_message_def Message0_def header_get_def)

lemma arg1_simps: "check_param (Some arg1) = Ok (Some arg1)" "ga_Marshal arg1 = Ok ''[1]''" "json_text ''[1]''"
  by (simp_all add: arg1_def check_param_def) code_simp

theorem jsonrpc_exchange_witness:
  "\<exists>c1 m1 s1 s2 m2 c2. cc_Write post_message (Some arg1) (newClientCodec []) = (Ok (), c1) \<and>
    sv_ReadHeader post_message ((newServerCodec [] raw0)\<lparr>sv_dec := on_wire (cc_out c1)\<rparr>) = (Ok (), m1, s1) \<and>
    sv_Write (post_message\<lparr>m_ID := m_ID m1\<rparr>) (Some (Ok ''{}'')) s1 = (Ok (), s2) \<and>
    cc_ReadHeader id Message0 (c1\<lparr>cc_dec := on_wire (sv_out s2)\<rparr>) = (Ok (), m2, c2) \<and> cp_Result (cc_resp c2) = Some ''{}''"
proof -
  have "cc_out (newClientCodec []) = []" "codec_ok (newServerCodec [] raw0)" "sv_out (newServerCodec [] raw0) = []"
    by (simp_all add: newClientCodec_def newServerCodec_def codec_ok_def req_ptrs_def raw0_def)
  from jsonrpc_exchange [OF this post_message_simps(1) utf8_m arg1_simps _ post_message_simps(3) json_text_consts(2) _ post_message_simps(2)]
  show ?thesis by (simp add: is_null_def) blast
qed

lemma marshal_null: "marshal_raw ''null'' = Ok ''null''"
  by code_simp

lemma send_error_out:
  assumes "sv_raw c ! null_ptr = ''null''" "er_Data e = DNil"
  shows "sv_out (send_error e c) = sv_out c @ object_text [(''jsonrpc'', quote Version), (''id'', ''null''), (''error'', Error_Error id e)] @ [CHR 0x0A]"
  using assms by (cases e) (simp add: send_error_def encode_response_def marshal_null add_member_def add_opt_def sv_send_def)

text \<open>
  C39: A call without an argument, or with a nil slice or map, is refused by the server of the same package. The client does not omit the
  parameters, as its comment says, but writes null for them, and the server takes parameters that are
  null for a bad request, to which it replies with the code of an invalid request.
\<close>

theorem nil_params_refused:
  assumes "check_param param = Ok None" "cc_out c = []" "codec_ok s" "sv_out s = []" "m_Method m = str meth" "utf8_text meth"
  shows "\<exists>c1 s1. cc_Write m param c = (Ok (), c1) \<and>
    sv_ReadHeader m0 (s\<lparr>sv_dec := on_wire (cc_out c1)\<rparr>) = (Err bad_request, m0, s1) \<and>
    sv_pending s1 = sv_pending s \<and>
    sv_out s1 = object_text [(''jsonrpc'', quote Version), (''id'', ''null''), (''error'', Error_Error id errRequest)] @ [CHR 0x0A]"
proof -
  let ?i = "m_ID m AND MAX_JSONRPC_ID"
  let ?rq = "request_members meth ''null'' ?i"
  have i: "0 \<le> sint ?i" by (rule masked_id)
  obtain c1 where c1: "cc_Write m param c = (Ok (), c1)" "cc_out c1 = object_text ?rq @ [CHR 0x0A]"
    using cc_Write_text [OF assms(1), of "''null''" m c] assms(2,5) by auto
  let ?s = "s\<lparr>sv_dec := on_wire (cc_out c1)\<rparr>"
  have rq: "members_ok ?rq" "distinct (map (unquote \<circ> fst) ?rq)" using request_members_ok [OF assms(6) json_text_consts(1) i] by simp_all
  have d: "Decode_raw (sv_dec ?s) = (Ok (object_text ?rq), (sv_dec ?s)\<lparr>jd_in := [CHR 0x0A]\<rparr>)"
    using rq by (intro Decode_raw_text) (auto simp: on_wire_def c1)
  have om: "object_members (object_text ?rq) = Some ?rq" using object_members_text [OF rq(1), of "[]"] by simp
  have spec: "\<not> request_spec ?rq" using request_members_spec [OF i] by simp
  obtain r0 h0 where 0: "req_reset (sv_req ?s) (sv_raw ?s) = (r0, h0)" by fastforce
  have k: "req_ptrs r0 h0" "h0 \<noteq> []" "h0 ! null_ptr = ''null''" using reset_ok [OF _ _ _ 0] assms(3) by (auto simp: codec_ok_def)
  obtain r1 h1 where u: "UnmarshalJSON (object_text ?rq) (r0, h0) = (Some bad_request, r1, h1)"
    using request_accepted_aux [OF om rq(2) k] spec by blast
  have n: "h1 ! null_ptr = ''null''" using UnmarshalJSON_ptrs [OF u k] by simp
  show ?thesis using c1(1) assms(4) u n 0 d
    by (simp add: sv_ReadHeader_def Let_def bad_request_def send_error_out errRequest_def jNewError_def)
qed

theorem nil_params_refused_witness:
  "\<exists>c1 s1. cc_Write post_message None (newClientCodec []) = (Ok (), c1) \<and>
    sv_ReadHeader post_message ((newServerCodec [] raw0)\<lparr>sv_dec := on_wire (cc_out c1)\<rparr>) = (Err bad_request, post_message, s1)"
proof -
  have "check_param None = Ok None" "cc_out (newClientCodec []) = []" "codec_ok (newServerCodec [] raw0)" "sv_out (newServerCodec [] raw0) = []"
    by (simp_all add: check_param_def newClientCodec_def newServerCodec_def codec_ok_def req_ptrs_def raw0_def)
  from nil_params_refused [OF this post_message_simps(1) utf8_m] show ?thesis by blast
qed

text \<open>
  Only 31 bits of the number of a request are sent. Two requests whose numbers agree there share an entry of the table, and the
  response to the first of them is taken for a response to the method of the second.
\<close>

theorem masked_ids_collide:
  assumes "check_param pa = Ok qa" "check_param pb = Ok qb" "(case qa of None \<Rightarrow> Ok ''null'' | Some p \<Rightarrow> ga_Marshal p) = Ok ta"
    and "(case qb of None \<Rightarrow> Ok ''null'' | Some p \<Rightarrow> ga_Marshal p) = Ok tb"
    and "m_ID m1 AND MAX_JSONRPC_ID = m_ID m2 AND MAX_JSONRPC_ID" "json_text t" "\<not> is_null t"
  shows "\<exists>c1 c2 m3 c3. cc_Write m1 pa c = (Ok (), c1) \<and> cc_Write m2 pb c1 = (Ok (), c2) \<and>
    cc_ReadHeader norm m (c2\<lparr>cc_dec := on_wire (object_text [(''jsonrpc'', quote Version),
       (''id'', itoa (sint (m_ID m1 AND MAX_JSONRPC_ID))), (''result'', t)] @ [CHR 0x0A])\<rparr>) = (Ok (), m3, c3) \<and>
    m_Method m3 = m_Method m2"
proof -
  obtain c1 where c1: "cc_Write m1 pa c = (Ok (), c1)" by (rule cc_Write_text [OF assms(1,3)])
  obtain c2 where c2: "cc_Write m2 pb c1 = (Ok (), c2)"
    "cc_pending c2 = (cc_pending c1)(m_ID m2 AND MAX_JSONRPC_ID \<mapsto> chars (m_Method m2))" by (rule cc_Write_text [OF assms(2,4)])
  show ?thesis
    by (rule cc_ReadHeader_result [of "c2\<lparr>cc_dec := on_wire (object_text [(''jsonrpc'', quote Version),
       (''id'', itoa (sint (m_ID m1 AND MAX_JSONRPC_ID))), (''result'', t)] @ [CHR 0x0A])\<rparr>" "m_ID m1 AND MAX_JSONRPC_ID" t "chars (m_Method m2)" norm m])
      (use c1 c2 assms(5-7) masked_id in \<open>auto simp: c2\<close>)
qed

end
