(* ===== verification/Hessian_Const.thy ===== *)
theory Hessian_Const
  imports Go_Prelude
begin

text \<open>
  The constants of \<^verbatim>\<open>codec/hessian/const.go\<close>: the tag bytes of the Hessian 2.0 wire format and
  the bounds of its compact forms. They are abbreviations, so that a tag is its number wherever
  the simplifier meets it.
\<close>

abbreviation (input) CHUNK_SIZE :: nat where "CHUNK_SIZE \<equiv> 4096"
abbreviation (input) BC_BINARY :: byte where "BC_BINARY \<equiv> 0x42"
abbreviation (input) BC_BINARY_CHUNK :: byte where "BC_BINARY_CHUNK \<equiv> 0x41"
abbreviation (input) BC_BINARY_DIRECT :: byte where "BC_BINARY_DIRECT \<equiv> 0x20"
abbreviation (input) BINARY_DIRECT_MAX :: nat where "BINARY_DIRECT_MAX \<equiv> 0x0f"
abbreviation (input) BC_BINARY_SHORT :: byte where "BC_BINARY_SHORT \<equiv> 0x34"
abbreviation (input) BINARY_SHORT_MAX :: nat where "BINARY_SHORT_MAX \<equiv> 0x3ff"
abbreviation (input) BC_DATE :: byte where "BC_DATE \<equiv> 0x4a"
abbreviation (input) BC_DATE_MINUTE :: byte where "BC_DATE_MINUTE \<equiv> 0x4b"
abbreviation (input) BC_DOUBLE :: byte where "BC_DOUBLE \<equiv> 0x44"
abbreviation (input) BC_DOUBLE_ZERO :: byte where "BC_DOUBLE_ZERO \<equiv> 0x5b"
abbreviation (input) BC_DOUBLE_ONE :: byte where "BC_DOUBLE_ONE \<equiv> 0x5c"
abbreviation (input) BC_DOUBLE_BYTE :: byte where "BC_DOUBLE_BYTE \<equiv> 0x5d"
abbreviation (input) BC_DOUBLE_SHORT :: byte where "BC_DOUBLE_SHORT \<equiv> 0x5e"
abbreviation (input) BC_DOUBLE_MILL :: byte where "BC_DOUBLE_MILL \<equiv> 0x5f"
abbreviation (input) BC_FALSE :: byte where "BC_FALSE \<equiv> 0x46"
abbreviation (input) BC_TRUE :: byte where "BC_TRUE \<equiv> 0x54"
abbreviation (input) BC_NULL :: byte where "BC_NULL \<equiv> 0x4e"
abbreviation (input) BC_END :: byte where "BC_END \<equiv> 0x5a"
abbreviation (input) BC_REF :: byte where "BC_REF \<equiv> 0x51"

abbreviation (input) BC_INT :: byte where "BC_INT \<equiv> 0x49"
abbreviation (input) INT_DIRECT_MIN :: int where "INT_DIRECT_MIN \<equiv> - 0x10"
abbreviation (input) INT_DIRECT_MAX :: int where "INT_DIRECT_MAX \<equiv> 0x2f"
abbreviation (input) BC_INT_ZERO :: byte where "BC_INT_ZERO \<equiv> 0x90"
abbreviation (input) INT_BYTE_MIN :: int where "INT_BYTE_MIN \<equiv> - 0x800"
abbreviation (input) INT_BYTE_MAX :: int where "INT_BYTE_MAX \<equiv> 0x7ff"
abbreviation (input) BC_INT_BYTE_ZERO :: byte where "BC_INT_BYTE_ZERO \<equiv> 0xc8"
abbreviation (input) INT_SHORT_MIN :: int where "INT_SHORT_MIN \<equiv> - 0x40000"
abbreviation (input) INT_SHORT_MAX :: int where "INT_SHORT_MAX \<equiv> 0x3ffff"
abbreviation (input) BC_INT_SHORT_ZERO :: byte where "BC_INT_SHORT_ZERO \<equiv> 0xd4"

abbreviation (input) BC_LONG :: byte where "BC_LONG \<equiv> 0x4c"
abbreviation (input) LONG_DIRECT_MIN :: int where "LONG_DIRECT_MIN \<equiv> - 0x08"
abbreviation (input) LONG_DIRECT_MAX :: int where "LONG_DIRECT_MAX \<equiv> 0x0f"
abbreviation (input) BC_LONG_ZERO :: byte where "BC_LONG_ZERO \<equiv> 0xe0"
abbreviation (input) LONG_BYTE_MIN :: int where "LONG_BYTE_MIN \<equiv> - 0x800"
abbreviation (input) LONG_BYTE_MAX :: int where "LONG_BYTE_MAX \<equiv> 0x7ff"
abbreviation (input) BC_LONG_BYTE_ZERO :: byte where "BC_LONG_BYTE_ZERO \<equiv> 0xf8"
abbreviation (input) LONG_SHORT_MIN :: int where "LONG_SHORT_MIN \<equiv> - 0x40000"
abbreviation (input) LONG_SHORT_MAX :: int where "LONG_SHORT_MAX \<equiv> 0x3ffff"
abbreviation (input) BC_LONG_SHORT_ZERO :: byte where "BC_LONG_SHORT_ZERO \<equiv> 0x3c"
abbreviation (input) BC_LONG_INT :: byte where "BC_LONG_INT \<equiv> 0x59"

abbreviation (input) BC_LIST_VARIABLE :: byte where "BC_LIST_VARIABLE \<equiv> 0x55"
abbreviation (input) BC_LIST_FIXED :: byte where "BC_LIST_FIXED \<equiv> 0x56"
abbreviation (input) BC_LIST_VARIABLE_UNTYPED :: byte where "BC_LIST_VARIABLE_UNTYPED \<equiv> 0x57"
abbreviation (input) BC_LIST_FIXED_UNTYPED :: byte where "BC_LIST_FIXED_UNTYPED \<equiv> 0x58"
abbreviation (input) BC_LIST_DIRECT :: byte where "BC_LIST_DIRECT \<equiv> 0x70"
abbreviation (input) BC_LIST_DIRECT_UNTYPED :: byte where "BC_LIST_DIRECT_UNTYPED \<equiv> 0x78"
abbreviation (input) BC_MAP :: byte where "BC_MAP \<equiv> 0x4d"
abbreviation (input) BC_MAP_UNTYPED :: byte where "BC_MAP_UNTYPED \<equiv> 0x48"
abbreviation (input) BC_OBJECT :: byte where "BC_OBJECT \<equiv> 0x4f"
abbreviation (input) BC_OBJECT_DEF :: byte where "BC_OBJECT_DEF \<equiv> 0x43"
abbreviation (input) BC_OBJECT_DIRECT :: byte where "BC_OBJECT_DIRECT \<equiv> 0x60"
abbreviation (input) OBJECT_DIRECT_MAX :: byte where "OBJECT_DIRECT_MAX \<equiv> 0x0f"

abbreviation (input) BC_STRING :: byte where "BC_STRING \<equiv> 0x53"
abbreviation (input) BC_STRING_CHUNK :: byte where "BC_STRING_CHUNK \<equiv> 0x52"
abbreviation (input) BC_STRING_DIRECT :: byte where "BC_STRING_DIRECT \<equiv> 0x00"
abbreviation (input) STRING_DIRECT_MAX :: byte where "STRING_DIRECT_MAX \<equiv> 0x1f"
abbreviation (input) BC_STRING_SHORT :: byte where "BC_STRING_SHORT \<equiv> 0x30"
abbreviation (input) STRING_SHORT_MAX :: nat where "STRING_SHORT_MAX \<equiv> 0x3ff"

text \<open>
  \<^verbatim>\<open>TAG_READ\<close> is the flag -1 of the decoder functions: \<open>None\<close> in the model, where a flag is the
  tag the caller has already read, if any.
\<close>

abbreviation (input) TAG_READ :: "byte option" where "TAG_READ \<equiv> None"

definition STRING_NIL :: "byte list" where "STRING_NIL = str ''null''"
definition STRING_TRUE :: "byte list" where "STRING_TRUE = str ''true''"
definition STRING_FALSE :: "byte list" where "STRING_FALSE = str ''false''"
definition STRING_ZERO :: "byte list" where "STRING_ZERO = str ''0.0''"
definition STRING_ONE :: "byte list" where "STRING_ONE = str ''1.0''"
definition PATH_KEY :: "byte list" where "PATH_KEY = str ''path''"
definition INTERFACE_KEY :: "byte list" where "INTERFACE_KEY = str ''interface''"
definition VERSION_KEY :: "byte list" where "VERSION_KEY = str ''version''"
definition TIMEOUT_KEY :: "byte list" where "TIMEOUT_KEY = str ''timeout''"

end
