(* ===== verification/Hessian_Pack.thy ===== *)
theory Hessian_Pack
  imports Hessian_Const Go_Bufio
begin

text \<open>
  \<^verbatim>\<open>codec/hessian/codec.go\<close>: fixed-width integers as big-endian bytes. Each \<open>Unpack\<close> slices
  its argument first, which panics when the slice is too short.
\<close>

section \<open>Big-endian bytes\<close>

text \<open>\<^verbatim>\<open>binary.BigEndian.PutUint*\<close>: byte \<open>i\<close> from the top.\<close>

fun put_be :: "nat \<Rightarrow> 'a::len word \<Rightarrow> byte list" where
  "put_be 0 v = []"
| "put_be (Suc n) v = ucast (drop_bit (8 * n) v) # put_be n v"

text \<open>\<^verbatim>\<open>binary.BigEndian.Uint*\<close>.\<close>

fun get_be :: "byte list \<Rightarrow> 'a::len word" where
  "get_be [] = 0"
| "get_be (b # bs) = push_bit (8 * length bs) (ucast b) + get_be bs"

definition PackInt8 :: "byte \<Rightarrow> byte list \<Rightarrow> byte list" where
  "PackInt8 v b = b @ [v]"

definition PackInt16 :: "16 word \<Rightarrow> byte list" where
  "PackInt16 v = put_be 2 v"

definition PackUint16 :: "16 word \<Rightarrow> byte list" where
  "PackUint16 v = put_be 2 v"

definition PackInt32 :: "int32 \<Rightarrow> byte list" where
  "PackInt32 v = put_be 4 v"

definition PackInt64 :: "int64 \<Rightarrow> byte list" where
  "PackInt64 v = put_be 8 v"

text \<open>A \<^verbatim>\<open>float64\<close> is the 64-bit pattern that \<^verbatim>\<open>math.Float64bits\<close> gives.\<close>

definition PackFloat64 :: "64 word \<Rightarrow> byte list" where
  "PackFloat64 v = put_be 8 v"

definition UnpackInt16 :: "byte list \<Rightarrow> 16 word outcome" where
  "UnpackInt16 b = (if length b < 2 then Panic else Ok (get_be (take 2 b)))"

definition UnpackUint16 :: "byte list \<Rightarrow> 16 word outcome" where
  "UnpackUint16 b = (if length b < 2 then Panic else Ok (get_be (take 2 b)))"

definition UnpackInt32 :: "byte list \<Rightarrow> int32 outcome" where
  "UnpackInt32 b = (if length b < 4 then Panic else Ok (get_be (take 4 b)))"

definition UnpackInt64 :: "byte list \<Rightarrow> int64 outcome" where
  "UnpackInt64 b = (if length b < 8 then Panic else Ok (get_be (take 8 b)))"

definition UnpackFloat64 :: "byte list \<Rightarrow> 64 word outcome" where
  "UnpackFloat64 b = (if length b < 8 then Panic else Ok (get_be (take 8 b)))"

section \<open>Round trip\<close>

lemma length_put_be [simp]: "length (put_be n v) = n"
  by (induction n) auto

lemma put_be_2: "put_be 2 v = [ucast (drop_bit 8 v), ucast v]"
  by (simp add: numeral_2_eq_2)

lemma put_be_4: "put_be 4 v = [ucast (drop_bit 24 v), ucast (drop_bit 16 v), ucast (drop_bit 8 v), ucast v]"
  by (simp add: eval_nat_numeral)

lemma get_put_be: "get_be (put_be n (v :: 'a::len word)) = take_bit (8 * n) v"
proof (induction n)
  case 0
  then show ?case by simp
next
  case (Suc n)
  have "push_bit (8 * n) (ucast (ucast (drop_bit (8 * n) v) :: byte)) + take_bit (8 * n) v
      = push_bit (8 * n) (take_bit 8 (drop_bit (8 * n) v)) + take_bit (8 * n) v"
    by (intro arg_cong2 [where f = plus] refl bit_word_eqI)
      (auto simp: bit_simps)
  also have "\<dots> = take_bit (8 * Suc n) v"
    by (subst disjunctive_add) (auto simp: bit_simps intro!: bit_word_eqI)
  finally show ?case using Suc by simp
qed

lemma get_put_be_full: "LENGTH('a) \<le> 8 * n \<Longrightarrow> get_be (put_be n (v :: 'a::len word)) = v"
  by (simp add: get_put_be take_bit_word_eq_self)

lemma Unpack_Pack:
  "UnpackInt16 (PackInt16 a @ bs) = Ok a" "UnpackUint16 (PackUint16 a @ bs) = Ok a"
  "UnpackInt32 (PackInt32 c @ bs) = Ok c" "UnpackInt64 (PackInt64 d @ bs) = Ok d"
  "UnpackFloat64 (PackFloat64 d @ bs) = Ok d"
  by (simp_all add: UnpackInt16_def PackInt16_def UnpackUint16_def PackUint16_def UnpackInt32_def
      PackInt32_def UnpackInt64_def PackInt64_def UnpackFloat64_def PackFloat64_def get_put_be_full)

end
