(* ===== verification/Hessian_Int.thy ===== *)
theory Hessian_Int
  imports Hessian_Pack
begin

text \<open>
  Integers of the Hessian codec: \<^verbatim>\<open>encInt32\<close>, \<^verbatim>\<open>encInt64\<close> of \<^verbatim>\<open>codec/hessian/encode.go\<close> and
  \<^verbatim>\<open>decInt32\<close>, \<^verbatim>\<open>decInt64\<close> of \<^verbatim>\<open>codec/hessian/decode.go\<close>, with null and booleans. The
  theorems give, for every 32-bit and 64-bit integer, the value that decoding its encoding
  yields: the integer itself when it is not negative or lies below the compact ranges, and a
  shifted, positive value for the negative numbers with a compact form.
\<close>

section \<open>Encoding\<close>

definition encByte :: "byte list \<Rightarrow> byte list \<Rightarrow> byte list" where
  "encByte b t = b @ t"

definition encNull :: "byte list \<Rightarrow> byte list" where
  "encNull b = b @ [0x4e]"

definition encBool :: "bool \<Rightarrow> byte list \<Rightarrow> byte list" where
  "encBool v b = b @ [if v then BC_TRUE else BC_FALSE]"

definition encInt32 :: "int32 \<Rightarrow> byte list \<Rightarrow> byte list" where
  "encInt32 v b =
     (if INT_DIRECT_MIN \<le> sint v \<and> sint v \<le> INT_DIRECT_MAX then
        encByte b [ucast (v + ucast BC_INT_ZERO)]
      else if INT_BYTE_MIN \<le> sint v \<and> sint v \<le> INT_BYTE_MAX then
        encByte b [ucast (ucast BC_INT_BYTE_ZERO + signed_drop_bit 8 v), ucast v]
      else if INT_SHORT_MIN \<le> sint v \<and> sint v \<le> INT_SHORT_MAX then
        encByte b [ucast (signed_drop_bit 16 v + ucast BC_INT_SHORT_ZERO),
                   ucast (signed_drop_bit 8 v), ucast v]
      else
        encByte b [BC_INT, ucast (signed_drop_bit 24 v), ucast (signed_drop_bit 16 v),
                   ucast (signed_drop_bit 8 v), ucast v])"

text \<open>
  The fourth branch of the source asks for \<^verbatim>\<open>0x80000000 <= v && v <= 0x7fffffff\<close>, both read as
  positive numbers.
\<close>

definition encInt64 :: "int64 \<Rightarrow> byte list \<Rightarrow> byte list" where
  "encInt64 v b =
     (if LONG_DIRECT_MIN \<le> sint v \<and> sint v \<le> LONG_DIRECT_MAX then
        encByte b [ucast (v + ucast BC_LONG_ZERO)]
      else if LONG_BYTE_MIN \<le> sint v \<and> sint v \<le> LONG_BYTE_MAX then
        encByte b [ucast (ucast BC_LONG_BYTE_ZERO + signed_drop_bit 8 v), ucast v]
      else if LONG_SHORT_MIN \<le> sint v \<and> sint v \<le> LONG_SHORT_MAX then
        encByte b [ucast (ucast BC_LONG_SHORT_ZERO + signed_drop_bit 16 v),
                   ucast (signed_drop_bit 8 v), ucast v]
      else if 0x80000000 \<le> sint v \<and> sint v \<le> 0x7fffffff then
        encByte b [BC_LONG_INT, ucast (signed_drop_bit 24 v), ucast (signed_drop_bit 16 v),
                   ucast (signed_drop_bit 8 v), ucast v]
      else
        encByte b [BC_LONG, ucast (signed_drop_bit 56 v), ucast (signed_drop_bit 48 v),
                   ucast (signed_drop_bit 40 v), ucast (signed_drop_bit 32 v),
                   ucast (signed_drop_bit 24 v), ucast (signed_drop_bit 16 v),
                   ucast (signed_drop_bit 8 v), ucast v])"

section \<open>Decoding\<close>

text \<open>
  Every \<^verbatim>\<open>dec*\<close> function starts by taking its tag from the flag or, for \<^verbatim>\<open>TAG_READ\<close>, from the
  reader, ignoring the error: at the end of input the tag is 0.
\<close>

definition readTag :: "byte option \<Rightarrow> rdr \<Rightarrow> byte \<times> rdr" where
  "readTag flag r = (case flag of
     Some t \<Rightarrow> (t, r)
   | None \<Rightarrow> (case ReadByte r of (res, r') \<Rightarrow> (case res of Ok b \<Rightarrow> (b, r') | _ \<Rightarrow> (0, r'))))"

definition decInt32 :: "ext \<Rightarrow> byte option \<Rightarrow> rdr \<Rightarrow> int32 outcome \<times> rdr" where
  "decInt32 X flag r = (case readTag flag r of (tag, r) \<Rightarrow>
     if 0x80 \<le> tag \<and> tag \<le> 0xbf then (Ok (ucast (tag - BC_INT_ZERO)), r)
     else if 0xc0 \<le> tag \<and> tag \<le> 0xcf then
       otry (ReadFull 1 r) (traced X 0) (\<lambda>buf r.
         (Ok (push_bit 8 (ucast (tag - BC_INT_BYTE_ZERO)) + ucast (buf ! 0)), r))
     else if 0xd0 \<le> tag \<and> tag \<le> 0xd7 then
       otry (ReadFull 2 r) (traced X 0) (\<lambda>buf r.
         (Ok (push_bit 16 (ucast (tag - BC_INT_SHORT_ZERO)) + push_bit 8 (ucast (buf ! 0))
              + ucast (buf ! 1)), r))
     else if tag = BC_INT then
       otry (ReadFull 4 r) (traced X 0) (\<lambda>buf r.
         (Ok (push_bit 24 (ucast (buf ! 0)) + push_bit 16 (ucast (buf ! 1))
              + push_bit 8 (ucast (buf ! 2)) + ucast (buf ! 3)), r))
     else (Err (Errorf ''decInt32 integer wrong tag:%#x''), r))"

text \<open>\<^verbatim>\<open>i32, err := d.decInt32(TAG_READ); return int64(i32), err\<close>.\<close>

definition decInt32_as_int64 :: "ext \<Rightarrow> rdr \<Rightarrow> int64 outcome \<times> rdr" where
  "decInt32_as_int64 X r = otry (decInt32 X TAG_READ r) (\<lambda>e r. (Err e, r)) (\<lambda>i r. (Ok (scast i), r))"

definition decInt64 :: "ext \<Rightarrow> byte option \<Rightarrow> rdr \<Rightarrow> int64 outcome \<times> rdr" where
  "decInt64 X flag r = (case readTag flag r of (tag, r) \<Rightarrow>
     if tag = 0x4e then (Ok 0, r)
     else if tag = 0x46 then (Ok 0, r)
     else if tag = 0x54 then (Ok 1, r)
     else if 0x80 \<le> tag \<and> tag \<le> 0xbf then (Ok (ucast (tag - BC_INT_ZERO)), r)
     else if 0xc0 \<le> tag \<and> tag \<le> 0xcf then
       otry (ReadFull 1 r) (traced X 0) (\<lambda>buf r.
         (Ok (push_bit 8 (ucast (tag - BC_INT_BYTE_ZERO)) + ucast (buf ! 0)), r))
     else if 0xd0 \<le> tag \<and> tag \<le> 0xd7 then
       otry (ReadFull 2 r) (traced X 0) (\<lambda>buf r.
         (Ok (push_bit 16 (ucast (tag - BC_INT_SHORT_ZERO)) + push_bit 8 (ucast (buf ! 0))
              + ucast (buf ! 1)), r))
     else if tag = BC_DOUBLE_BYTE then (case readTag TAG_READ r of (t, r) \<Rightarrow> (Ok (ucast t), r))
     else if tag = BC_DOUBLE_SHORT then
       otry (ReadFull 2 r) (traced X 0) (\<lambda>buf r.
         (Ok (push_bit 8 (ucast (buf ! 0)) + ucast (buf ! 1)), r))
     else if tag = BC_INT then decInt32_as_int64 X r
     else if tag = BC_LONG_INT then decInt32_as_int64 X r
     else if 0xd8 \<le> tag \<and> tag \<le> 0xef then (Ok (ucast (tag - BC_LONG_ZERO)), r)
     else if 0xf0 \<le> tag \<and> tag \<le> 0xff then
       otry (ReadFull 1 r) (traced X 0) (\<lambda>buf r.
         (Ok (push_bit 8 (ucast (tag - BC_LONG_BYTE_ZERO)) + ucast (buf ! 0)), r))
     else if 0x38 \<le> tag \<and> tag \<le> 0x3f then
       otry (ReadFull 2 r) (traced X 0) (\<lambda>buf r.
         (Ok (push_bit 16 (ucast (tag - BC_LONG_SHORT_ZERO)) + push_bit 8 (ucast (buf ! 0))
              + ucast (buf ! 1)), r))
     else if tag = BC_LONG then
       otry (ReadFull 8 r) (traced X 0) (\<lambda>buf r.
         (Ok (push_bit 56 (ucast (buf ! 0)) + push_bit 48 (ucast (buf ! 1))
              + push_bit 40 (ucast (buf ! 2)) + push_bit 32 (ucast (buf ! 3))
              + push_bit 24 (ucast (buf ! 4)) + push_bit 16 (ucast (buf ! 5))
              + push_bit 8 (ucast (buf ! 6)) + ucast (buf ! 7)), r))
     else if tag = BC_DOUBLE_ZERO then (Ok 0, r)
     else if tag = BC_DOUBLE_ONE then (Ok 1, r)
     else if tag = BC_DOUBLE_MILL then
       otry (decInt32 X TAG_READ r) (traced X 0) (\<lambda>i r. (ret (scast i) (je_Trace X None), r))
     else (Err (Errorf ''decInt64 long wrong tag:%#x''), r))"

section \<open>Tags\<close>

lemma readTag_Some [simp]: "readTag (Some t) r = (t, r)"
  by (simp add: readTag_def)

text \<open>Reading the tag first and passing it on is the same as letting the function read it.\<close>

lemma readTag_Cons:
  assumes "content r = t # bs"
  shows "\<exists>r'. ReadByte r = (Ok t, r') \<and> readTag TAG_READ r = (t, r') \<and> content r' = bs \<and>
    (rdr_ok r \<longrightarrow> rdr_ok r')"
  using rd.rbyte_Cons [OF assms] by (auto simp: readTag_def)

lemma takes_tag:
  assumes "\<And>r r'. readTag TAG_READ r = (t, r') \<Longrightarrow> p None r = p (Some t) r'"
    and "takes (p (Some t)) bs v"
  shows "takes (p None) (t # bs) v"
proof (rule takesI)
  fix r rest assume "content r = (t # bs) @ rest"
  then have "content r = t # bs @ rest" by simp
  from readTag_Cons [OF this] obtain r1 where r1: "readTag TAG_READ r = (t, r1)"
    "content r1 = bs @ rest" "rdr_ok r \<longrightarrow> rdr_ok r1" by blast
  from assms(2) r1(2) obtain r2 where "p (Some t) r1 = (Ok v, r2)" "content r2 = rest"
    "rdr_ok r1 \<longrightarrow> rdr_ok r2" by (rule takesE)
  with assms(1) [OF r1(1)] r1 show "\<exists>r'. p None r = (Ok v, r') \<and> content r' = rest \<and> (rdr_ok r \<longrightarrow> rdr_ok r')"
    by auto
qed

lemma takes_decInt32_tag: "takes (decInt32 X (Some t)) bs v \<Longrightarrow> takes (decInt32 X None) (t # bs) v"
  by (rule takes_tag [where p = "decInt32 X"]) (simp add: decInt32_def, assumption)

lemma takes_decInt64_tag: "takes (decInt64 X (Some t)) bs v \<Longrightarrow> takes (decInt64 X None) (t # bs) v"
  by (rule takes_tag [where p = "decInt64 X"]) (simp add: decInt64_def, assumption)

section \<open>What decoding an encoded integer gives\<close>

text \<open>
  The decoder subtracts the zero tag as unsigned bytes, so the sign of a compact form is lost:
  \<open>int32_back v\<close> and \<open>int64_back v\<close> are the values that come back.
\<close>

definition int32_back :: "int32 \<Rightarrow> int32" where
  "int32_back v =
     (if 0 \<le> sint v then v
      else if INT_DIRECT_MIN \<le> sint v then v + 0x100
      else if INT_BYTE_MIN \<le> sint v then v + 0x10000
      else if INT_SHORT_MIN \<le> sint v then v + 0x1000000
      else v)"

definition int64_back :: "int64 \<Rightarrow> int64" where
  "int64_back v =
     (if 0 \<le> sint v then v
      else if LONG_DIRECT_MIN \<le> sint v then v + 0x100
      else if LONG_BYTE_MIN \<le> sint v then v + 0x10000
      else if LONG_SHORT_MIN \<le> sint v then v + 0x1000000
      else v)"

lemma decInt32_cases:
  "0x80 \<le> t \<Longrightarrow> t \<le> 0xbf \<Longrightarrow> decInt32 X (Some t) = (\<lambda>r. (Ok (ucast (t - BC_INT_ZERO)), r))"
  "0xc0 \<le> t \<Longrightarrow> t \<le> 0xcf \<Longrightarrow> decInt32 X (Some t) = (\<lambda>r. otry (ReadFull 1 r) (traced X 0) (\<lambda>buf r.
     (Ok (push_bit 8 (ucast (t - BC_INT_BYTE_ZERO)) + ucast (buf ! 0)), r)))"
  "0xd0 \<le> t \<Longrightarrow> t \<le> 0xd7 \<Longrightarrow> decInt32 X (Some t) = (\<lambda>r. otry (ReadFull 2 r) (traced X 0) (\<lambda>buf r.
     (Ok (push_bit 16 (ucast (t - BC_INT_SHORT_ZERO)) + push_bit 8 (ucast (buf ! 0))
          + ucast (buf ! 1)), r)))"
  "decInt32 X (Some BC_INT) = (\<lambda>r. otry (ReadFull 4 r) (traced X 0) (\<lambda>buf r.
     (Ok (push_bit 24 (ucast (buf ! 0)) + push_bit 16 (ucast (buf ! 1))
          + push_bit 8 (ucast (buf ! 2)) + ucast (buf ! 3)), r)))"
  by (auto simp: decInt32_def byte_le_uint fun_eq_iff)

lemma decInt64_cases:
  "0xd8 \<le> t \<Longrightarrow> t \<le> 0xef \<Longrightarrow> decInt64 X (Some t) = (\<lambda>r. (Ok (ucast (t - BC_LONG_ZERO)), r))"
  "0xf0 \<le> t \<Longrightarrow> t \<le> 0xff \<Longrightarrow> decInt64 X (Some t) = (\<lambda>r. otry (ReadFull 1 r) (traced X 0) (\<lambda>buf r.
     (Ok (push_bit 8 (ucast (t - BC_LONG_BYTE_ZERO)) + ucast (buf ! 0)), r)))"
  "0x38 \<le> t \<Longrightarrow> t \<le> 0x3f \<Longrightarrow> decInt64 X (Some t) = (\<lambda>r. otry (ReadFull 2 r) (traced X 0) (\<lambda>buf r.
     (Ok (push_bit 16 (ucast (t - BC_LONG_SHORT_ZERO)) + push_bit 8 (ucast (buf ! 0))
          + ucast (buf ! 1)), r)))"
  "decInt64 X (Some BC_LONG) = (\<lambda>r. otry (ReadFull 8 r) (traced X 0) (\<lambda>buf r.
     (Ok (push_bit 56 (ucast (buf ! 0)) + push_bit 48 (ucast (buf ! 1))
          + push_bit 40 (ucast (buf ! 2)) + push_bit 32 (ucast (buf ! 3))
          + push_bit 24 (ucast (buf ! 4)) + push_bit 16 (ucast (buf ! 5))
          + push_bit 8 (ucast (buf ! 6)) + ucast (buf ! 7)), r)))"
  by (auto simp: decInt64_def byte_le_uint fun_eq_iff)

text \<open>The value of a compact form whose tag is \<open>d\<close> away from the zero tag.\<close>

lemma compact_byte:
  fixes t z :: byte
  assumes "uint t = i div 2 ^ 8 + uint z"
  shows "push_bit 8 (ucast (t - z)) + ucast (word_of_int i :: byte) = (word_of_int (i mod 2 ^ 16) :: 'a::len word)"
proof -
  have "i div 2 ^ 8 mod 256 * 2 ^ 8 + i mod 256 = i mod 2 ^ 16"
    using mod_byte_split [of 16 8 i] by simp
  with tag_minus [OF assms] show ?thesis
    by (simp only: go_word of_int_add [symmetric])
qed

lemma compact_short:
  fixes t z :: byte
  assumes "uint t = i div 2 ^ 16 + uint z"
  shows "push_bit 16 (ucast (t - z)) + push_bit 8 (ucast (word_of_int (i div 2 ^ 8) :: byte))
     + ucast (word_of_int i :: byte) = (word_of_int (i mod 2 ^ 24) :: 'a::len word)"
proof -
  have "i div 2 ^ 16 mod 256 * 2 ^ 16 + i div 2 ^ 8 mod 256 * 2 ^ 8 + i mod 256 = i mod 2 ^ 24"
    using mod_byte_split [of 24 16 i] mod_byte_split [of 16 8 i] by simp
  with tag_minus [OF assms] show ?thesis
    by (simp only: go_word of_int_add [symmetric])
qed

lemma int32_back_mod:
  assumes "m = 8 \<and> - 0x10 \<le> sint v \<or> m = 16 \<and> - 0x800 \<le> sint v \<and> (sint v < - 0x10 \<or> 0 \<le> sint v) \<or>
    m = 24 \<and> - 0x40000 \<le> sint v \<and> (sint v < - 0x800 \<or> 0 \<le> sint v)" "sint v < 2 ^ (m - 1)" 
  shows "int32_back v = word_of_int (sint v mod 2 ^ m)"
proof (cases "0 \<le> sint v")
  case True
  then show ?thesis using assms by (auto simp: int32_back_def)
next
  case False
  then have "sint v mod 2 ^ m = sint v + 2 ^ m"
    using assms by (intro neg_mod_shift) auto
  then show ?thesis using assms False by (auto simp: int32_back_def)
qed

lemma decInt32_encInt32:
  "\<exists>t bs. encInt32 v [] = t # bs \<and> takes (decInt32 X (Some t)) bs (int32_back v) \<and>
     (0x80 \<le> t \<and> t \<le> 0xd7 \<or> t = BC_INT)"
proof -
  define i where "i = sint v"
  consider "- 0x10 \<le> i \<and> i \<le> 0x2f" | "\<not> (- 0x10 \<le> i \<and> i \<le> 0x2f)" "- 0x800 \<le> i \<and> i \<le> 0x7ff" 
    | "\<not> (- 0x10 \<le> i \<and> i \<le> 0x2f)" "\<not> (- 0x800 \<le> i \<and> i \<le> 0x7ff)" "- 0x40000 \<le> i \<and> i \<le> 0x3ffff"
    | "\<not> (- 0x10 \<le> i \<and> i \<le> 0x2f)" "\<not> (- 0x800 \<le> i \<and> i \<le> 0x7ff)" "\<not> (- 0x40000 \<le> i \<and> i \<le> 0x3ffff)"
    by blast
  then show ?thesis
  proof cases
    case 1
    let ?t = "word_of_int i + 0x90 :: byte"
    have e: "encInt32 v [] = [?t]"
      using 1 by (simp add: encInt32_def encByte_def i_def go_word) (simp add: byte_ucast)
    have u: "uint ?t = i + uint (0x90 :: byte)" using 1 by (intro uint_tag) simp_all
    have t: "0x80 \<le> ?t" "?t \<le> 0xbf" unfolding byte_le_uint u using 1 by simp_all
    have "int32_back v = word_of_int (i mod 2 ^ 8)"
      unfolding i_def by (rule int32_back_mod) (use 1 i_def in auto)
    then have "takes (decInt32 X (Some ?t)) [] (int32_back v)" using takes_return
      by (simp add: decInt32_cases(1) [OF t] tag_minus [OF u] ucast_byte_up del: add_diff_cancel_right')
    moreover have "0x80 \<le> ?t \<and> ?t \<le> 0xd7" using t by (auto simp: byte_le_uint)
    ultimately show ?thesis using e by blast
  next
    case 2
    let ?t = "0xc8 + word_of_int (i div 2 ^ 8) :: byte"
    have e: "encInt32 v [] = [?t, word_of_int i]" using 2 by (simp add: encInt32_def encByte_def i_def go_word) (simp add: byte_ucast)
    have d: "- 8 \<le> i div 2 ^ 8" "i div 2 ^ 8 < 8"
      using div_range [of "2 ^ 8" "- 8" i 8] 2 by simp_all
    then have u: "uint ?t = i div 2 ^ 8 + uint (0xc8 :: byte)" by (intro uint_tag) simp_all
    have t: "0xc0 \<le> ?t" "?t \<le> 0xcf" unfolding byte_le_uint u using d by simp_all
    have "int32_back v = word_of_int (i mod 2 ^ 16)"
      unfolding i_def by (rule int32_back_mod) (use 2 i_def in auto)
    then have "takes (decInt32 X (Some ?t)) [word_of_int i] (int32_back v)"
      unfolding decInt32_cases(2) [OF t]
      by (intro takes_fullI) (simp_all only: compact_byte [OF u] nth_Cons_0, simp)
    moreover have "0x80 \<le> ?t \<and> ?t \<le> 0xd7" using t by (auto simp: byte_le_uint)
    ultimately show ?thesis using e by blast
  next
    case 3
    let ?t = "word_of_int (i div 2 ^ 16) + 0xd4 :: byte"
    have e: "encInt32 v [] = [?t, word_of_int (i div 2 ^ 8), word_of_int i]"
      using 3 by (simp add: encInt32_def encByte_def i_def go_word) (simp add: byte_ucast)
    have d: "- 4 \<le> i div 2 ^ 16" "i div 2 ^ 16 < 4"
      using div_range [of "2 ^ 16" "- 4" i 4] 3 by simp_all
    then have u: "uint ?t = i div 2 ^ 16 + uint (0xd4 :: byte)" by (intro uint_tag) simp_all
    have t: "0xd0 \<le> ?t" "?t \<le> 0xd7" unfolding byte_le_uint u using d by simp_all
    have "int32_back v = word_of_int (i mod 2 ^ 24)"
      unfolding i_def by (rule int32_back_mod) (use 3 i_def in auto)
    then have "takes (decInt32 X (Some ?t)) [word_of_int (i div 2 ^ 8), word_of_int i] (int32_back v)"
      unfolding decInt32_cases(3) [OF t]
      by (intro takes_fullI) (simp_all only: compact_short [OF u] nth_Cons_0 nth_Cons_Suc One_nat_def, simp)
    moreover have "0x80 \<le> ?t \<and> ?t \<le> 0xd7" using t by (auto simp: byte_le_uint)
    ultimately show ?thesis using e by blast
  next
    case 4
    let ?bs = "[word_of_int (i div 2 ^ 24), word_of_int (i div 2 ^ 16), word_of_int (i div 2 ^ 8), word_of_int i]"
    have e: "encInt32 v [] = BC_INT # ?bs"
      using 4 by (simp add: encInt32_def encByte_def i_def go_word) (simp add: byte_ucast)
    have b: "int32_back v = word_of_int (i mod 2 ^ 32)"
      using 4 word_of_sint_mod [of v] by (auto simp: int32_back_def i_def)
    have "takes (decInt32 X (Some BC_INT)) ?bs (int32_back v)"
      unfolding decInt32_cases(4) b four_bytes [symmetric]
      by (rule takes_fullI) (simp_all add: numeral_nat(2,3) go_word fun_eq_iff)
    with e show ?thesis by blast
  qed
qed
lemma int64_back_mod:
  assumes "m = 8 \<and> - 0x8 \<le> sint v \<or> m = 16 \<and> - 0x800 \<le> sint v \<and> (sint v < - 0x8 \<or> 0 \<le> sint v) \<or>
    m = 24 \<and> - 0x40000 \<le> sint v \<and> (sint v < - 0x800 \<or> 0 \<le> sint v)" "sint v < 2 ^ (m - 1)" 
  shows "int64_back v = word_of_int (sint v mod 2 ^ m)"
proof (cases "0 \<le> sint v")
  case True
  then show ?thesis using assms by (auto simp: int64_back_def)
next
  case False
  then have "sint v mod 2 ^ m = sint v + 2 ^ m"
    using assms by (intro neg_mod_shift) auto
  then show ?thesis using assms False by (auto simp: int64_back_def)
qed

lemma decInt64_encInt64:
  "\<exists>t bs. encInt64 v [] = t # bs \<and> takes (decInt64 X (Some t)) bs (int64_back v) \<and>
     (0xd8 \<le> t \<or> 0x38 \<le> t \<and> t \<le> 0x3f \<or> t = BC_LONG)"
proof -
  define i where "i = sint v"
  consider "- 0x8 \<le> i \<and> i \<le> 0xf" | "\<not> (- 0x8 \<le> i \<and> i \<le> 0xf)" "- 0x800 \<le> i \<and> i \<le> 0x7ff" 
    | "\<not> (- 0x8 \<le> i \<and> i \<le> 0xf)" "\<not> (- 0x800 \<le> i \<and> i \<le> 0x7ff)" "- 0x40000 \<le> i \<and> i \<le> 0x3ffff"
    | "\<not> (- 0x8 \<le> i \<and> i \<le> 0xf)" "\<not> (- 0x800 \<le> i \<and> i \<le> 0x7ff)" "\<not> (- 0x40000 \<le> i \<and> i \<le> 0x3ffff)"
    by blast
  then show ?thesis
  proof cases
    case 1
    let ?t = "word_of_int i + 0xe0 :: byte"
    have e: "encInt64 v [] = [?t]"
      using 1 by (simp add: encInt64_def encByte_def i_def go_word) (simp add: byte_ucast)
    have u: "uint ?t = i + uint (0xe0 :: byte)" using 1 by (intro uint_tag) simp_all
    have t: "0xd8 \<le> ?t" "?t \<le> 0xef" unfolding byte_le_uint u using 1 by simp_all
    have "int64_back v = word_of_int (i mod 2 ^ 8)"
      unfolding i_def by (rule int64_back_mod) (use 1 i_def in auto)
    then have "takes (decInt64 X (Some ?t)) [] (int64_back v)" using takes_return
      by (simp add: decInt64_cases(1) [OF t] tag_minus [OF u] ucast_byte_up del: add_diff_cancel_right')
    with e t show ?thesis by blast
  next
    case 2
    let ?t = "0xf8 + word_of_int (i div 2 ^ 8) :: byte"
    have e: "encInt64 v [] = [?t, word_of_int i]" using 2 by (simp add: encInt64_def encByte_def i_def go_word) (simp add: byte_ucast)
    have d: "- 8 \<le> i div 2 ^ 8" "i div 2 ^ 8 < 8"
      using div_range [of "2 ^ 8" "- 8" i 8] 2 by simp_all
    then have u: "uint ?t = i div 2 ^ 8 + uint (0xf8 :: byte)" by (intro uint_tag) simp_all
    have t: "0xf0 \<le> ?t" "?t \<le> 0xff" unfolding byte_le_uint u using d by simp_all
    have "int64_back v = word_of_int (i mod 2 ^ 16)"
      unfolding i_def by (rule int64_back_mod) (use 2 i_def in auto)
    then have "takes (decInt64 X (Some ?t)) [word_of_int i] (int64_back v)"
      unfolding decInt64_cases(2) [OF t]
      by (intro takes_fullI) (simp_all only: compact_byte [OF u] nth_Cons_0, simp)
    moreover have "0xd8 \<le> ?t" using t by (auto simp: byte_le_uint)
    ultimately show ?thesis using e by blast
  next
    case 3
    let ?t = "0x3c + word_of_int (i div 2 ^ 16) :: byte"
    have e: "encInt64 v [] = [?t, word_of_int (i div 2 ^ 8), word_of_int i]"
      using 3 by (simp add: encInt64_def encByte_def i_def go_word) (simp add: byte_ucast)
    have d: "- 4 \<le> i div 2 ^ 16" "i div 2 ^ 16 < 4"
      using div_range [of "2 ^ 16" "- 4" i 4] 3 by simp_all
    then have u: "uint ?t = i div 2 ^ 16 + uint (0x3c :: byte)" by (intro uint_tag) simp_all
    have t: "0x38 \<le> ?t" "?t \<le> 0x3f" unfolding byte_le_uint u using d by simp_all
    have "int64_back v = word_of_int (i mod 2 ^ 24)"
      unfolding i_def by (rule int64_back_mod) (use 3 i_def in auto)
    then have "takes (decInt64 X (Some ?t)) [word_of_int (i div 2 ^ 8), word_of_int i] (int64_back v)"
      unfolding decInt64_cases(3) [OF t]
      by (intro takes_fullI) (simp_all only: compact_short [OF u] nth_Cons_0 nth_Cons_Suc One_nat_def, simp)
    with e t show ?thesis by blast
  next
    case 4
    let ?bs = "[word_of_int (i div 2 ^ 56), word_of_int (i div 2 ^ 48), word_of_int (i div 2 ^ 40), word_of_int (i div 2 ^ 32),
      word_of_int (i div 2 ^ 24), word_of_int (i div 2 ^ 16), word_of_int (i div 2 ^ 8), word_of_int i]"
    have e: "encInt64 v [] = BC_LONG # ?bs"
      using 4 by (simp add: encInt64_def encByte_def i_def go_word) (simp add: byte_ucast)
    have b: "int64_back v = word_of_int (i mod 2 ^ 64)"
      using 4 word_of_sint_mod [of v] by (auto simp: int64_back_def i_def)
    have "takes (decInt64 X (Some BC_LONG)) ?bs (int64_back v)"
      unfolding decInt64_cases(4) b eight_bytes [symmetric]
      by (rule takes_fullI) (simp_all add: numeral_nat(2,3) go_word fun_eq_iff)
    with e show ?thesis by blast
  qed
qed
section \<open>Round trips\<close>

lemma encInt32_append: "encInt32 v b = b @ encInt32 v []"
  by (simp add: encInt32_def encByte_def)

lemma encInt64_append: "encInt64 v b = b @ encInt64 v []"
  by (simp add: encInt64_def encByte_def)

lemma int32_back_id: "int32_back v = v \<longleftrightarrow> 0 \<le> sint v \<or> sint v < INT_SHORT_MIN"
  by (auto simp: int32_back_def)

lemma int64_back_id: "int64_back v = v \<longleftrightarrow> 0 \<le> sint v \<or> sint v < LONG_SHORT_MIN"
  by (auto simp: int64_back_def)

text \<open>
  C24: Decoding the bytes that \<^verbatim>\<open>encInt32\<close> writes consumes exactly those bytes, whatever follows
  them, and returns the encoded number if and only if it is non-negative or below -0x40000; a
  negative number with a one-, two- or three-byte form comes back increased by 0x100, 0x10000 or
  0x1000000.
\<close>

theorem int32_round_trip:
  "takes (decInt32 X TAG_READ) (encInt32 v [])
     (if 0 \<le> sint v then v
      else if INT_DIRECT_MIN \<le> sint v then v + 0x100
      else if INT_BYTE_MIN \<le> sint v then v + 0x10000
      else if INT_SHORT_MIN \<le> sint v then v + 0x1000000 else v)"
  using decInt32_encInt32 [of v X]
  by (auto simp: int32_back_def [symmetric] dest: takes_decInt32_tag)

text \<open>
  C25: The same for \<^verbatim>\<open>encInt64\<close> and \<^verbatim>\<open>decInt64\<close>: exact for non-negative numbers and for those
  below -0x40000, and shifted by 0x100, 0x10000 or 0x1000000 on the negative compact forms.
\<close>

theorem int64_round_trip:
  "takes (decInt64 X TAG_READ) (encInt64 v [])
     (if 0 \<le> sint v then v
      else if LONG_DIRECT_MIN \<le> sint v then v + 0x100
      else if LONG_BYTE_MIN \<le> sint v then v + 0x10000
      else if LONG_SHORT_MIN \<le> sint v then v + 0x1000000 else v)"
  using decInt64_encInt64 [of v X]
  by (auto simp: int64_back_def [symmetric] dest: takes_decInt64_tag)

text \<open>
  The 32-bit form of a long (tag 0x59 and four bytes) is not understood: \<^verbatim>\<open>encInt64\<close> never
  writes it, and \<^verbatim>\<open>decInt64\<close>, which reads a further tag after 0x59, rejects the form of every
  non-negative number whose top byte is not the tag of an int.
\<close>

theorem long_int_form:
  assumes "0 \<le> sint n" and "sint n div 2 ^ 24 \<noteq> 0x49" and "content r = PackInt32 n @ rest"
  shows "hd (encInt64 v []) \<noteq> BC_LONG_INT \<and>
    fst (decInt64 X (Some BC_LONG_INT) r) = Err (Errorf ''decInt32 integer wrong tag:%#x'')"
proof
  show "hd (encInt64 v []) \<noteq> BC_LONG_INT"
    using decInt64_encInt64 [of v X] by (auto simp: byte_le_uint)
  define b :: byte where "b = ucast (drop_bit 24 n)"
  have un: "uint n = sint n"
    using assms(1) by (rule uint_eq_sint)
  have small: "sint n div 2 ^ 24 < 0x80"
    using sint_lt [of n] div_range(2) [of "2 ^ 24" 0 "sint n" "0x80"] assms(1) by simp
  have "uint b = sint n div 2 ^ 24"
    using small assms(1)
    by (simp add: b_def unsigned_ucast_eq drop_bit_eq_div take_bit_eq_mod uint_div_distrib un
        pos_imp_zdiv_nonneg_iff)
  moreover note small
  ultimately have "\<not> 0x80 \<le> b" "\<not> 0xc0 \<le> b" "\<not> 0xd0 \<le> b" "b \<noteq> 0x49"
    using assms(2) by (auto simp: byte_le_uint)
  then have err: "decInt32 X (Some b) r' = (Err (Errorf ''decInt32 integer wrong tag:%#x''), r')" for r'
    by (simp add: decInt32_def)
  have "content r = b # put_be 3 n @ rest"
    using assms(3) put_be.simps(2) [of 3 n] by (simp add: PackInt32_def b_def)
  from readTag_Cons [OF this] err show
    "fst (decInt64 X (Some BC_LONG_INT) r) = Err (Errorf ''decInt32 integer wrong tag:%#x'')"
    by (auto simp: decInt64_def decInt32_as_int64_def decInt32_def byte_le_uint)
qed

theorem long_int_form_witness:
  "0 \<le> sint (5 :: int32) \<and>
   fst (decInt64 ext0 (Some BC_LONG_INT) (NewReader (PackInt32 5))) =
     Err (Errorf ''decInt32 integer wrong tag:%#x'')"
  using long_int_form [of 5 "NewReader (PackInt32 5)" "[]" 0 ext0] by simp

end
