(* ===== verification/Hessian_Scalar.thy ===== *)
theory Hessian_Scalar
  imports Hessian_Int
begin

text \<open>
  Dates and doubles of the Hessian codec: \<^verbatim>\<open>encDateInMs\<close>, \<^verbatim>\<open>encDateInMimute\<close>, \<^verbatim>\<open>encFloat\<close> of
  \<^verbatim>\<open>codec/hessian/encode.go\<close> and \<^verbatim>\<open>decDate\<close>, \<^verbatim>\<open>decDouble\<close> of \<^verbatim>\<open>codec/hessian/decode.go\<close>. A
  \<^verbatim>\<open>time.Time\<close> is its instant in nanoseconds since the epoch; a \<^verbatim>\<open>float64\<close> is its IEEE 754 bit
  pattern.
\<close>

section \<open>IEEE 754 doubles as bit patterns\<close>

type_synonym f64 = "64 word"

fun ilog2 :: "nat \<Rightarrow> nat" where
  "ilog2 n = (if n < 2 then 0 else Suc (ilog2 (n div 2)))"

declare ilog2.simps [simp del]

text \<open>\<^verbatim>\<open>float64(n)\<close> of a positive integer: exact up to 53 bits, else rounded to nearest, ties to even.\<close>

definition f64_of_nat :: "nat \<Rightarrow> nat" where
  "f64_of_nat n =
     (if n = 0 then 0
      else let k = ilog2 n in
        if k \<le> 52 then (1023 + k) * 2 ^ 52 + (n * 2 ^ (52 - k) - 2 ^ 52)
        else let s = k - 52; q = n div 2 ^ s; rem = n mod 2 ^ s; half = 2 ^ (s - 1);
                 q' = (if half < rem \<or> rem = half \<and> odd q then q + 1 else q)
             in (1023 + k) * 2 ^ 52 + (q' - 2 ^ 52))"

definition f64_of_int :: "int \<Rightarrow> f64" where
  "f64_of_int i = (if i < 0 then of_nat (2 ^ 63 + f64_of_nat (nat (- i))) else of_nat (f64_of_nat (nat i)))"

text \<open>Truncation towards zero; nothing for infinities and NaN.\<close>

definition f64_trunc :: "f64 \<Rightarrow> int option" where
  "f64_trunc v =
     (let b = unat v; e = b div 2 ^ 52 mod 2048; m = 2 ^ 52 + b mod 2 ^ 52;
          a = (if e < 1023 then 0 else if e < 1075 then m div 2 ^ (1075 - e) else m * 2 ^ (e - 1075))
      in if e = 2047 then None else Some (if 2 ^ 63 \<le> b then - int a else int a))"

text \<open>
  \<^verbatim>\<open>int64(v)\<close>; out of range Go leaves the result to the implementation, here the one of amd64.
\<close>

definition int64_of_f64 :: "f64 \<Rightarrow> int" where
  "int64_of_f64 v = (case f64_trunc v of
     Some i \<Rightarrow> if - (2 ^ 63) \<le> i \<and> i < 2 ^ 63 then i else - (2 ^ 63)
   | None \<Rightarrow> - (2 ^ 63))"

definition f64_nan :: "f64 \<Rightarrow> bool" where
  "f64_nan v \<longleftrightarrow> unat v div 2 ^ 52 mod 2048 = 2047 \<and> unat v mod 2 ^ 52 \<noteq> 0"

text \<open>Go's \<^verbatim>\<open>==\<close> on floats: NaN equals nothing, the two zeros are equal.\<close>

definition f64_eq :: "f64 \<Rightarrow> f64 \<Rightarrow> bool" where
  "f64_eq a b \<longleftrightarrow> \<not> f64_nan a \<and> \<not> f64_nan b \<and> (a = b \<or> unat a mod 2 ^ 63 = 0 \<and> unat b mod 2 ^ 63 = 0)"

section \<open>Encoding\<close>

text \<open>\<^verbatim>\<open>v.UnixNano()/1e6\<close> and \<^verbatim>\<open>v.UnixNano()/60e9\<close> on 64-bit integers.\<close>

definition UnixNano :: "int \<Rightarrow> int64" where
  "UnixNano t = word_of_int t"

definition encDateInMs :: "int \<Rightarrow> byte list \<Rightarrow> byte list" where
  "encDateInMs v b = (b @ [BC_DATE]) @ PackInt64 (word_of_int (go_div (sint (UnixNano v)) (10 ^ 6)))"

definition encDateInMimute :: "int \<Rightarrow> byte list \<Rightarrow> byte list" where
  "encDateInMimute v b =
     (b @ [BC_DATE_MINUTE]) @ PackInt32 (word_of_int (go_div (sint (UnixNano v)) (60 * 10 ^ 9)))"

definition encFloat :: "f64 \<Rightarrow> byte list \<Rightarrow> byte list" where
  "encFloat v b =
     (let fv = f64_of_int (int64_of_f64 v); iv = int64_of_f64 v in
      if f64_eq fv v \<and> iv = 0 then encByte b [BC_DOUBLE_ZERO]
      else if f64_eq fv v \<and> iv = 1 then encByte b [BC_DOUBLE_ONE]
      else if f64_eq fv v \<and> - 0x80 \<le> iv \<and> iv < 0x80 then encByte b [BC_DOUBLE_BYTE, word_of_int iv]
      else if f64_eq fv v \<and> - 0x8000 \<le> iv \<and> iv < 0x8000 then
        encByte b [BC_DOUBLE_BYTE, word_of_int (iv div 2 ^ 8), word_of_int iv]
      else encByte b (BC_DOUBLE # put_be 8 v))"

section \<open>Decoding\<close>

text \<open>
  \<^verbatim>\<open>d.next(s)\<close> is one \<^verbatim>\<open>Read\<close>: it returns what the buffer holds, which can be fewer bytes than
  were asked for although more are to come.
\<close>

definition decDate :: "ext \<Rightarrow> byte option \<Rightarrow> rdr \<Rightarrow> int outcome \<times> rdr" where
  "decDate X flag r = (case readTag flag r of (tag, r) \<Rightarrow>
     if tag = BC_DATE then
       otry (Read 8 r) (\<lambda>e r. (Err e, r)) (\<lambda>s r.
         if length s \<noteq> 8 then (Err ErrNotEnoughBuf, r)
         else (case UnpackInt64 s of
                 Ok w \<Rightarrow> (let i64 = sint w in
                    (Ok (go_div i64 1000 * 10 ^ 9 + go_mod i64 1000 * 10 ^ 6), r))
               | _ \<Rightarrow> (Panic, r)))
     else if tag = BC_DATE_MINUTE then
       otry (Read 4 r) (\<lambda>e r. (Err e, r)) (\<lambda>s r.
         if length s \<noteq> 4 then (Err ErrNotEnoughBuf, r)
         else (case UnpackInt32 s of
                 Ok w \<Rightarrow> (Ok (sint w * 60 * 10 ^ 9), r)
               | _ \<Rightarrow> (Panic, r)))
     else (Err (Errorf ''decDate Invalid type: %v''), r))"

text \<open>The result of \<^verbatim>\<open>decDouble\<close> is an interface: an \<^verbatim>\<open>int32\<close> after \<^verbatim>\<open>BC_LONG_INT\<close>, else a \<^verbatim>\<open>float64\<close>.\<close>

datatype num = NInt32 int32 | NFloat f64

definition decDouble :: "ext \<Rightarrow> byte option \<Rightarrow> rdr \<Rightarrow> num outcome \<times> rdr" where
  "decDouble X flag r = (case readTag flag r of (tag, r) \<Rightarrow>
     if tag = BC_LONG_INT then
       otry (decInt32 X TAG_READ r) (\<lambda>e r. (Err e, r)) (\<lambda>i r. (Ok (NInt32 i), r))
     else if tag = BC_DOUBLE_ZERO then (Ok (NFloat (f64_of_int 0)), r)
     else if tag = BC_DOUBLE_ONE then (Ok (NFloat (f64_of_int 1)), r)
     else if tag = BC_DOUBLE_BYTE then
       (case readTag TAG_READ r of (t, r) \<Rightarrow> (Ok (NFloat (f64_of_int (uint t))), r))
     else if tag = BC_DOUBLE_SHORT then
       otry (ReadFull 2 r) (traced X (NFloat 0)) (\<lambda>buf r.
         (Ok (NFloat (f64_of_int (uint (buf ! 0) * 2 ^ 8 + uint (buf ! 1)))), r))
     else if tag = BC_DOUBLE_MILL then
       (case decInt32 X TAG_READ r of (res, r) \<Rightarrow>
          (case res of
             Ok i \<Rightarrow> (Ok (NFloat (f64_of_int (sint i))), r)
           | Err e \<Rightarrow> (Ok (NFloat (f64_of_int 0)), r)
           | Panic \<Rightarrow> (Panic, r) | NoFuel \<Rightarrow> (NoFuel, r)))
     else if tag = BC_DOUBLE then
       otry (ReadFull 8 r) (traced X (NFloat 0)) (\<lambda>buf r. (Ok (NFloat (get_be buf)), r))
     else (Err (Errorf ''decDouble parse double wrong tag:%d-%#x''), r))"

section \<open>Small integers as doubles\<close>

lemma ilog2_bounds: "0 < n \<Longrightarrow> 2 ^ ilog2 n \<le> n \<and> n < 2 * 2 ^ ilog2 n"
proof (induction n rule: ilog2.induct)
  case (1 n)
  show ?case
  proof (cases "n < 2")
    case True
    with "1.prems" show ?thesis by (simp add: ilog2.simps [of n])
  next
    case False
    with "1.IH" have "2 ^ ilog2 (n div 2) \<le> n div 2 \<and> n div 2 < 2 * 2 ^ ilog2 (n div 2)"
      by simp
    with False show ?thesis by (simp add: ilog2.simps [of n]) linarith
  qed
qed

lemma ilog2_less: "0 < n \<Longrightarrow> n < 2 ^ m \<Longrightarrow> ilog2 n < m"
  using ilog2_bounds [of n] power_less_imp_less_exp [of "2 :: nat" "ilog2 n" m] by linarith

lemma f64_of_nat_fields:
  assumes "0 < n" "n < 2 ^ 53"
  defines "k \<equiv> ilog2 n"
  shows "f64_of_nat n div 2 ^ 52 = 1023 + k" "2 ^ 52 + f64_of_nat n mod 2 ^ 52 = n * 2 ^ (52 - k)"
    "k \<le> 52" "f64_of_nat n < 2 ^ 63"
proof -
  show k: "k \<le> 52" using ilog2_less [OF assms(1,2)] by (simp add: k_def)
  have "2 ^ k * 2 ^ (52 - k) \<le> n * 2 ^ (52 - k)" "n * 2 ^ (52 - k) < 2 * 2 ^ k * 2 ^ (52 - k)"
    using ilog2_bounds [OF assms(1)] by (simp_all add: k_def)
  then have lo: "2 ^ 52 \<le> n * 2 ^ (52 - k)" and hi: "n * 2 ^ (52 - k) < 2 * 2 ^ 52"
    using k by (simp_all add: power_add [symmetric] mult.assoc)
  have eq: "f64_of_nat n = (1023 + k) * 2 ^ 52 + (n * 2 ^ (52 - k) - 2 ^ 52)"
    using assms(1) k by (simp add: f64_of_nat_def k_def [symmetric])
  have small: "n * 2 ^ (52 - k) - 2 ^ 52 < 2 ^ 52" using hi by linarith
  show "f64_of_nat n div 2 ^ 52 = 1023 + k" unfolding eq using small by simp
  have "f64_of_nat n mod 2 ^ 52 = n * 2 ^ (52 - k) - 2 ^ 52"
    unfolding eq using small by (simp only: mod_mult_self3 mod_less)
  then show "2 ^ 52 + f64_of_nat n mod 2 ^ 52 = n * 2 ^ (52 - k)" using lo by linarith
  have "f64_of_nat n < (1023 + k) * 2 ^ 52 + 2 ^ 52" unfolding eq using small by simp
  also have "\<dots> \<le> 1076 * 2 ^ 52" using k by simp
  finally show "f64_of_nat n < 2 ^ 63" by simp
qed

lemma f64_of_int_cases:
  assumes "\<bar>i\<bar> < 2 ^ 53"
  shows "unat (f64_of_int i) = (if i < 0 then 2 ^ 63 else 0) + f64_of_nat (nat \<bar>i\<bar>)"
proof -
  have "f64_of_nat (nat \<bar>i\<bar>) < 2 ^ 63"
    using f64_of_nat_fields(4) [of "nat \<bar>i\<bar>"] assms by (cases "i = 0") (auto simp: f64_of_nat_def)
  moreover have "unat (of_nat m :: f64) = m" if "m < 2 ^ 64" for m
    using that by (simp add: unat_of_nat take_bit_eq_mod)
  ultimately show ?thesis
    by (cases "i < 0") (simp_all add: f64_of_int_def del: of_nat_add of_nat_power)
qed

lemma f64_trunc_of_int:
  assumes "\<bar>i\<bar> < 2 ^ 53"
  shows "f64_trunc (f64_of_int i) = Some i"
proof (cases "i = 0")
  case True
  then show ?thesis by (simp add: f64_of_int_def f64_of_nat_def f64_trunc_def)
next
  case False
  define n where "n = nat \<bar>i\<bar>"
  have n: "0 < n" "n < 2 ^ 53" using False assms by (auto simp: n_def)
  note f = f64_of_nat_fields [OF n]
  let ?k = "ilog2 n" and ?b = "unat (f64_of_int i)"
  have b: "?b = (if i < 0 then 2 ^ 63 else 0) + f64_of_nat n"
    using f64_of_int_cases [OF assms] by (simp add: n_def)
  have e: "?b div 2 ^ 52 mod 2048 = 1023 + ?k"
  proof (cases "i < 0")
    case True
    then have "?b div 2 ^ 52 = 2048 + (1023 + ?k)" using f(1) by (simp add: b div_add1_eq)
    then show ?thesis using f(3) by (simp only: mod_add_self1 mod_less)
  next
    case False
    then show ?thesis using f(1,3) by (simp add: b)
  qed
  have m: "?b mod 2 ^ 52 = f64_of_nat n mod 2 ^ 52"
    by (simp add: b mod_add_eq [symmetric])
  have sign: "2 ^ 63 \<le> ?b \<longleftrightarrow> i < 0" using f(4) by (simp add: b)
  have "(2 ^ 52 + ?b mod 2 ^ 52) div 2 ^ (1075 - (1023 + ?k)) = n" if "?k < 52"
    unfolding m f(2) using that by simp
  moreover have "(2 ^ 52 + ?b mod 2 ^ 52) * 2 ^ ((1023 + ?k) - 1075) = n" if "?k = 52"
    unfolding m f(2) using that by simp
  ultimately have "(if (1023 + ?k :: nat) < 1023 then 0 else if 1023 + ?k < 1075
      then (2 ^ 52 + ?b mod 2 ^ 52) div 2 ^ (1075 - (1023 + ?k))
      else (2 ^ 52 + ?b mod 2 ^ 52) * 2 ^ ((1023 + ?k) - 1075)) = n"
    using f(3) by auto
  then show ?thesis
    unfolding f64_trunc_def Let_def e sign using f(3) by (auto simp: n_def)
qed

lemma f64_not_nan_of_int:
  assumes "\<bar>i\<bar> < 2 ^ 53"
  shows "\<not> f64_nan (f64_of_int i)"
  using f64_trunc_of_int [OF assms] by (auto simp: f64_nan_def f64_trunc_def Let_def split: if_splits)

lemma int64_of_f64_of_int:
  assumes "\<bar>i\<bar> < 2 ^ 53"
  shows "int64_of_f64 (f64_of_int i) = i" "f64_eq (f64_of_int i) (f64_of_int i)"
  using assms f64_trunc_of_int [OF assms] f64_not_nan_of_int [OF assms]
  by (auto simp: int64_of_f64_def f64_eq_def)

section \<open>Doubles: what comes back\<close>

lemma encFloat_append: "encFloat v b = b @ encFloat v []"
  by (auto simp: encFloat_def encByte_def Let_def)

lemma encFloat_int:
  assumes "- 0x8000 \<le> i" "i < 0x8000"
  shows "encFloat (f64_of_int i) [] =
    (if i = 0 then [BC_DOUBLE_ZERO] else if i = 1 then [BC_DOUBLE_ONE]
     else if - 0x80 \<le> i \<and> i < 0x80 then [BC_DOUBLE_BYTE, word_of_int i]
     else [BC_DOUBLE_BYTE, word_of_int (i div 2 ^ 8), word_of_int i])"
proof -
  have "\<bar>i\<bar> < 2 ^ 53" using assms by simp
  from int64_of_f64_of_int [OF this] assms show ?thesis
    by (simp add: encFloat_def encByte_def Let_def)
qed

lemma takes_decDouble_byte:
  "takes (decDouble X TAG_READ) [BC_DOUBLE_BYTE, word_of_int i] (NFloat (f64_of_int (i mod 256)))"
proof (rule takesI)
  fix r rest assume "content r = [BC_DOUBLE_BYTE, word_of_int i] @ rest"
  then have "content r = BC_DOUBLE_BYTE # word_of_int i # rest" by simp
  from readTag_Cons [OF this] obtain r1 where r1: "readTag TAG_READ r = (BC_DOUBLE_BYTE, r1)"
    "content r1 = word_of_int i # rest" "rdr_ok r \<longrightarrow> rdr_ok r1" by blast
  from readTag_Cons [OF r1(2)] obtain r2 where "readTag TAG_READ r1 = (word_of_int i, r2)"
    "content r2 = rest" "rdr_ok r1 \<longrightarrow> rdr_ok r2" by blast
  with r1 show "\<exists>r'. decDouble X TAG_READ r = (Ok (NFloat (f64_of_int (i mod 256))), r') \<and>
      content r' = rest \<and> (rdr_ok r \<longrightarrow> rdr_ok r')"
    by (auto simp: decDouble_def uint_word_of_int)
qed

lemma takes_decDouble_tag:
  "takes (decDouble X (Some t)) bs v \<Longrightarrow> takes (decDouble X None) (t # bs) v"
  by (rule takes_tag [where p = "decDouble X"]) (simp add: decDouble_def, assumption)

lemma decDouble_const:
  "decDouble X (Some BC_DOUBLE_ZERO) = (\<lambda>r. (Ok (NFloat (f64_of_int 0)), r))"
  "decDouble X (Some BC_DOUBLE_ONE) = (\<lambda>r. (Ok (NFloat (f64_of_int 1)), r))"
  by (simp_all add: decDouble_def fun_eq_iff)

lemma takes_decDouble_bits: "takes (decDouble X (Some BC_DOUBLE)) (put_be 8 v) (NFloat v)"
proof -
  have "takes (\<lambda>r. otry (ReadFull 8 r) (traced X (NFloat 0)) (\<lambda>buf r. (Ok (NFloat (get_be buf)), r)))
      (put_be 8 v) (NFloat v)"
    by (rule takes_fullI) (simp_all add: get_put_be_full)
  moreover have "decDouble X (Some BC_DOUBLE) =
      (\<lambda>r. otry (ReadFull 8 r) (traced X (NFloat 0)) (\<lambda>buf r. (Ok (NFloat (get_be buf)), r)))"
    by (simp add: decDouble_def fun_eq_iff)
  ultimately show ?thesis by simp
qed

text \<open>
  C26: A double that is not a small integer (an integer value in [-0x8000, 0x8000)) is written
  as its 64 bits and read back exactly, NaN payloads and infinities included.
\<close>

theorem double_round_trip:
  assumes "\<And>i. - 0x8000 \<le> i \<Longrightarrow> i < 0x8000 \<Longrightarrow> \<not> f64_eq (f64_of_int i) v"
  shows "takes (decDouble X TAG_READ) (encFloat v []) (NFloat v)"
proof -
  have "encFloat v [] = BC_DOUBLE # put_be 8 v"
    using assms [of "int64_of_f64 v"] by (auto simp: encFloat_def encByte_def Let_def)
  then show ?thesis by (simp add: takes_decDouble_tag takes_decDouble_bits)
qed

theorem double_round_trip_witness:
  "takes (decDouble ext0 TAG_READ) (encFloat 0x7ff8000000000000 []) (NFloat 0x7ff8000000000000)"
  by (rule double_round_trip) (simp add: f64_eq_def f64_nan_def)

text \<open>
  A double that is an integer in [-0x8000, 0x8000) comes back right only from 0 to 127. A
  negative one-byte value comes back increased by 256. A value that needs two bytes is written
  with the one-byte tag: the decoder returns its high byte and leaves its low byte in the input.
\<close>

theorem small_double_round_trip:
  assumes "- 0x8000 \<le> i" and "i < 0x8000"
  shows "\<exists>bs left. encFloat (f64_of_int i) [] = bs @ left \<and>
    takes (decDouble X TAG_READ) bs
      (NFloat (f64_of_int (if 0 \<le> i \<and> i < 0x80 then i
                          else if - 0x80 \<le> i \<and> i < 0 then i + 0x100
                          else i div 2 ^ 8 mod 0x100))) \<and>
    (if - 0x80 \<le> i \<and> i < 0x80 then left = [] else left = [word_of_int i])"
proof -
  have z: "takes (decDouble X TAG_READ) [BC_DOUBLE_ZERO] (NFloat (f64_of_int 0))"
    "takes (decDouble X TAG_READ) [BC_DOUBLE_ONE] (NFloat (f64_of_int 1))"
    by (rule takes_decDouble_tag, unfold decDouble_const, rule takes_return)+
  have neg: "i mod 256 = i + 0x100" if "- 0x80 \<le> i" "i < 0"
    using that by (intro neg_mod_shift) auto
  consider "i = 0 \<or> i = 1" | "1 < i \<and> i < 0x80" | "- 0x80 \<le> i \<and> i < 0"
    | "i < - 0x80 \<or> 0x80 \<le> i" by linarith
  then show ?thesis
  proof cases
    case 1
    then show ?thesis using z by (auto simp: encFloat_int)
  next
    case 2
    then show ?thesis using takes_decDouble_byte [of X i] assms by (simp add: encFloat_int)
  next
    case 3
    then show ?thesis using takes_decDouble_byte [of X i] assms neg by (simp add: encFloat_int)
  next
    case 4
    then show ?thesis using takes_decDouble_byte [of X "i div 2 ^ 8"] assms
      by (intro exI [of _ "[BC_DOUBLE_BYTE, word_of_int (i div 2 ^ 8)]"] exI [of _ "[word_of_int i]"])
        (auto simp: encFloat_int)
  qed
qed

theorem small_double_round_trip_witness:
  "\<exists>bs left. encFloat (f64_of_int 300) [] = bs @ left \<and>
    takes (decDouble ext0 TAG_READ) bs (NFloat (f64_of_int 1)) \<and> left = [300]"
  using small_double_round_trip [of 300 ext0] by simp

section \<open>Dates: what comes back\<close>

lemma Read_small:
  assumes "n < bufSize" "0 < n" "content r \<noteq> []"
  shows "\<exists>r'. Read n r = (Ok (take n (if unread r = [] then take bufSize (content r) else unread r)), r') \<and>
    content r = take n (if unread r = [] then take bufSize (content r) else unread r) @ content r'"
proof -
  define r1 where "r1 = (if unread r = [] then
      r\<lparr>rd_buf := take bufSize (rd_src r), rd_pos := 0, rd_src := drop bufSize (rd_src r)\<rparr> else r)"
  let ?u = "if unread r = [] then take bufSize (content r) else unread r"
  have u: "unread r1 = ?u" by (simp add: r1_def unread_def content_def)
  have "unread r1 \<noteq> []" using assms by (auto simp: u)
  then have "fst (Read n r) = Ok (take n (unread r1))"
    using assms by (auto simp: Read_def r1_def Let_def)
  moreover from Read_some [of r n] assms obtain p r' where "Read n r = (Ok p, r')" "content r = p @ content r'"
    by blast
  ultimately show ?thesis unfolding u [symmetric] by (intro exI [of _ r']) simp
qed

lemma go_div_mod_ms: "go_div i 1000 * 1000000000 + go_mod i 1000 * 1000000 = i * 1000000"
  using go_div_mod [of 1000 i] by simp

text \<open>
  Reading a date written by \<^verbatim>\<open>encDateInMs\<close>: with all eight bytes in the reader's buffer, or an
  empty buffer, the instant comes back cut to milliseconds (towards the epoch); when the buffer
  ends inside the eight bytes the decoder reports that there is not enough input although the
  rest of the date is still to come.
\<close>

theorem date_round_trip:
  assumes "- (2 ^ 63) \<le> t" and "t < 2 ^ 63"
    and "content r = tl (encDateInMs t []) @ rest"
  shows "(unread r = [] \<or> 8 \<le> Buffered r \<longrightarrow>
      (\<exists>r'. decDate X (Some (hd (encDateInMs t []))) r = (Ok (go_div t (10 ^ 6) * 10 ^ 6), r') \<and> content r' = rest)) \<and>
    (0 < Buffered r \<and> Buffered r < 8 \<longrightarrow>
      fst (decDate X (Some (hd (encDateInMs t []))) r) = Err ErrNotEnoughBuf)"
proof -
  define w :: int64 where "w = word_of_int (go_div t (10 ^ 6))"
  have ts: "sint (UnixNano t) = t"
    using assms(1,2) unfolding UnixNano_def by (intro sint_word_of_int_small) simp_all
  have enc: "encDateInMs t [] = BC_DATE # PackInt64 w" by (simp add: encDateInMs_def ts w_def)
  have "\<bar>go_div t (10 ^ 6)\<bar> < 2 ^ 63"
  proof -
    have "\<bar>go_div t (10 ^ 6)\<bar> = \<bar>t\<bar> div 10 ^ 6" by (simp add: go_div_def abs_mult sgn_if)
    also have "\<dots> \<le> 2 ^ 63 div 10 ^ 6" using assms(1,2) by (intro zdiv_mono1) simp_all
    also have "\<dots> < 2 ^ 63" by simp
    finally show ?thesis .
  qed
  then have w: "sint w = go_div t (10 ^ 6)"
    unfolding w_def by (intro sint_word_of_int_small) (simp_all add: abs_less_iff)
  have len: "length (PackInt64 w) = 8" by (simp add: PackInt64_def)
  have c: "content r = PackInt64 w @ rest" using assms(3) enc by simp
  let ?u = "if unread r = [] then take bufSize (content r) else unread r"
  have "content r \<noteq> []" "8 < bufSize" "(0::nat) < 8" using c len by (auto simp: bufSize_def)
  then obtain r' where rd: "Read 8 r = (Ok (take 8 ?u), r')" "content r = take 8 ?u @ content r'"
    using Read_small [of 8 r] by blast
  have "take 8 ?u = PackInt64 w" if "unread r = [] \<or> 8 \<le> Buffered r"
  proof -
    have "take 8 (content r) = PackInt64 w" using c len by simp
    moreover have "take 8 (content r) = take 8 (unread r)" if "8 \<le> Buffered r"
      using that by (simp add: Buffered_def content_def)
    ultimately show ?thesis using that by (auto simp: bufSize_def Buffered_def)
  qed
  then have "\<exists>r'. decDate X (Some BC_DATE) r = (Ok (sint w * 10 ^ 6), r') \<and> content r' = rest"
    if "unread r = [] \<or> 8 \<le> Buffered r"
    using that rd c len Unpack_Pack(4) [of w "[]"] by (auto simp: decDate_def go_div_mod_ms Let_def)
  moreover have "fst (decDate X (Some BC_DATE) r) = Err ErrNotEnoughBuf" if "0 < Buffered r" "Buffered r < 8"
    using that rd by (auto simp: decDate_def Buffered_def)
  ultimately show ?thesis by (simp add: enc w)
qed

theorem date_round_trip_witness:
  "fst (decDate ext0 (Some (hd (encDateInMs 1500000 [])))
     (NewReader (tl (encDateInMs 1500000 [])))) = Ok 1000000"
  using date_round_trip [of 1500000 "NewReader (tl (encDateInMs 1500000 []))" "[]" ext0]
  by (auto simp: unread_def NewReader_def content_def go_div_def)

end
