(* ===== verification/Hessian_Text.thy ===== *)
theory Hessian_Text
  imports Hessian_Scalar Go_Utf8
begin

text \<open>
  Strings and binary data of the Hessian codec: \<^verbatim>\<open>encString\<close>, \<^verbatim>\<open>encBinary\<close> of
  \<^verbatim>\<open>codec/hessian/encode.go\<close> and \<^verbatim>\<open>decString\<close>, \<^verbatim>\<open>decBinary\<close> of \<^verbatim>\<open>codec/hessian/decode.go\<close>, with
  the chunk loops. Both loops of the decoder are total functions: every turn consumes input or
  leaves the loop.
\<close>

section \<open>Encoding\<close>

text \<open>The closure \<^verbatim>\<open>vChunk\<close>: up to \<open>n\<close> runes of \<^verbatim>\<open>vBuf\<close>, re-encoded, at the end of \<^verbatim>\<open>b\<close>.\<close>

fun vChunk :: "ext \<Rightarrow> nat \<Rightarrow> byte list \<Rightarrow> byte list \<Rightarrow> byte list \<times> byte list" where
  "vChunk X 0 vBuf b = (vBuf, b)"
| "vChunk X (Suc n) vBuf b =
     (if vBuf = [] then vChunk X n vBuf b
      else (case DecodeRune vBuf of (r, s) \<Rightarrow>
        vChunk X n (drop s vBuf) (b @ gx_Slice X (EncodeRune r))))"

lemma vChunk_shrinks: "length (fst (vChunk X n vBuf b)) \<le> length vBuf"
  by (induction X n vBuf b rule: vChunk.induct) (auto split: prod.splits intro: order_trans)

lemma vChunk_less: "0 < n \<Longrightarrow> vBuf \<noteq> [] \<Longrightarrow> length (fst (vChunk X n vBuf b)) < length vBuf"
proof (cases n)
  case (Suc m)
  assume "vBuf \<noteq> []"
  then have "0 < snd (DecodeRune vBuf)" by (simp add: DecodeRune_width)
  then show ?thesis using \<open>vBuf \<noteq> []\<close> Suc vChunk_shrinks
    by (auto split: prod.splits intro: le_less_trans [OF vChunk_shrinks])
qed simp

function encString_loop :: "ext \<Rightarrow> byte list \<Rightarrow> byte list \<Rightarrow> byte list" where
  "encString_loop X vBuf b =
     (let vLen = length (runes_of vBuf) in
      if vLen = 0 then b
      else if CHUNK_SIZE < vLen then
        (let b = encByte b [BC_STRING_CHUNK];
             b = encByte b (PackUint16 (of_nat CHUNK_SIZE))
         in case vChunk X CHUNK_SIZE vBuf b of (vBuf, b) \<Rightarrow> encString_loop X vBuf b)
      else
        (let b = (if vLen \<le> unat STRING_DIRECT_MAX then encByte b [of_nat vLen + BC_STRING_DIRECT]
                  else if vLen \<le> STRING_SHORT_MAX then
                    encByte b [of_nat (vLen div 2 ^ 8) + BC_STRING_SHORT, of_nat vLen]
                  else encByte (encByte b [BC_STRING]) (PackUint16 (of_nat vLen)))
         in case vChunk X vLen vBuf b of (vBuf, b) \<Rightarrow> encString_loop X vBuf b))"
  by pat_completeness auto
termination
proof (relation "measure (\<lambda>(X, vBuf, b). length vBuf)")
  fix X :: ext and vBuf b bb vBuf' b' :: "byte list" and vLen
  assume "vLen = length (runes_of vBuf)" "vLen \<noteq> 0" and p: "(vBuf', b') = vChunk X CHUNK_SIZE vBuf bb"
  then have "vBuf \<noteq> []" by auto
  from vChunk_less [OF _ this, of CHUNK_SIZE X bb] p [symmetric]
  show "((X, vBuf', b'), X, vBuf, b) \<in> measure (\<lambda>(X, vBuf, b). length vBuf)" by simp
next
  fix X :: ext and vBuf b bb vBuf' b' :: "byte list" and vLen
  assume "vLen = length (runes_of vBuf)" "vLen \<noteq> 0" and p: "(vBuf', b') = vChunk X vLen vBuf bb"
  then have "vBuf \<noteq> []" "0 < vLen" by auto
  from vChunk_less [OF this(2,1), of X bb] p [symmetric]
  show "((X, vBuf', b'), X, vBuf, b) \<in> measure (\<lambda>(X, vBuf, b). length vBuf)" by simp
qed simp

declare encString_loop.simps [simp del]

definition encString :: "ext \<Rightarrow> byte list \<Rightarrow> byte list \<Rightarrow> byte list" where
  "encString X v b = (if v = [] then encByte b [BC_STRING_DIRECT] else encString_loop X v b)"

function encBinary_loop :: "byte list \<Rightarrow> byte list \<Rightarrow> byte list" where
  "encBinary_loop v b =
     (let vLength = length v in
      if 0 < vLength then
        (let (len, b) =
           (if CHUNK_SIZE < vLength then
              (CHUNK_SIZE, encByte b [BC_BINARY_CHUNK, of_nat (CHUNK_SIZE div 2 ^ 8), of_nat CHUNK_SIZE])
            else
              (vLength,
               if vLength \<le> BINARY_DIRECT_MAX then encByte b [BC_BINARY_DIRECT + of_nat vLength]
               else if vLength \<le> BINARY_SHORT_MAX then
                 encByte b [BC_BINARY_SHORT + of_nat (vLength div 2 ^ 8), of_nat vLength]
               else encByte b [BC_BINARY, of_nat (vLength div 2 ^ 8), of_nat vLength]))
         in encBinary_loop (drop len v) (b @ take len v))
      else b)"
  by pat_completeness auto
termination
  by (relation "measure (\<lambda>(v, b). length v)") (auto split: if_splits)

declare encBinary_loop.simps [simp del]

definition encBinary :: "byte list \<Rightarrow> byte list \<Rightarrow> byte list" where
  "encBinary v b = (if v = [] then encByte b [BC_NULL] else encBinary_loop v b)"

section \<open>Decoding strings\<close>

definition getStringLength :: "ext \<Rightarrow> byte \<Rightarrow> rdr \<Rightarrow> int outcome \<times> rdr" where
  "getStringLength X tag r =
     (if BC_STRING_DIRECT \<le> tag \<and> tag \<le> STRING_DIRECT_MAX then (Ok (uint tag), r)
      else if 0x30 \<le> tag \<and> tag \<le> 0x33 then
        otry (ReadFull 1 r) (traced X (- 1)) (\<lambda>buf r.
          (Ok (uint (tag - 0x30) * 2 ^ 8 + uint (buf ! 0)), r))
      else if tag = BC_STRING_CHUNK \<or> tag = BC_STRING then
        otry (ReadFull 2 r) (traced X (- 1)) (\<lambda>buf r.
          (Ok (uint (buf ! 0) * 2 ^ 8 + uint (buf ! 1)), r))
      else (ret (- 1) (je_Trace X None), r))"

text \<open>
  The loop of \<^verbatim>\<open>decString\<close>. The first \<open>i = length runes\<close> entries of \<^verbatim>\<open>runeDate\<close> are the runes read so
  far, and \<^verbatim>\<open>runeDate\<close> has \<open>len\<close> entries: storing at \<open>i\<close> panics when \<open>len \<le> i\<close>, and \<^verbatim>\<open>make\<close>
  panics on a negative length. The length is an integer of the source's \<^verbatim>\<open>int32\<close>, which it stays
  within unless the input holds more than 2^31 runes.
\<close>

lemma readTag_le:
  "readTag flag r = (t, r') \<Longrightarrow> length (content r') \<le> length (content r)"
  using rd.rbyte_outcome [of r]
  by (auto simp: readTag_def split: option.splits prod.splits outcome.splits)

lemma readTag_None:
  assumes "readTag None r = (t, r')"
  shows "length (content r') < length (content r) \<or> content r' = [] \<and> t = 0"
  using assms rd.rbyte_outcome [of r] rd.rbyte_Nil [of r]
  by (auto simp: readTag_def split: prod.splits outcome.splits)

lemma shrinks_traced [intro, simp]: "shrinks (traced X z e)"
  by (simp add: shrinks_def traced_def)

lemma shrinks_getStringLength [intro, simp]: "shrinks (getStringLength X tag)"
proof -
  have "getStringLength X tag = (\<lambda>r. getStringLength X tag r)" by simp
  then show ?thesis unfolding getStringLength_def by (auto intro!: shrinks_if shrinks_otry)
qed

lemma ReadRune_less: "ReadRune r = (Ok c, r') \<Longrightarrow> length (content r') < length (content r)"
  using ReadRune_Nil [of r] ReadRune_some [of r] DecodeRune_width [of "content r"]
  by (cases "content r = []") auto

function decString_loop ::
  "ext \<Rightarrow> nat list \<Rightarrow> int \<Rightarrow> bool \<Rightarrow> rdr \<Rightarrow> byte list outcome \<times> rdr" where
  "decString_loop X runes len fin r =
     (if int (length runes) = len then
        (if fin then (Ok (utf8 runes), r)
         else (case readTag TAG_READ r of (b, r1) \<Rightarrow>
           otry (getStringLength X b r1) (traced X []) (\<lambda>l r2.
             if len + l < 0 then (Panic, r2)
             else decString_loop X runes (len + l) (b \<noteq> BC_STRING_CHUNK) r2)))
      else
        otry (ReadRune r) (traced X []) (\<lambda>c r1.
          if len \<le> int (length runes) then (Panic, r1)
          else decString_loop X (runes @ [fst c]) len fin r1))"
  by pat_completeness auto
termination
proof (relation "measure (\<lambda>(X, runes, len, fin, r). 2 * length (content r) + (if fin then 0 else 1))")
  fix X :: ext and runes :: "nat list" and len l :: int and fin :: bool and b r r1 r2
  assume "\<not> fin" and p: "(b, r1) = readTag TAG_READ r" and l: "getStringLength X b r1 = (Ok l, r2)"
  have "length (content r2) \<le> length (content r1)" using shrinksD(1) [OF shrinks_getStringLength l] .
  with readTag_None [OF p [symmetric]] \<open>\<not> fin\<close>
  show "((X, runes, len + l, b \<noteq> BC_STRING_CHUNK, r2), X, runes, len, fin, r)
      \<in> measure (\<lambda>(X, runes, len, fin, r). 2 * length (content r) + (if fin then 0 else 1))"
    by auto
next
  fix X :: ext and runes :: "nat list" and len :: int and fin :: bool and c r r1
  assume "ReadRune r = (Ok c, r1)"
  from ReadRune_less [OF this]
  show "((X, runes @ [fst c], len, fin, r1), X, runes, len, fin, r)
      \<in> measure (\<lambda>(X, runes, len, fin, r). 2 * length (content r) + (if fin then 0 else 1))"
    by auto
qed simp

declare decString_loop.simps [simp del]

text \<open>\<^verbatim>\<open>strconv.Itoa\<close>, and \<^verbatim>\<open>strconv.FormatFloat(f, 'E', -1, 64)\<close> on the doubles that reach it, which
  are integers from 0 to 65535: the decimal digits without trailing zeros, and the exponent.\<close>

fun digits :: "nat \<Rightarrow> nat list" where
  "digits n = (if n < 10 then [n] else digits (n div 10) @ [n mod 10])"

declare digits.simps [simp del]

definition digit_bytes :: "nat list \<Rightarrow> byte list" where
  "digit_bytes ds = map (\<lambda>d. of_nat (0x30 + d)) ds"

definition Itoa :: "int \<Rightarrow> byte list" where
  "Itoa i = (if i < 0 then 0x2d # digit_bytes (digits (nat (- i))) else digit_bytes (digits (nat i)))"

definition FormatFloat_E :: "f64 \<Rightarrow> byte list" where
  "FormatFloat_E f =
     (let ds = digits (nat (int64_of_f64 f)); m = rev (dropWhile (\<lambda>d. d = 0) (rev (tl ds)))
      in digit_bytes [hd ds] @ (if m = [] then [] else 0x2e # digit_bytes m) @ str ''E+0''
         @ digit_bytes [length ds - 1])"

definition decString :: "ext \<Rightarrow> byte option \<Rightarrow> rdr \<Rightarrow> byte list outcome \<times> rdr" where
  "decString X flag r = (case readTag flag r of (tag, r) \<Rightarrow>
     if tag = BC_NULL then (Ok STRING_NIL, r)
     else if tag = BC_TRUE then (Ok STRING_TRUE, r)
     else if tag = BC_FALSE then (Ok STRING_FALSE, r)
     else if 0x80 \<le> tag \<and> tag \<le> 0xbf \<or> 0xc0 \<le> tag \<and> tag \<le> 0xcf \<or>
             0xd0 \<le> tag \<and> tag \<le> 0xd7 \<or> tag = BC_INT \<or>
             0xd8 \<le> tag \<and> tag \<le> 0xef \<or> 0xf0 \<le> tag \<and> tag \<le> 0xff \<or>
             0x38 \<le> tag \<and> tag \<le> 0x3f \<or> tag = BC_LONG_INT \<or> tag = BC_LONG then
       otry (decInt64 X (Some tag) r)
         (\<lambda>e r. (ret [] (je_Annotatef X ''tag:%+v'' (Some e)), r))
         (\<lambda>i64 r. (Ok (Itoa (sint i64)), r))
     else if tag = BC_DOUBLE_ZERO then (Ok STRING_ZERO, r)
     else if tag = BC_DOUBLE_ONE then (Ok STRING_ONE, r)
     else if tag = BC_DOUBLE_BYTE \<or> tag = BC_DOUBLE_SHORT then
       otry (decDouble X (Some tag) r)
         (\<lambda>e r. (ret [] (je_Annotatef X ''tag:%+v'' (Some e)), r))
         (\<lambda>f r. case f of NFloat v \<Rightarrow> (Ok (FormatFloat_E v), r) | NInt32 _ \<Rightarrow> (Panic, r))
     else if BC_STRING_DIRECT \<le> tag \<and> tag \<le> STRING_DIRECT_MAX \<or> 0x30 \<le> tag \<and> tag \<le> 0x33 \<or>
             tag = BC_STRING_CHUNK \<or> tag = BC_STRING then
       otry (getStringLength X tag r) (traced X []) (\<lambda>l r.
         if l < 0 then (Panic, r)
         else decString_loop X [] l (tag \<noteq> BC_STRING_CHUNK) r)
     else (Err (Errorf ''unknown string tag %#x''), r))"

text \<open>\<^verbatim>\<open>nextRune\<close>: \<open>n\<close> reads, of which only the successful ones give a rune.\<close>

fun nextRune :: "nat \<Rightarrow> rdr \<Rightarrow> nat list \<times> rdr" where
  "nextRune 0 r = ([], r)"
| "nextRune (Suc n) r = (case ReadRune r of
     (Ok (c, ri), r1) \<Rightarrow> (case nextRune n r1 of (cs, r2) \<Rightarrow> (if 0 < ri then c # cs else cs, r2))
   | (_, r1) \<Rightarrow> nextRune n r1)"

section \<open>Decoding binary data\<close>

definition getBinaryLength :: "ext \<Rightarrow> byte \<Rightarrow> rdr \<Rightarrow> int outcome \<times> rdr" where
  "getBinaryLength X tag r =
     (if BC_BINARY_DIRECT \<le> tag \<and> tag \<le> 0x2f then (Ok (uint (tag - BC_BINARY_DIRECT)), r)
      else if BC_BINARY_SHORT \<le> tag \<and> tag \<le> 0x37 then
        otry (ReadFull 1 r) (traced X 0) (\<lambda>buf r.
          (Ok (uint (tag - BC_BINARY_SHORT) * 2 ^ 8 + uint (buf ! 0)), r))
      else if tag \<noteq> BC_BINARY_CHUNK \<and> tag \<noteq> BC_BINARY then
        (Err (Errorf ''illegal binary tag:%d''), r)
      else
        otry (ReadFull 2 r) (traced X 0) (\<lambda>buf r.
          (Ok (uint (buf ! 0) * 2 ^ 8 + uint (buf ! 1)), r)))"

definition readBufByte :: "ext \<Rightarrow> rdr \<Rightarrow> byte outcome \<times> rdr" where
  "readBufByte X r = otry (ReadFull 1 r) (traced X 0) (\<lambda>buf r. (Ok (buf ! 0), r))"

text \<open>\<^verbatim>\<open>tag, _ = d.readBufByte()\<close>.\<close>

definition readBufTag :: "ext \<Rightarrow> rdr \<Rightarrow> byte \<times> rdr" where
  "readBufTag X r = (case readBufByte X r of (Ok b, r) \<Rightarrow> (b, r) | (_, r) \<Rightarrow> (0, r))"

text \<open>
  One length and the bytes it announces, appended to \<^verbatim>\<open>data\<close>; \<open>msg\<close> annotates a bad length. The
  result \<open>None\<close> is the nil slice.
\<close>

definition decBinary_chunk ::
  "ext \<Rightarrow> string \<Rightarrow> byte \<Rightarrow> byte list \<Rightarrow> (byte list \<Rightarrow> rdr \<Rightarrow> byte list option outcome \<times> rdr)
   \<Rightarrow> rdr \<Rightarrow> byte list option outcome \<times> rdr" where
  "decBinary_chunk X msg tag data f r =
     otry (getBinaryLength X tag r) (\<lambda>e r. (ret None (je_Annotatef X msg (Some e)), r)) (\<lambda>len r.
       if int CHUNK_SIZE < len then (ret None (je_Annotatef X msg None), r)
       else otry (ReadFull (nat len) r)
         (\<lambda>e r. (ret None (je_Annotatef X ''decBinary->io.ReadFull(len:%d)'' (Some e)), r))
         (\<lambda>chunk r. f (data @ chunk) r))"

lemma decBinary_chunk_cong [fundef_cong]:
  assumes "X = X'" "msg = msg'" "tag = tag'" "data = data'" "r = r'"
    and "\<And>len r1 chunk r2. getBinaryLength X' tag' r' = (Ok len, r1) \<Longrightarrow>
      ReadFull (nat len) r1 = (Ok chunk, r2) \<Longrightarrow> f (data' @ chunk) r2 = g (data' @ chunk) r2"
  shows "decBinary_chunk X msg tag data f r = decBinary_chunk X' msg' tag' data' g r'"
  unfolding decBinary_chunk_def using assms
  by (intro otry_cong) (auto intro!: otry_cong)

lemma shrinks_getBinaryLength [intro, simp]: "shrinks (getBinaryLength X tag)"
proof -
  have "getBinaryLength X tag = (\<lambda>r. getBinaryLength X tag r)" by simp
  then show ?thesis unfolding getBinaryLength_def by (auto intro!: shrinks_if shrinks_otry)
qed

lemma readBufTag_less:
  assumes "readBufTag X r = (t, r')"
  shows "length (content r') < length (content r) \<or> length (content r') = length (content r) \<and> t = 0"
  using assms rd.rfull_outcome [of 1 r]
  by (cases "ReadFull 1 r")
    (auto simp: readBufTag_def readBufByte_def traced_def ret_def split: option.splits)

function decBinary_loop :: "ext \<Rightarrow> byte \<Rightarrow> byte list \<Rightarrow> rdr \<Rightarrow> byte list option outcome \<times> rdr" where
  "decBinary_loop X tag data r =
     (if tag = BC_BINARY_CHUNK then
        decBinary_chunk X ''getBinaryLength(tag:%d) = length:%d'' tag data
          (\<lambda>data r. case readBufTag X r of (t, r1) \<Rightarrow> decBinary_loop X t data r1) r
      else
        decBinary_chunk X ''decBinary->getBinaryLength(tag:%d) = length:%d'' tag data
          (\<lambda>data r. (Ok (Some data), r)) r)"
  by pat_completeness auto
termination
proof (relation "measure (\<lambda>(X, tag, data, r). 2 * length (content r) + (if tag = BC_BINARY_CHUNK then 1 else 0))")
  fix X :: ext and tag t :: byte and data chunk :: "byte list" and r r1 r2 r3 :: rdr and len :: int
  assume tag: "tag = BC_BINARY_CHUNK" and len: "getBinaryLength X tag r = (Ok len, r1)"
    and chunk: "ReadFull (nat len) r1 = (Ok chunk, r2)" and t: "(t, r3) = readBufTag X r2"
  have "length (content r2) \<le> length (content r)"
    using shrinksD(1) [OF shrinks_getBinaryLength len] shrinksD(1) [OF shrinks_ReadFull chunk] by simp
  with readBufTag_less [OF t [symmetric]] tag
  show "((X, t, data @ chunk, r3), X, tag, data, r) \<in>
      measure (\<lambda>(X, tag, data, r). 2 * length (content r) + (if tag = BC_BINARY_CHUNK then 1 else 0))"
    by auto
qed simp

declare decBinary_loop.simps [simp del]

definition decBinary :: "ext \<Rightarrow> byte option \<Rightarrow> rdr \<Rightarrow> byte list option outcome \<times> rdr" where
  "decBinary X flag r =
     (case (case flag of Some t \<Rightarrow> (t, r) | None \<Rightarrow> readBufTag X r) of (tag, r) \<Rightarrow>
        if tag = BC_NULL then (Ok (Some []), r) else decBinary_loop X tag [] r)"

section \<open>Strings: what comes back\<close>

lemma vChunk_runes:
  assumes "slice_ok X" "n \<le> length (runes_of v)"
  shows "snd (vChunk X n v b) = b @ utf8 (take n (runes_of v))"
    "runes_of (fst (vChunk X n v b)) = drop n (runes_of v)"
  using assms(2)
proof (induction n arbitrary: v b)
  case (Suc n)
  { case 1
    then have v: "v \<noteq> []" by auto
    obtain r k where d: "DecodeRune v = (r, k)" by (cases "DecodeRune v")
    have rs: "runes_of v = r # runes_of (drop k v)" using v d by (simp add: runes_of.simps [of v])
    from 1 have "n \<le> length (runes_of (drop k v))" by (simp add: rs)
    from Suc.IH(1) [OF this] v show ?case by (simp add: d rs assms(1))
  next
    case 2
    then have v: "v \<noteq> []" by auto
    obtain r k where d: "DecodeRune v = (r, k)" by (cases "DecodeRune v")
    have rs: "runes_of v = r # runes_of (drop k v)" using v d by (simp add: runes_of.simps [of v])
    from 2 have "n \<le> length (runes_of (drop k v))" by (simp add: rs)
    from Suc.IH(2) [OF this] v show ?case by (simp add: d rs assms(1)) }
qed simp_all

text \<open>The bytes of a string by its runes: chunks of 4096, then the rest under a length header.\<close>

definition string_head :: "nat \<Rightarrow> byte list" where
  "string_head n = (if n \<le> 31 then [of_nat n]
     else if n \<le> 1023 then [of_nat (n div 2 ^ 8) + 0x30, of_nat n]
     else BC_STRING # PackUint16 (of_nat n))"

function enc_runes :: "nat list \<Rightarrow> byte list" where
  "enc_runes rs = (if length rs \<le> 4096 then string_head (length rs) @ utf8 rs
     else BC_STRING_CHUNK # PackUint16 4096 @ utf8 (take 4096 rs) @ enc_runes (drop 4096 rs))"
  by pat_completeness auto
termination by (relation "measure length") auto

declare enc_runes.simps [simp del]

lemma encString_loop_runes:
  assumes "slice_ok X" "v \<noteq> []"
  shows "encString_loop X v b = b @ enc_runes (runes_of v)"
  using assms(2)
proof (induction "length v" arbitrary: v b rule: less_induct)
  case less
  let ?rs = "runes_of v"
  show ?case
  proof (cases "length ?rs \<le> 4096")
    case True
    define b' where "b' = b @ string_head (length ?rs)"
    have 1: "fst (vChunk X (length ?rs) v b') = []"
      using vChunk_runes(2) [OF assms(1), of "length ?rs" v b'] by (metis drop_all order_refl runes_of_Nil_iff)
    have 2: "snd (vChunk X (length ?rs) v b') = b' @ utf8 ?rs"
      using vChunk_runes(1) [OF assms(1), of "length ?rs" v b'] by simp
    have "encString_loop X v b = (case vChunk X (length ?rs) v b' of (vBuf, b) \<Rightarrow> encString_loop X vBuf b)"
      using True less.prems
      by (simp add: encString_loop.simps [of X v] b'_def string_head_def encByte_def Let_def)
    also have "\<dots> = b' @ utf8 ?rs"
      using 1 2 by (cases "vChunk X (length ?rs) v b'") (simp add: encString_loop.simps [of X "[]"])
    finally show ?thesis using True by (simp add: enc_runes.simps [of ?rs] b'_def)
  next
    case False
    define b' where "b' = b @ BC_STRING_CHUNK # PackUint16 4096"
    obtain v2 b2 where c: "vChunk X 4096 v b' = (v2, b2)" by (cases "vChunk X 4096 v b'")
    have b2: "b2 = b' @ utf8 (take 4096 ?rs)" and v2: "runes_of v2 = drop 4096 ?rs"
      using vChunk_runes [OF assms(1), of 4096 v b'] False c by auto
    have ne: "v2 \<noteq> []" using v2 False by auto
    have "length v2 < length v" using vChunk_less [of 4096 v X b'] c less.prems by simp
    note IH = less.hyps [OF this ne]
    have "encString_loop X v b = encString_loop X v2 b2"
      using False less.prems c
      by (simp add: encString_loop.simps [of X v] b'_def encByte_def Let_def)
    also have "\<dots> = b @ BC_STRING_CHUNK # PackUint16 4096 @ utf8 (take 4096 ?rs) @ enc_runes (drop 4096 ?rs)"
      by (simp add: IH b2 v2 b'_def)
    finally show ?thesis using False by (simp add: enc_runes.simps [of ?rs])
  qed
qed

lemma encString_runes: "slice_ok X \<Longrightarrow> encString X v b = b @ enc_runes (runes_of v)"
  by (simp add: encString_def encString_loop_runes enc_runes.simps [of "[]"] string_head_def encByte_def)

text \<open>A string's header gives its length.\<close>

lemma get_be_two: "uint a * 2 ^ 8 + uint b = uint (get_be [a, b] :: 16 word)" for a b :: byte
proof -
  let ?x = "uint a * 2 ^ 8 + uint b"
  have "0 \<le> uint a" "uint a < 256" "0 \<le> uint b" "uint b < 256"
    using uint_lt2p [of a] uint_lt2p [of b] by simp_all
  then have x: "?x mod 2 ^ 16 = ?x" by (intro mod_pos_pos_trivial) simp_all
  have "get_be [a, b] = (word_of_int ?x :: 16 word)"
    by (simp add: push_bit_eq_mult)
  then show ?thesis using x by (simp add: uint_word_of_int del: get_be.simps of_int_add)
qed

lemma uint_nat_byte: "n < 256 \<Longrightarrow> uint (of_nat n :: byte) = int n"
  by (simp add: unsigned_of_nat take_bit_eq_mod)

lemma PackUint16_length:
  assumes "n < 65536"
  shows "length (PackUint16 (of_nat n)) = 2"
    "uint (PackUint16 (of_nat n) ! 0) * 2 ^ 8 + uint (PackUint16 (of_nat n) ! 1) = int n"
proof -
  obtain x y where xy: "PackUint16 (of_nat n) = [x, y]" by (simp add: PackUint16_def put_be_2)
  have "get_be [x, y] = (of_nat n :: 16 word)"
    using get_put_be_full [of 2 "of_nat n :: 16 word"] xy by (simp add: PackUint16_def)
  then show "uint (PackUint16 (of_nat n) ! 0) * 2 ^ 8 + uint (PackUint16 (of_nat n) ! 1) = int n"
    using assms by (simp only: xy nth_Cons_0 nth_Cons_Suc One_nat_def get_be_two) (simp add: unsigned_of_nat take_bit_eq_mod)
  show "length (PackUint16 (of_nat n)) = 2" by (simp add: xy)
qed

lemma takes_two_length:
  assumes "n < 65536"
  shows "takes (\<lambda>r. otry (ReadFull 2 r) h (\<lambda>buf r. (Ok (uint (buf ! 0) * 2 ^ 8 + uint (buf ! 1)), r)))
    (PackUint16 (of_nat n)) (int n)"
  by (rule takes_fullI) (simp_all only: PackUint16_length [OF assms])

lemma short_head:
  assumes "n \<le> 1023"
  shows "uint (of_nat (n div 2 ^ 8) + c - c :: byte) * 2 ^ 8 + uint (of_nat n :: byte) = int n"
    "uint (of_nat (n div 2 ^ 8) + 0x30 :: byte) = 0x30 + int (n div 2 ^ 8)"
    "uint (of_nat (n div 2 ^ 8) + 0x34 :: byte) = 0x34 + int (n div 2 ^ 8)"
proof -
  define q where "q = n div 2 ^ 8"
  have q: "q \<le> 3" using assms unfolding q_def by (simp add: div_le_mono [of n 1023 256, simplified])
  have u: "uint (of_nat q :: byte) = int q" using q by (simp add: uint_nat_byte)
  show "uint (of_nat (n div 2 ^ 8) + c - c :: byte) * 2 ^ 8 + uint (of_nat n :: byte) = int n"
  proof -
    have "uint (of_nat n :: byte) = int (n mod 2 ^ 8)" by (simp add: unsigned_of_nat take_bit_eq_mod)
    then show ?thesis unfolding q_def [symmetric] add_diff_cancel_right' u using q_def
      by (metis div_mult_mod_eq of_nat_add of_nat_mult of_nat_numeral of_nat_power)
  qed
  have "uint (of_nat q + c :: byte) = uint c + int q" if "uint c + 3 < 256" for c :: byte
    using uint_tag(1) [of "int q" c] q that by simp
  from this [of "0x30"] this [of "0x34"]
  show "uint (of_nat (n div 2 ^ 8) + 0x30 :: byte) = 0x30 + int (n div 2 ^ 8)"
    "uint (of_nat (n div 2 ^ 8) + 0x34 :: byte) = 0x34 + int (n div 2 ^ 8)"
    unfolding q_def [symmetric] by simp_all
qed

lemma getStringLength_head:
  assumes "n \<le> 4096"
  obtains t bs where "string_head n = t # bs" "takes (getStringLength X t) bs (int n)"
    "t \<le> 0x1f \<or> 0x30 \<le> t \<and> t \<le> 0x33 \<or> t = BC_STRING" "t \<noteq> BC_STRING_CHUNK"
proof -
  consider "n \<le> 31" | "31 < n" "n \<le> 1023" | "1023 < n" by linarith
  then show thesis
  proof cases
    case 1
    then have u: "uint (of_nat n :: byte) = int n" by (simp add: uint_nat_byte)
    with 1 have t: "(of_nat n :: byte) \<le> 0x1f" by (simp add: byte_le_uint)
    then have "getStringLength X (of_nat n) = (\<lambda>r. (Ok (int n), r))"
      using u by (simp add: getStringLength_def fun_eq_iff)
    with 1 t show thesis
      by (intro that [of "of_nat n" "[]"]) (auto simp: string_head_def takes_return byte_le_uint)
  next
    case 2
    define q t where "q = n div 2 ^ 8" "t = (of_nat q + 0x30 :: byte)"
    have q: "q \<le> 3" using 2 by (simp add: q_t_def div_le_mono [of n 1023 256, simplified])
    have u: "uint t = 0x30 + int q" "uint (t - 0x30) * 2 ^ 8 + uint (of_nat n :: byte) = int n"
      using short_head(2) short_head(1) [of n "0x30"] 2 by (simp_all only: q_t_def)
    have t: "0x30 \<le> t" "t \<le> 0x33" "\<not> t \<le> 0x1f" "t \<noteq> BC_STRING_CHUNK"
      using q by (auto simp: byte_le_uint u(1) word_uint_eq_iff)
    have "getStringLength X t = (\<lambda>r. otry (ReadFull 1 r) (traced X (- 1))
        (\<lambda>buf r. (Ok (uint (t - 0x30) * 2 ^ 8 + uint (buf ! 0)), r)))"
      using t by (simp add: getStringLength_def fun_eq_iff)
    moreover have "takes \<dots> [of_nat n] (int n)"
      using u(2) by (intro takes_fullI) simp_all
    ultimately show thesis using 2 t
      by (intro that [of t "[of_nat n]"]) (simp_all add: string_head_def q_t_def)
  next
    case 3
    have "getStringLength X BC_STRING = (\<lambda>r. otry (ReadFull 2 r) (traced X (- 1))
        (\<lambda>buf r. (Ok (uint (buf ! 0) * 2 ^ 8 + uint (buf ! 1)), r)))"
      by (simp add: getStringLength_def fun_eq_iff)
    with 3 takes_two_length [of n "traced X (- 1)"] assms show thesis
      by (intro that [of BC_STRING "PackUint16 (of_nat n)"]) (simp_all add: string_head_def)
  qed
qed

lemma decString_loop_runes:
  assumes "\<And>c. c \<in> set rs \<Longrightarrow> valid_rune c" "content r = utf8 rs @ rest"
    "int (length runes) + int (length rs) = len"
  shows "\<exists>r'. decString_loop X runes len fin r = decString_loop X (runes @ rs) len fin r' \<and>
    content r' = rest \<and> (rdr_ok r \<longrightarrow> rdr_ok r')"
  using assms
proof (induction rs arbitrary: runes r)
  case Nil
  then show ?case by auto
next
  case (Cons c rs)
  have "content r = EncodeRune c @ utf8 rs @ rest" using Cons.prems(2) by simp
  with takes_ReadRune [of c] Cons.prems(1) obtain r1 where
    r1: "ReadRune r = (Ok (c, length (EncodeRune c)), r1)" "content r1 = utf8 rs @ rest"
      "rdr_ok r \<longrightarrow> rdr_ok r1" by (metis list.set_intros(1) takesE)
  have step: "decString_loop X runes len fin r = decString_loop X (runes @ [c]) len fin r1"
    using Cons.prems(3) r1(1) by (simp add: decString_loop.simps [of X runes])
  have "int (length (runes @ [c])) + int (length rs) = len" using Cons.prems(3) by simp
  from Cons.IH [OF _ r1(2) this] Cons.prems(1) r1(3) show ?case
    by (auto simp: step)
qed

text \<open>What the decoder does with the bytes after a string tag, at whatever chunk it is.\<close>

definition decString_rest ::
  "ext \<Rightarrow> nat list \<Rightarrow> byte \<Rightarrow> rdr \<Rightarrow> byte list outcome \<times> rdr" where
  "decString_rest X runes tag r = otry (getStringLength X tag r) (traced X []) (\<lambda>l r.
     if int (length runes) + l < 0 then (Panic, r)
     else decString_loop X runes (int (length runes) + l) (tag \<noteq> BC_STRING_CHUNK) r)"

lemma decString_loop_chunk:
  "decString_loop X runes (int (length runes)) False r =
     (case readTag TAG_READ r of (b, r1) \<Rightarrow> decString_rest X runes b r1)"
  by (simp add: decString_loop.simps [of X runes] decString_rest_def)

lemma decString_rest_first:
  assumes "t \<le> 0x1f \<or> 0x30 \<le> t \<and> t \<le> 0x33 \<or> t = BC_STRING \<or> t = BC_STRING_CHUNK"
  shows "decString X (Some t) r = decString_rest X [] t r"
proof -
  have "\<not> 0x80 \<le> t" "\<not> 0xc0 \<le> t" "\<not> 0xd0 \<le> t" "\<not> 0xd8 \<le> t" "\<not> 0xf0 \<le> t" "\<not> 0x38 \<le> t \<or> \<not> t \<le> 0x3f"
    using assms by (auto simp: byte_le_uint)
  moreover have "t \<noteq> 0x4e" "t \<noteq> 0x54" "t \<noteq> 0x46" "t \<noteq> 0x49" "t \<noteq> 0x59" "t \<noteq> 0x4c" "t \<noteq> 0x5b"
    "t \<noteq> 0x5c" "t \<noteq> 0x5d" "t \<noteq> 0x5e"
    using assms by (auto simp: byte_le_uint)
  ultimately show ?thesis using assms
    by (auto simp: decString_def readTag_def decString_rest_def cong: if_cong)
qed

lemma enc_runes_decodes:
  assumes "\<And>c. c \<in> set rs \<Longrightarrow> valid_rune c"
  shows "\<exists>t bs. enc_runes rs = t # bs \<and> takes (decString_rest X runes t) bs (utf8 (runes @ rs)) \<and>
    (t \<le> 0x1f \<or> 0x30 \<le> t \<and> t \<le> 0x33 \<or> t = BC_STRING \<or> t = BC_STRING_CHUNK)"
  using assms
proof (induction rs arbitrary: runes rule: enc_runes.induct)
  case (1 rs)
  show ?case
  proof (cases "length rs \<le> 4096")
    case True
    from getStringLength_head [OF True, of X] obtain t bs where
      h: "string_head (length rs) = t # bs" "takes (getStringLength X t) bs (int (length rs))"
        "t \<le> 0x1f \<or> 0x30 \<le> t \<and> t \<le> 0x33 \<or> t = BC_STRING" "t \<noteq> BC_STRING_CHUNK" .
    have "takes (\<lambda>r. decString_loop X runes (int (length runes) + int (length rs)) True r) (utf8 rs)
        (utf8 (runes @ rs))"
    proof (rule takesI)
      fix r rest assume "content r = utf8 rs @ rest"
      from decString_loop_runes [OF "1.prems" this, of runes _ X True]
      obtain r' where "decString_loop X runes (int (length runes) + int (length rs)) True r =
          decString_loop X (runes @ rs) (int (length runes) + int (length rs)) True r'"
        "content r' = rest" "rdr_ok r \<longrightarrow> rdr_ok r'" by blast
      then show "\<exists>r'. decString_loop X runes (int (length runes) + int (length rs)) True r =
          (Ok (utf8 (runes @ rs)), r') \<and> content r' = rest \<and> (rdr_ok r \<longrightarrow> rdr_ok r')"
        by (simp add: decString_loop.simps [of X "runes @ rs"])
    qed
    then have "takes (decString_rest X runes t) (bs @ utf8 rs) (utf8 (runes @ rs))"
      unfolding decString_rest_def [abs_def] using h(2,4)
      by (intro takes_otry [where a = "int (length rs)"]) simp_all
    then show ?thesis using True h by (auto simp: enc_runes.simps [of rs])
  next
    case False
    let ?n = "int (length runes) + 4096" and ?c = "take 4096 rs" and ?d = "drop 4096 rs"
    have vc: "valid_rune c" if "c \<in> set ?c \<or> c \<in> set ?d" for c
      using that "1.prems" by (auto dest: in_set_takeD in_set_dropD)
    from "1.IH" [OF False, of "runes @ ?c"] vc obtain t bs where
      IH: "enc_runes ?d = t # bs" "takes (decString_rest X (runes @ ?c) t) bs (utf8 (runes @ rs))"
      by (auto simp flip: utf8_simps(3))
    have "takes (\<lambda>r. decString_loop X runes ?n False r) (utf8 ?c @ enc_runes ?d) (utf8 (runes @ rs))"
    proof (rule takesI)
      fix r rest assume "content r = (utf8 ?c @ enc_runes ?d) @ rest"
      then have c: "content r = utf8 ?c @ (t # bs @ rest)" by (simp add: IH)
      have "int (length runes) + int (length ?c) = ?n" using False by simp
      from decString_loop_runes [OF _ c this, of X False] vc obtain r1 where
        r1: "decString_loop X runes ?n False r = decString_loop X (runes @ ?c) ?n False r1"
          "content r1 = t # bs @ rest" "rdr_ok r \<longrightarrow> rdr_ok r1" by blast
      from readTag_Cons [OF r1(2)] obtain r2 where
        r2: "readTag TAG_READ r1 = (t, r2)" "content r2 = bs @ rest" "rdr_ok r1 \<longrightarrow> rdr_ok r2" by blast
      have "?n = int (length (runes @ ?c))" using False by simp
      then have "decString_loop X runes ?n False r = decString_rest X (runes @ ?c) t r2"
        using r1(1) r2(1) decString_loop_chunk [of X "runes @ ?c" r1] by (simp only: prod.case)
      with takesE [OF IH(2) r2(2)] r1(3) r2(3)
      show "\<exists>r'. decString_loop X runes ?n False r = (Ok (utf8 (runes @ rs)), r') \<and>
          content r' = rest \<and> (rdr_ok r \<longrightarrow> rdr_ok r')" by metis
    qed
    moreover have "takes (getStringLength X BC_STRING_CHUNK) (PackUint16 4096) 4096"
    proof -
      have "getStringLength X BC_STRING_CHUNK = (\<lambda>r. otry (ReadFull 2 r) (traced X (- 1))
          (\<lambda>buf r. (Ok (uint (buf ! 0) * 2 ^ 8 + uint (buf ! 1)), r)))"
        by (simp add: getStringLength_def fun_eq_iff)
      then show ?thesis using takes_two_length [of 4096 "traced X (- 1)"] by simp
    qed
    ultimately have "takes (decString_rest X runes BC_STRING_CHUNK)
        (PackUint16 4096 @ utf8 ?c @ enc_runes ?d) (utf8 (runes @ rs))"
      unfolding decString_rest_def [abs_def] by (intro takes_otry [where a = 4096]) simp_all
    then show ?thesis using False by (simp add: enc_runes.simps [of rs])
  qed
qed

lemma takes_decString_tag:
  "takes (decString X (Some t)) bs v \<Longrightarrow> takes (decString X None) (t # bs) v"
  by (rule takes_tag [where p = "decString X"]) (simp add: decString_def, assumption)

text \<open>
  C2: Reading back a written string gives its runes re-encoded, for every byte string, however many
  chunks it takes; a string that is valid UTF-8 comes back unchanged.
\<close>

theorem string_round_trip:
  assumes "slice_ok X"
  shows "takes (decString X TAG_READ) (encString X v []) (utf8 (runes_of v)) \<and>
    (\<forall>rs. (\<forall>c\<in>set rs. valid_rune c) \<and> v = utf8 rs \<longrightarrow> utf8 (runes_of v) = v)"
proof -
  from enc_runes_decodes [of "runes_of v" X "[]"] runes_of_valid [of _ v] obtain t bs where
    e: "enc_runes (runes_of v) = t # bs" "takes (decString_rest X [] t) bs (utf8 (runes_of v))"
      "t \<le> 0x1f \<or> 0x30 \<le> t \<and> t \<le> 0x33 \<or> t = BC_STRING \<or> t = BC_STRING_CHUNK" by auto
  have "decString X (Some t) = decString_rest X [] t"
    by (rule ext) (rule decString_rest_first [OF e(3)])
  then show ?thesis using e encString_runes [OF assms, of v "[]"]
    by (auto simp: takes_decString_tag runes_of_utf8)
qed

theorem string_round_trip_witness:
  "takes (decString ext0 TAG_READ) (encString ext0 [0x68, 0xc3, 0xa9] []) [0x68, 0xc3, 0xa9] \<and>
   takes (decString ext0 TAG_READ) (encString ext0 [0xff] []) [0xef, 0xbf, 0xbd]"
proof -
  have "utf8 (runes_of [0x68, 0xc3, 0xa9]) = [0x68, 0xc3, 0xa9]" "utf8 (runes_of [0xff]) = [0xef, 0xbf, 0xbd]"
    by (simp_all add: runes_of.simps DecodeRune_def first_info_def utf8_def EncodeRune_def
        valid_rune_def RuneError_def)
  then show ?thesis
    using string_round_trip [of ext0 "[0x68, 0xc3, 0xa9]"] string_round_trip [of ext0 "[0xff]"] by simp
qed

text \<open>
  After a string chunk that is not the last, a byte that is no string tag makes the decoder
  panic (an index out of range) when more input follows, instead of returning an error.
\<close>

theorem string_bad_chunk_panics:
  assumes "trace_ok X" and "\<not> t \<le> 0x1f" and "\<not> (0x30 \<le> t \<and> t \<le> 0x33)"
    and "t \<noteq> BC_STRING" and "t \<noteq> BC_STRING_CHUNK"
    and "\<And>c. c \<in> set rs \<Longrightarrow> valid_rune c" and "0 < length rs" and "length rs < 65536"
    and "content r = BC_STRING_CHUNK # PackUint16 (of_nat (length rs)) @ utf8 rs @ t # rest"
    and "rest \<noteq> []"
  shows "fst (decString X TAG_READ r) = Panic"
proof -
  let ?n = "int (length rs)" and ?bs = "PackUint16 (of_nat (length rs))"
  from readTag_Cons [OF assms(9)] obtain r1 where
    r1: "readTag TAG_READ r = (BC_STRING_CHUNK, r1)" "content r1 = ?bs @ utf8 rs @ t # rest" by blast
  have "takes (getStringLength X BC_STRING_CHUNK) ?bs ?n"
    using takes_two_length [OF assms(8), of "traced X (- 1)"]
    by (simp add: getStringLength_def [abs_def])
  from takesE [OF this r1(2)] obtain r2 where
    r2: "getStringLength X BC_STRING_CHUNK r1 = (Ok ?n, r2)" "content r2 = utf8 rs @ t # rest" by blast
  from decString_loop_runes [OF assms(6) r2(2), of "[]" _ X False] obtain r3 where
    r3: "decString_loop X [] ?n False r2 = decString_loop X rs ?n False r3" "content r3 = t # rest" by auto
  from readTag_Cons [OF r3(2)] obtain r4 where
    r4: "readTag TAG_READ r3 = (t, r4)" "content r4 = rest" by blast
  have "getStringLength X t r4 = (Ok (- 1), r4)"
    using assms(1-5) by (auto simp: getStringLength_def trace_okD(1))
  with r4 assms(5,7) have "decString_loop X rs ?n False r3 = decString_loop X rs (?n - 1) True r4"
    using decString_loop_chunk [of X rs r3] by (simp add: decString_rest_def)
  moreover obtain c r5 where "ReadRune r4 = (Ok c, r5)"
    using ReadRune_some [of r4] r4(2) assms(10) by blast
  ultimately have "fst (decString_loop X [] ?n False r2) = Panic"
    using r3(1) by (simp add: decString_loop.simps [of X rs "?n - 1"])
  then show ?thesis using r1(1) r2(1) by (simp add: decString_def)
qed

theorem string_bad_chunk_panics_witness:
  "fst (decString ext0 TAG_READ (NewReader [BC_STRING_CHUNK, 0, 1, 0x61, BC_NULL, 0x62])) = Panic"
  by (rule string_bad_chunk_panics [of ext0 BC_NULL "[0x61]" _ "[0x62]"])
    (simp_all add: byte_le_uint valid_rune_def content_def unread_def NewReader_def PackUint16_def
      put_be_2 utf8_def EncodeRune_def)

section \<open>Binary data: what comes back\<close>

definition binary_head :: "nat \<Rightarrow> byte list" where
  "binary_head n = (if n \<le> 15 then [0x20 + of_nat n]
     else if n \<le> 1023 then [0x34 + of_nat (n div 2 ^ 8), of_nat n]
     else [BC_BINARY, of_nat (n div 2 ^ 8), of_nat n])"

lemma byte_4096 [simp]: "(4096 :: byte) = 0"
  by (rule word_uint_eqI) simp

lemma two_length_bytes:
  assumes "n < 65536"
  shows "takes (\<lambda>r. otry (ReadFull 2 r) h (\<lambda>buf r. (Ok (uint (buf ! 0) * 2 ^ 8 + uint (buf ! 1)), r)))
    [of_nat (n div 2 ^ 8), of_nat n] (int n)"
proof -
  have "uint (of_nat (n div 2 ^ 8) :: byte) * 2 ^ 8 + uint (of_nat n :: byte) = int n"
  proof -
    have "n div 2 ^ 8 < 256" using assms by (simp add: div_less_iff_less_mult)
    then have "uint (of_nat (n div 2 ^ 8) :: byte) = int (n div 2 ^ 8)" by (rule uint_nat_byte)
    moreover have "uint (of_nat n :: byte) = int (n mod 2 ^ 8)" by (simp add: unsigned_of_nat take_bit_eq_mod)
    moreover have "int n = int (n div 2 ^ 8 * 2 ^ 8 + n mod 2 ^ 8)" by (simp only: div_mult_mod_eq)
    ultimately show ?thesis by (simp only: of_nat_add of_nat_mult of_nat_power of_nat_numeral)
  qed
  then show ?thesis by (intro takes_fullI) simp_all
qed

lemma getBinaryLength_long:
  "t = BC_BINARY_CHUNK \<or> t = BC_BINARY \<Longrightarrow> getBinaryLength X t =
     (\<lambda>r. otry (ReadFull 2 r) (traced X 0) (\<lambda>buf r. (Ok (uint (buf ! 0) * 2 ^ 8 + uint (buf ! 1)), r)))"
  by (auto simp: getBinaryLength_def fun_eq_iff)

lemma getBinaryLength_head:
  assumes "n \<le> 4096"
  obtains t bs where "binary_head n = t # bs" "takes (getBinaryLength X t) bs (int n)"
    "t \<noteq> BC_BINARY_CHUNK" "t \<noteq> BC_NULL" "0x20 \<le> t \<and> t \<le> 0x2f \<or> 0x34 \<le> t \<and> t \<le> 0x37 \<or> t = BC_BINARY"
proof -
  consider "n \<le> 15" | "15 < n" "n \<le> 1023" | "1023 < n" by linarith
  then show thesis
  proof cases
    case 1
    define t :: byte where "t = 0x20 + of_nat n"
    have u: "uint t = 0x20 + int n"
      using 1 uint_tag(2) [of "int n" "0x20"] by (simp add: t_def)
    have d: "uint (t - 0x20) = int n" using 1 by (simp add: t_def uint_nat_byte)
    have t: "0x20 \<le> t" "t \<le> 0x2f" "t \<noteq> BC_BINARY_CHUNK" "t \<noteq> BC_NULL"
      using 1 by (auto simp: byte_le_uint u word_uint_eq_iff)
    then have "getBinaryLength X t = (\<lambda>r. (Ok (int n), r))"
      by (simp add: getBinaryLength_def fun_eq_iff d)
    with 1 t show thesis
      by (intro that [of t "[]"]) (simp_all add: binary_head_def takes_return t_def)
  next
    case 2
    define q t where "q = n div 2 ^ 8" "t = (of_nat q + 0x34 :: byte)"
    have q: "q \<le> 3" using 2 by (simp add: q_t_def div_le_mono [of n 1023 256, simplified])
    have u: "uint t = 0x34 + int q" "uint (t - 0x34) * 2 ^ 8 + uint (of_nat n :: byte) = int n"
      using short_head(3) short_head(1) [of n "0x34"] 2 by (simp_all only: q_t_def)
    have t: "0x34 \<le> t" "t \<le> 0x37" "\<not> t \<le> 0x2f" "t \<noteq> BC_BINARY_CHUNK" "t \<noteq> BC_NULL"
      using q by (auto simp: byte_le_uint u(1) word_uint_eq_iff)
    have "getBinaryLength X t = (\<lambda>r. otry (ReadFull 1 r) (traced X 0)
        (\<lambda>buf r. (Ok (uint (t - 0x34) * 2 ^ 8 + uint (buf ! 0)), r)))"
      using t by (simp add: getBinaryLength_def fun_eq_iff)
    moreover have "takes \<dots> [of_nat n] (int n)"
      using u(2) by (intro takes_fullI) simp_all
    ultimately show thesis using 2 t
      by (intro that [of t "[of_nat n]"]) (simp_all add: binary_head_def q_t_def add.commute)
  next
    case 3
    with two_length_bytes [of n "traced X 0"] assms getBinaryLength_long [of BC_BINARY X] show thesis
      by (intro that [of BC_BINARY "[of_nat (n div 2 ^ 8), of_nat n]"]) (simp_all add: binary_head_def)
  qed
qed

lemma encBinary_loop_step:
  assumes "v \<noteq> []"
  shows "encBinary_loop v b =
    (if length v \<le> 4096 then b @ binary_head (length v) @ v
     else encBinary_loop (drop 4096 v) (b @ [BC_BINARY_CHUNK, 0x10, 0] @ take 4096 v))"
  using assms
  by (simp add: encBinary_loop.simps [of v] encBinary_loop.simps [of "[]"] binary_head_def encByte_def Let_def)

lemma takes_decBinary_chunk:
  assumes "takes (getBinaryLength X t) bs (int (length c))" "length c \<le> 4096" "takes (f (data @ c)) rest v"
  shows "takes (decBinary_chunk X msg t data f) (bs @ c @ rest) v"
proof -
  have "takes (\<lambda>r. otry (ReadFull (length c) r)
      (\<lambda>e r. (ret None (je_Annotatef X ''decBinary->io.ReadFull(len:%d)'' (Some e)), r))
      (\<lambda>chunk r. f (data @ chunk) r)) (c @ rest) v"
    using assms(3) by (intro takes_otry [where a = c] takes_ReadFull) simp_all
  then show ?thesis unfolding decBinary_chunk_def [abs_def]
    using assms(1,2) by (intro takes_otry [where a = "int (length c)"]) simp_all
qed

lemma takes_readBufTag:
  "takes (p t) bs v \<Longrightarrow> takes (\<lambda>r. case readBufTag X r of (t, r1) \<Rightarrow> p t r1) (t # bs) v"
proof (rule takesI)
  fix r rest assume p: "takes (p t) bs v" and c: "content r = (t # bs) @ rest"
  have "takes (ReadFull 1) [t] [t]" by (rule takes_ReadFull) simp
  from takesE [OF this, of r "bs @ rest"] c obtain r1 where
    r1: "ReadFull 1 r = (Ok [t], r1)" "content r1 = bs @ rest" "rdr_ok r \<longrightarrow> rdr_ok r1" by auto
  from takesE [OF p r1(2)] obtain r2 where
    "p t r1 = (Ok v, r2)" "content r2 = rest" "rdr_ok r1 \<longrightarrow> rdr_ok r2" .
  with r1 show "\<exists>r'. (case readBufTag X r of (t, r1) \<Rightarrow> p t r1) = (Ok v, r') \<and> content r' = rest \<and>
      (rdr_ok r \<longrightarrow> rdr_ok r')"
    by (auto simp: readBufTag_def readBufByte_def)
qed

lemma encBinary_loop_decodes:
  assumes "v \<noteq> []"
  shows "\<exists>t bs. (\<forall>b. encBinary_loop v b = b @ t # bs) \<and> takes (decBinary_loop X t data) bs (Some (data @ v)) \<and>
    (0x20 \<le> t \<and> t \<le> 0x2f \<or> 0x34 \<le> t \<and> t \<le> 0x37 \<or> t = BC_BINARY \<or> t = BC_BINARY_CHUNK)"
  using assms
proof (induction "length v" arbitrary: v data rule: less_induct)
  case less
  show ?case
  proof (cases "length v \<le> 4096")
    case True
    from getBinaryLength_head [OF True, of X] obtain t bs where
      h: "binary_head (length v) = t # bs" "takes (getBinaryLength X t) bs (int (length v))"
        "t \<noteq> BC_BINARY_CHUNK" "0x20 \<le> t \<and> t \<le> 0x2f \<or> 0x34 \<le> t \<and> t \<le> 0x37 \<or> t = BC_BINARY" by metis
    have "takes (decBinary_loop X t data) (bs @ v @ []) (Some (data @ v))"
      unfolding decBinary_loop.simps [of X t data, abs_def] using h(2,3) True
      by (simp del: append_Nil2) (intro takes_decBinary_chunk takes_return, simp_all)
    with True h less.prems show ?thesis by (auto simp: encBinary_loop_step)
  next
    case False
    let ?c = "take 4096 v" and ?d = "drop 4096 v"
    have "length ?d < length v" "?d \<noteq> []" using False by auto
    from less.hyps [OF this, of "data @ ?c"] obtain t bs where
      IH: "\<And>b. encBinary_loop ?d b = b @ t # bs" "takes (decBinary_loop X t (data @ ?c)) bs (Some (data @ v))"
      by auto
    have "takes (getBinaryLength X BC_BINARY_CHUNK) [0x10, 0] (int (length ?c))"
      using two_length_bytes [of 4096 "traced X 0"] False getBinaryLength_long [of BC_BINARY_CHUNK X]
      by (simp add: min_absorb2)
    from takes_decBinary_chunk [where f = "\<lambda>data r. case readBufTag X r of (t, r1) \<Rightarrow> decBinary_loop X t data r1",
        OF this _ takes_readBufTag [where p = "\<lambda>t. decBinary_loop X t (data @ ?c)", OF IH(2)]]
    have "takes (decBinary_loop X BC_BINARY_CHUNK data) ([0x10, 0] @ ?c @ t # bs) (Some (data @ v))"
      by (simp add: decBinary_loop.simps [of X BC_BINARY_CHUNK data, abs_def])
    moreover have "encBinary_loop v b = b @ BC_BINARY_CHUNK # ([0x10, 0] @ ?c @ t # bs)" for b
      using False less.prems by (simp add: encBinary_loop_step IH(1))
    ultimately show ?thesis by blast
  qed
qed

text \<open>
  C3: Binary data of any length comes back from its encoding, the chunks joined; empty data is
  written as null and comes back empty.
\<close>

theorem binary_round_trip: "takes (decBinary X TAG_READ) (encBinary v []) (Some v)"
proof (cases "v = []")
  case True
  have "takes (\<lambda>r. case readBufTag X r of (t, r) \<Rightarrow> if t = BC_NULL then (Ok (Some []), r) else decBinary_loop X t [] r)
      [BC_NULL] (Some [])"
    using takes_return [of "Some []"] by (intro takes_readBufTag) simp
  with True show ?thesis by (simp add: encBinary_def encByte_def decBinary_def [abs_def])
next
  case False
  from encBinary_loop_decodes [OF this, of X "[]"] obtain t bs where
    e: "\<And>b. encBinary_loop v b = b @ t # bs" "takes (decBinary_loop X t []) bs (Some v)"
      "0x20 \<le> t \<and> t \<le> 0x2f \<or> 0x34 \<le> t \<and> t \<le> 0x37 \<or> t = BC_BINARY \<or> t = BC_BINARY_CHUNK"
    by auto
  from e(3) have "t \<noteq> BC_NULL" by (auto simp: byte_le_uint)
  with e(2) have "takes (\<lambda>r. case readBufTag X r of (t, r) \<Rightarrow>
      if t = BC_NULL then (Ok (Some []), r) else decBinary_loop X t [] r) (t # bs) (Some v)"
    by (intro takes_readBufTag) simp
  with False e show ?thesis by (simp add: encBinary_def decBinary_def [abs_def])
qed

text \<open>
  A chunk or final piece that announces more than 4096 bytes, which other encoders of the
  format write, is no error: the decoder returns a nil slice and leaves the bytes in the input.
\<close>

theorem binary_oversize_dropped:
  assumes "trace_ok X" and "t = BC_BINARY \<or> t = BC_BINARY_CHUNK" and "4096 < n" and "n < 65536"
  shows "takes (decBinary X TAG_READ) [t, of_nat (n div 2 ^ 8), of_nat n] None"
proof -
  have "takes (getBinaryLength X t) [of_nat (n div 2 ^ 8), of_nat n] (int n)"
    using two_length_bytes [OF assms(4), of "traced X 0"] assms(2) by (auto simp: getBinaryLength_long)
  then have "takes (decBinary_chunk X msg t [] f) ([of_nat (n div 2 ^ 8), of_nat n] @ []) None" for msg f
    unfolding decBinary_chunk_def [abs_def] using assms(1,3) takes_return [of "None"]
    by (intro takes_otry [where a = "int n"]) (simp_all add: trace_okD(3))
  then have "takes (decBinary_loop X t []) [of_nat (n div 2 ^ 8), of_nat n] None"
    using assms(2) by (auto simp: decBinary_loop.simps [of X _ "[]", abs_def])
  then show ?thesis unfolding decBinary_def [abs_def] using assms(2)
    by (auto intro!: takes_readBufTag)
qed

theorem binary_oversize_dropped_witness:
  "takes (decBinary ext0 TAG_READ) [BC_BINARY, 0x20, 0x01] None"
proof -
  have "(of_nat 0x2001 :: byte) = 1" "(of_nat (0x2001 div 2 ^ 8) :: byte) = 0x20"
    by (auto intro: word_uint_eqI)
  then show ?thesis using binary_oversize_dropped [of ext0 BC_BINARY "0x2001"] by (simp only:) simp
qed

end
