(* ===== verification/Hessian_Pojo.thy ===== *)
theory Hessian_Pojo
  imports Hessian_Text
begin

text \<open>
  The registry of plain objects, \<^verbatim>\<open>codec/hessian/pojo.go\<close>. The Go types of the program that uses
  the codec are a parameter: a record that gives, for the name of a struct type, its fields, and
  for the name of an enum type, its \<^verbatim>\<open>EnumValue\<close> method. Names are byte strings, since they are
  compared with what comes from the wire. Field names are ASCII identifiers, on which
  \<^verbatim>\<open>strings.ToLower\<close> is the map of the letters A to Z.
\<close>

section \<open>Go types and the types of the using program\<close>

datatype gotype =
    TBool | TInt8 | TInt16 | TInt32 | TInt | TInt64
  | TUint8 | TUint16 | TUint32 | TUint | TUint64
  | TFloat32 | TFloat64 | TString | TInterface | TTime
  | TMap gotype gotype | TSlice gotype | TArray nat gotype | TPtr gotype
  | TStruct "byte list" | TEnum "byte list" gotype

record tyenv =
  ty_fields :: "byte list \<Rightarrow> (byte list \<times> gotype) list"
  ty_EnumValue :: "byte list \<Rightarrow> byte list \<Rightarrow> int32"

text \<open>\<^verbatim>\<open>reflect.Type.String\<close>.\<close>

fun type_String :: "gotype \<Rightarrow> byte list" where
  "type_String TBool = str ''bool''"
| "type_String TInt8 = str ''int8''"
| "type_String TInt16 = str ''int16''"
| "type_String TInt32 = str ''int32''"
| "type_String TInt = str ''int''"
| "type_String TInt64 = str ''int64''"
| "type_String TUint8 = str ''uint8''"
| "type_String TUint16 = str ''uint16''"
| "type_String TUint32 = str ''uint32''"
| "type_String TUint = str ''uint''"
| "type_String TUint64 = str ''uint64''"
| "type_String TFloat32 = str ''float32''"
| "type_String TFloat64 = str ''float64''"
| "type_String TString = str ''string''"
| "type_String TInterface = str ''interface {}''"
| "type_String TTime = str ''time.Time''"
| "type_String (TMap k v) = str ''map['' @ type_String k @ str '']'' @ type_String v"
| "type_String (TSlice t) = str ''[]'' @ type_String t"
| "type_String (TArray n t) = str ''['' @ Itoa (int n) @ str '']'' @ type_String t"
| "type_String (TPtr t) = str ''*'' @ type_String t"
| "type_String (TStruct n) = n"
| "type_String (TEnum n k) = n"

text \<open>\<^verbatim>\<open>typ.Implements(javaEnumType)\<close>: the enums are the named integer types.\<close>

fun implements_enum :: "gotype \<Rightarrow> bool" where
  "implements_enum (TEnum n k) = True"
| "implements_enum _ = False"

definition ToLower :: "byte list \<Rightarrow> byte list" where
  "ToLower s = map (\<lambda>b. if 0x41 \<le> b \<and> b \<le> 0x5a then b + 0x20 else b) s"

section \<open>The registry\<close>

record classInfo =
  javaName :: "byte list"
  fieldNameList :: "byte list list"
  buffer :: "byte list"

definition classInfo0 :: classInfo where
  "classInfo0 = \<lparr>javaName = [], fieldNameList = [], buffer = []\<rparr>"

text \<open>
  \<^verbatim>\<open>structInfo\<close>. The registered instance matters only for its \<^verbatim>\<open>EnumValue\<close> method, which its type
  gives.
\<close>

record structInfo =
  si_typ :: gotype
  si_goName :: "byte list"
  si_javaName :: "byte list"
  si_index :: nat

record POJORegistry =
  pr_classInfoList :: "classInfo list"
  pr_j2g :: "byte list \<rightharpoonup> byte list"
  pr_registry :: "byte list \<rightharpoonup> structInfo"

definition pojoRegistry0 :: POJORegistry where
  "pojoRegistry0 = \<lparr>pr_classInfoList = [], pr_j2g = Map.empty, pr_registry = Map.empty\<rparr>"

text \<open>A registered object: its type, pointers removed, and its \<^verbatim>\<open>JavaClassName\<close>.\<close>

record POJO =
  po_typ :: gotype
  po_JavaClassName :: "byte list"

text \<open>The class definition as bytes: \<^verbatim>\<open>'C' string int string*\<close>.\<close>

definition class_buffer :: "ext \<Rightarrow> byte list \<Rightarrow> byte list list \<Rightarrow> byte list" where
  "class_buffer X jn l =
     foldl (\<lambda>b f. encString X f b)
       (encInt32 (of_nat (length l)) (encString X jn (encByte [] [BC_OBJECT_DEF]))) l"

definition register_class ::
  "ext \<Rightarrow> POJO \<Rightarrow> byte list list \<Rightarrow> POJORegistry \<Rightarrow> int \<times> POJORegistry" where
  "register_class X ob l reg =
     (let jn = po_JavaClassName ob; gn = type_String (po_typ ob); idx = length (pr_classInfoList reg);
          c = \<lparr>javaName = jn, fieldNameList = l, buffer = class_buffer X jn l\<rparr>;
          t = \<lparr>si_typ = po_typ ob, si_goName = gn, si_javaName = jn, si_index = idx\<rparr>
      in (int idx,
          reg\<lparr>pr_classInfoList := pr_classInfoList reg @ [c],
              pr_j2g := (pr_j2g reg)(jn \<mapsto> gn),
              pr_registry := (pr_registry reg)(gn \<mapsto> t)\<rparr>))"

text \<open>
  \<^verbatim>\<open>NumField\<close> panics on a type that is no struct, after the name has been entered in \<^verbatim>\<open>j2g\<close>.
\<close>

definition RegisterPOJO ::
  "ext \<Rightarrow> tyenv \<Rightarrow> POJO \<Rightarrow> POJORegistry \<Rightarrow> int outcome \<times> POJORegistry" where
  "RegisterPOJO X E ob reg =
     (case pr_registry reg (po_JavaClassName ob) of
        Some _ \<Rightarrow> (Ok (- 1), reg)
      | None \<Rightarrow>
        (case po_typ ob of
           TStruct n \<Rightarrow>
             (case register_class X ob (map (ToLower \<circ> fst) (ty_fields E n)) reg of
                (i, reg) \<Rightarrow> (Ok i, reg))
         | t \<Rightarrow> (Panic, reg\<lparr>pr_j2g := (pr_j2g reg)(po_JavaClassName ob \<mapsto> type_String t)\<rparr>)))"

definition RegisterJavaEnum :: "ext \<Rightarrow> POJO \<Rightarrow> POJORegistry \<Rightarrow> int \<times> POJORegistry" where
  "RegisterJavaEnum X ob reg =
     (case pr_registry reg (po_JavaClassName ob) of
        Some _ \<Rightarrow> (- 1, reg)
      | None \<Rightarrow> register_class X ob [ToLower (str ''name'')] reg)"

definition checkPOJORegistry :: "POJORegistry \<Rightarrow> byte list \<Rightarrow> nat \<times> bool" where
  "checkPOJORegistry reg goName = (case pr_registry reg goName of
     Some s \<Rightarrow> (si_index s, True) | None \<Rightarrow> (0, False))"

definition getStructInfo :: "POJORegistry \<Rightarrow> byte list \<Rightarrow> structInfo option" where
  "getStructInfo reg jn = (case pr_j2g reg jn of None \<Rightarrow> None | Some g \<Rightarrow> pr_registry reg g)"

text \<open>\<^verbatim>\<open>getStructDefByIndex\<close> returns the class next to the error; \<open>j2g\<close> of a missing key is "".\<close>

definition getStructDefByIndex :: "POJORegistry \<Rightarrow> int \<Rightarrow> (gotype option \<times> classInfo \<times> goerr option)" where
  "getStructDefByIndex reg idx =
     (if int (length (pr_classInfoList reg)) \<le> idx \<or> idx < 0 then
        (None, classInfo0, Some (Errorf ''illegal class index @idx %d''))
      else
        (let cls = pr_classInfoList reg ! nat idx;
             clsName = (case pr_j2g reg (javaName cls) of Some g \<Rightarrow> g | None \<Rightarrow> [])
         in case pr_registry reg clsName of
              None \<Rightarrow> (None, cls, Some (Errorf ''can not find go type name %s in registry''))
            | Some s \<Rightarrow> (Some (si_typ s), cls, None)))"

definition createInstance :: "POJORegistry \<Rightarrow> byte list \<Rightarrow> gotype option" where
  "createInstance reg goName = map_option si_typ (pr_registry reg goName)"

section \<open>The registry invariant\<close>

text \<open>
  Every entry is under its Go name and points at a class with its Java name, and every class's
  Java name leads to a registered Go type.
\<close>

definition reg_ok :: "POJORegistry \<Rightarrow> bool" where
  "reg_ok reg \<longleftrightarrow>
     (\<forall>gn s. pr_registry reg gn = Some s \<longrightarrow>
        si_goName s = gn \<and> type_String (si_typ s) = gn \<and> si_index s < length (pr_classInfoList reg) \<and>
        javaName (pr_classInfoList reg ! si_index s) = si_javaName s) \<and>
     (\<forall>c \<in> set (pr_classInfoList reg). \<exists>g s. pr_j2g reg (javaName c) = Some g \<and> pr_registry reg g = Some s)"

lemma reg_ok_init [simp]: "reg_ok pojoRegistry0"
  by (simp add: reg_ok_def pojoRegistry0_def)

lemma reg_ok_register_class:
  assumes "reg_ok reg"
  shows "reg_ok (snd (register_class X ob l reg))"
proof -
  let ?reg' = "snd (register_class X ob l reg)"
  have "\<exists>g s. pr_j2g ?reg' (javaName c) = Some g \<and> pr_registry ?reg' g = Some s"
    if "c \<in> set (pr_classInfoList ?reg')" for c
  proof (cases "javaName c = po_JavaClassName ob")
    case True
    then show ?thesis by (simp add: register_class_def Let_def)
  next
    case False
    with that have "c \<in> set (pr_classInfoList reg)" by (auto simp: register_class_def Let_def)
    with assms obtain g s where "pr_j2g reg (javaName c) = Some g" "pr_registry reg g = Some s"
      unfolding reg_ok_def by blast
    with False show ?thesis by (auto simp: register_class_def Let_def)
  qed
  then show ?thesis
    using assms by (auto simp: reg_ok_def register_class_def Let_def nth_append intro: less_SucI)
qed

lemma reg_ok_lookup:
  assumes "reg_ok reg" "pr_registry reg gn = Some s"
  shows "si_index s < length (pr_classInfoList reg)" "type_String (si_typ s) = gn"
    "javaName (pr_classInfoList reg ! si_index s) = si_javaName s"
  using assms by (auto simp: reg_ok_def)

lemma register_class_lookup:
  assumes "register_class X ob l reg = (i, reg')"
  shows "i = int (length (pr_classInfoList reg))"
    "checkPOJORegistry reg' (type_String (po_typ ob)) = (nat i, True)"
    "map_option si_typ (getStructInfo reg' (po_JavaClassName ob)) = Some (po_typ ob)"
    "getStructDefByIndex reg' i = (Some (po_typ ob),
       \<lparr>javaName = po_JavaClassName ob, fieldNameList = l,
         buffer = class_buffer X (po_JavaClassName ob) l\<rparr>, None)"
  using assms
  by (auto simp: register_class_def Let_def checkPOJORegistry_def getStructInfo_def getStructDefByIndex_def)

lemmas register_defs = RegisterPOJO_def RegisterJavaEnum_def

text \<open>
  C27: Registering an object or an enum keeps the registry consistent: every entry points at the
  class with its Java name, and the Java name of every class leads to a registered type.
\<close>

theorem registry_consistent:
  assumes "reg_ok reg"
  shows "(\<forall>i reg'. RegisterPOJO X E ob reg = (Ok i, reg') \<longrightarrow> reg_ok reg') \<and>
    reg_ok (snd (RegisterJavaEnum X ob reg))"
  using assms reg_ok_register_class [OF assms, of X ob]
  by (auto simp: register_defs split: option.splits gotype.splits prod.splits) (metis snd_conv)

theorem registry_consistent_witness:
  "reg_ok (snd (RegisterJavaEnum ext0 \<lparr>po_typ = TEnum [0x47] TInt32, po_JavaClassName = [0x67]\<rparr> pojoRegistry0))"
  using registry_consistent [OF reg_ok_init] by blast

text \<open>
  A newly registered struct is found by its Go name, by its Java name and by the index the
  registration returned, with its field names in lower case.
\<close>

theorem register_then_find:
  assumes "pr_registry reg (po_JavaClassName ob) = None" and "po_typ ob = TStruct n"
  shows "\<exists>i reg'. RegisterPOJO X E ob reg = (Ok i, reg') \<and> 0 \<le> i \<and>
    checkPOJORegistry reg' n = (nat i, True) \<and>
    map_option si_typ (getStructInfo reg' (po_JavaClassName ob)) = Some (TStruct n) \<and>
    (\<exists>c. getStructDefByIndex reg' i = (Some (TStruct n), c, None) \<and>
       javaName c = po_JavaClassName ob \<and> fieldNameList c = map (ToLower \<circ> fst) (ty_fields E n))"
proof -
  obtain i reg' where r: "register_class X ob (map (ToLower \<circ> fst) (ty_fields E n)) reg = (i, reg')"
    by (cases "register_class X ob (map (ToLower \<circ> fst) (ty_fields E n)) reg")
  from register_class_lookup [OF r] assms r show ?thesis by (simp add: RegisterPOJO_def)
qed

theorem register_then_find_witness:
  "\<exists>i reg'. RegisterPOJO ext0 \<lparr>ty_fields = (\<lambda>_. [([0x41], TInt32)]), ty_EnumValue = (\<lambda>_ _. 0)\<rparr>
      \<lparr>po_typ = TStruct [0x54], po_JavaClassName = [0x6a]\<rparr> pojoRegistry0 = (Ok i, reg') \<and>
    checkPOJORegistry reg' [0x54] = (nat i, True)"
  using register_then_find [of pojoRegistry0 "\<lparr>po_typ = TStruct [0x54], po_JavaClassName = [0x6a]\<rparr>"
      "[0x54]" ext0 "\<lparr>ty_fields = (\<lambda>_. [([0x41], TInt32)]), ty_EnumValue = (\<lambda>_ _. 0)\<rparr>"]
  by (auto simp: pojoRegistry0_def)

text \<open>
  The documented result -1 for an object that is registered already is not given: the check
  looks the Java name up among Go names. Registering the same struct again succeeds with a further
  index and appends a second class definition, as long as no Go type has that name.
\<close>

theorem register_again:
  assumes "po_typ ob = TStruct n" and "RegisterPOJO X E ob reg = (Ok i, reg1)" and "i \<noteq> - 1"
    and "n \<noteq> po_JavaClassName ob"
  shows "\<exists>reg2. RegisterPOJO X E ob reg1 = (Ok (i + 1), reg2) \<and>
    length (pr_classInfoList reg2) = length (pr_classInfoList reg) + 2"
proof -
  from assms(1-3) have "pr_registry reg (po_JavaClassName ob) = None"
    and "register_class X ob (map (ToLower \<circ> fst) (ty_fields E n)) reg = (i, reg1)"
    by (auto simp: RegisterPOJO_def split: option.splits prod.splits)
  with assms(1,4) show ?thesis
    by (auto simp: RegisterPOJO_def register_class_def Let_def)
qed

theorem register_again_witness:
  "\<exists>reg1 reg2. RegisterPOJO ext0 \<lparr>ty_fields = (\<lambda>_. []), ty_EnumValue = (\<lambda>_ _. 0)\<rparr>
      \<lparr>po_typ = TStruct [0x54], po_JavaClassName = [0x6a]\<rparr> pojoRegistry0 = (Ok 0, reg1) \<and>
    RegisterPOJO ext0 \<lparr>ty_fields = (\<lambda>_. []), ty_EnumValue = (\<lambda>_ _. 0)\<rparr>
      \<lparr>po_typ = TStruct [0x54], po_JavaClassName = [0x6a]\<rparr> reg1 = (Ok 1, reg2)"
proof -
  let ?E = "\<lparr>ty_fields = (\<lambda>_. []), ty_EnumValue = (\<lambda>_ _. 0)\<rparr> :: tyenv"
  let ?o = "\<lparr>po_typ = TStruct [0x54], po_JavaClassName = [0x6a]\<rparr> :: POJO"
  obtain reg1 where r: "RegisterPOJO ext0 ?E ?o pojoRegistry0 = (Ok 0, reg1)"
    by (simp add: RegisterPOJO_def pojoRegistry0_def register_class_def Let_def)
  from register_again [of ?o "[0x54]", OF _ r] r show ?thesis by auto
qed

end
