(* ===== verification/Hessian_Encode.thy ===== *)
theory Hessian_Encode
  imports Hessian_Pojo
begin

text \<open>
  The encoder, \<^verbatim>\<open>codec/hessian/encode.go\<close>: \<^verbatim>\<open>Encode\<close> dispatches on the dynamic type of its argument
  and writes lists, maps and objects, whose class definitions go in front of their first instance.
  The state is the encoder with its buffer and the classes it has written, and the process-wide
  registry, to which an unknown class is added. A map is the list of its entries in the order Go
  visits them.
\<close>

section \<open>Values\<close>

datatype goval =
    VNil | VBool bool
  | VInt8 byte | VInt16 "16 word" | VInt32 int32 | VInt int64 | VInt64 int64
  | VUint gotype int64
  | VTime int | VFloat32 "32 word" | VFloat64 f64
  | VString "byte list" | VBytes "byte list"
  | VEnum "byte list" gotype int64
  | VUntypedMap "(goval \<times> goval) list"
  | VMap gotype "(goval \<times> goval) list"
  | VList "goval list"
  | VStruct "byte list" "byte list option" "goval list"
  | VPtr gotype "byte list option"
  | VOther

text \<open>
  \<open>VStruct n jn vs\<close> is a struct of type \<open>n\<close> with field values \<open>vs\<close>, whose \<^verbatim>\<open>JavaClassName\<close> is
  \<open>jn\<close> if it is a POJO; \<open>VPtr t jn\<close> a pointer to a \<open>t\<close>; \<open>VUint\<close> the unsigned types; \<open>VOther\<close>
  what has no other constructor (functions, channels, named scalars).
\<close>

text \<open>\<^verbatim>\<open>float64(v)\<close> of a \<^verbatim>\<open>float32\<close>, exact; a signalling NaN becomes a quiet one.\<close>

definition f64_of_f32 :: "32 word \<Rightarrow> f64" where
  "f64_of_f32 w =
     (let b = unat w; sgn = (if 2 ^ 31 \<le> b then 2 ^ 63 else 0); e = b div 2 ^ 23 mod 256; m = b mod 2 ^ 23
      in of_nat (sgn +
        (if e = 255 then 2047 * 2 ^ 52 + (if m = 0 then 0 else 2 ^ 51 + m mod 2 ^ 22 * 2 ^ 29)
         else if e = 0 then
           (if m = 0 then 0 else let k = ilog2 m in (k + 874) * 2 ^ 52 + (m * 2 ^ (52 - k) - 2 ^ 52))
         else (e + 896) * 2 ^ 52 + m * 2 ^ 29)))"

text \<open>\<^verbatim>\<open>float32(v)\<close> of a \<^verbatim>\<open>float64\<close>: to nearest, ties to even, with overflow to infinity.\<close>

definition f32_of_f64 :: "f64 \<Rightarrow> 32 word" where
  "f32_of_f64 v =
     (let b = unat v; sgn = (if 2 ^ 63 \<le> b then 2 ^ 31 else 0); e = b div 2 ^ 52 mod 2048; m = b mod 2 ^ 52
      in if e = 2047 then
           of_nat (sgn + 255 * 2 ^ 23 + (if m = 0 then 0 else 2 ^ 22 + m mod 2 ^ 51 div 2 ^ 29))
         else
           (let mant = (if e = 0 then m else 2 ^ 52 + m);
                up = (if e = 0 then 1 else e);
                \<comment> \<open>the value is \<open>mant * 2 ^ (up - 1075)\<close>; bits below the last place of the result go\<close>
                cut = (if mant = 0 then 0 else max (926 - int up) (int (ilog2 mant) - 23));
                q = (if cut \<le> 0 then mant * 2 ^ nat (- cut) else mant div 2 ^ nat cut);
                rem = (if cut \<le> 0 then 0 else mant mod 2 ^ nat cut);
                half = (if cut \<le> 0 then 1 else 2 ^ (nat cut - 1));
                n = (if half < rem \<or> rem = half \<and> odd q then q + 1 else q);
                bits = nat (int up + cut - 926) * 2 ^ 23 + n
            in of_nat (sgn + min bits (255 * 2 ^ 23))))"

section \<open>The encoder\<close>

record Encoder =
  ec_classInfoList :: "classInfo list"
  ec_buffer :: "byte list"
  ec_registry :: POJORegistry

definition NewEncoder :: "POJORegistry \<Rightarrow> Encoder" where
  "NewEncoder reg = \<lparr>ec_classInfoList = [], ec_buffer = [], ec_registry = reg\<rparr>"

definition Append :: "byte list \<Rightarrow> Encoder \<Rightarrow> Encoder" where
  "Append buf e = e\<lparr>ec_buffer := ec_buffer e @ buf\<rparr>"

text \<open>\<^verbatim>\<open>e.buffer = encX(v, e.buffer)\<close>.\<close>

definition upd :: "(byte list \<Rightarrow> byte list) \<Rightarrow> Encoder \<Rightarrow> Encoder" where
  "upd f e = e\<lparr>ec_buffer := f (ec_buffer e)\<rparr>"

definition getMapKey :: "goval \<Rightarrow> gotype \<Rightarrow> goval outcome" where
  "getMapKey key t = (case t of
     TBool \<Rightarrow> Ok key
   | TInt8 \<Rightarrow> Ok key | TInt16 \<Rightarrow> Ok key | TInt32 \<Rightarrow> Ok key | TInt \<Rightarrow> Ok key | TInt64 \<Rightarrow> Ok key
   | TUint8 \<Rightarrow> Ok key | TUint16 \<Rightarrow> Ok key | TUint32 \<Rightarrow> Ok key | TUint \<Rightarrow> Ok key | TUint64 \<Rightarrow> Ok key
   | TFloat32 \<Rightarrow> Ok key | TFloat64 \<Rightarrow> Ok key
   | TString \<Rightarrow> Ok key
   | TEnum n k \<Rightarrow>
       (case key of
          VEnum _ _ i \<Rightarrow>
            (case k of TInt8 \<Rightarrow> Ok (VInt8 (ucast i)) | TInt16 \<Rightarrow> Ok (VInt16 (ucast i))
             | TInt32 \<Rightarrow> Ok (VInt32 (ucast i)) | TInt \<Rightarrow> Ok (VInt i) | _ \<Rightarrow> Ok (VInt64 i))
        | _ \<Rightarrow> Ok key)
   | _ \<Rightarrow> Err (Errorf ''unsuport map key kind %s''))"

text \<open>The first class of the encoder with this Java name.\<close>

fun class_index :: "byte list \<Rightarrow> classInfo list \<Rightarrow> nat option" where
  "class_index jn [] = None"
| "class_index jn (c # cs) = (if jn = javaName c then Some 0 else map_option Suc (class_index jn cs))"

text \<open>
  The part of \<^verbatim>\<open>encStruct\<close> before the fields: find or write the class definition, then the
  instance header. \<open>tn\<close> is \<^verbatim>\<open>typeof(v)\<close>. The choice of the short header looks at the low byte of
  the index only.
\<close>

definition encStruct_head ::
  "ext \<Rightarrow> tyenv \<Rightarrow> byte list \<Rightarrow> POJO \<Rightarrow> Encoder \<Rightarrow> unit outcome \<times> Encoder" where
  "encStruct_head X E tn v e =
     otry
       (case class_index (po_JavaClassName v) (ec_classInfoList e) of
          Some i \<Rightarrow> (Ok i, e)
        | None \<Rightarrow>
          otry (case checkPOJORegistry (ec_registry e) tn of
                  (i, True) \<Rightarrow> (Ok (int i), e)
                | (_, False) \<Rightarrow> (case RegisterPOJO X E v (ec_registry e) of
                    (res, reg) \<Rightarrow> (res, e\<lparr>ec_registry := reg\<rparr>)))
            (\<lambda>err e. (Err err, e))
            (\<lambda>idx e.
              let clsDef = fst (snd (getStructDefByIndex (ec_registry e) idx))
              in (Ok (length (ec_classInfoList e)),
                  e\<lparr>ec_classInfoList := ec_classInfoList e @ [clsDef],
                    ec_buffer := ec_buffer e @ buffer clsDef\<rparr>)))
       (\<lambda>err e. (Err err, e))
       (\<lambda>idx e.
         if (of_nat idx :: byte) \<le> OBJECT_DIRECT_MAX then
           (Ok (), upd (\<lambda>b. encByte b [of_nat idx + BC_OBJECT_DIRECT]) e)
         else
           (Ok (), upd (\<lambda>b. encInt32 (of_nat idx) (encByte b [BC_OBJECT])) e))"

text \<open>\<^verbatim>\<open>Field(i).Interface()\<close> panics on a field whose name does not start with a capital.\<close>

definition exported :: "byte list \<Rightarrow> bool" where
  "exported n = (case n of [] \<Rightarrow> False | b # _ \<Rightarrow> 0x41 \<le> b \<and> b \<le> 0x5a)"

abbreviation (input) raise :: "goerr \<Rightarrow> 's \<Rightarrow> 'a outcome \<times> 's" where
  "raise err s \<equiv> (Err err, s)"

text \<open>The cases of \<^verbatim>\<open>Encode\<close> that write a scalar or reject the value.\<close>

definition encScalar :: "ext \<Rightarrow> goval \<Rightarrow> Encoder \<Rightarrow> unit outcome \<times> Encoder" where
  "encScalar X v e = (case v of
     VNil \<Rightarrow> (Ok (), upd encNull e)
   | VBool v \<Rightarrow> (Ok (), upd (encBool v) e)
   | VInt8 v \<Rightarrow> (Panic, e)
   | VInt16 v \<Rightarrow> (Panic, e)
   | VInt32 v \<Rightarrow> (Ok (), upd (encInt32 v) e)
   | VInt v \<Rightarrow> (Ok (), upd (encInt64 v) e)
   | VInt64 v \<Rightarrow> (Ok (), upd (encInt64 v) e)
   | VTime v \<Rightarrow> (Ok (), upd (encDateInMs v) e)
   | VFloat32 v \<Rightarrow> (Ok (), upd (encFloat (f64_of_f32 v)) e)
   | VFloat64 v \<Rightarrow> (Ok (), upd (encFloat v) e)
   | VString v \<Rightarrow> (Ok (), upd (encString X v) e)
   | VBytes v \<Rightarrow> (Ok (), upd (encBinary v) e)
   | _ \<Rightarrow> (Err (Errorf ''type not Support! %s''), e))"

function Encode :: "ext \<Rightarrow> tyenv \<Rightarrow> goval \<Rightarrow> Encoder \<Rightarrow> unit outcome \<times> Encoder"
  and encUntypedList_items :: "ext \<Rightarrow> tyenv \<Rightarrow> goval list \<Rightarrow> Encoder \<Rightarrow> unit outcome \<times> Encoder"
  and encUntypedMap_entries :: "ext \<Rightarrow> tyenv \<Rightarrow> (goval \<times> goval) list \<Rightarrow> Encoder \<Rightarrow> unit outcome \<times> Encoder"
  and encMap_entries ::
    "ext \<Rightarrow> tyenv \<Rightarrow> gotype \<Rightarrow> (goval \<times> goval) list \<Rightarrow> Encoder \<Rightarrow> unit outcome \<times> Encoder"
  and encStruct_fields ::
    "ext \<Rightarrow> tyenv \<Rightarrow> byte list list \<Rightarrow> goval list \<Rightarrow> Encoder \<Rightarrow> unit outcome \<times> Encoder" where
  "Encode X E v e = (case v of
     VUntypedMap m \<Rightarrow>
       if m = [] then (Ok (), e)
       else otry (encUntypedMap_entries X E m (upd (\<lambda>b. encByte b [BC_MAP_UNTYPED]) e)) raise
         (\<lambda>_ e. (Ok (), upd (\<lambda>b. encByte b [BC_END]) e))
   | VMap t m \<Rightarrow>
       if m = [] then (Ok (), e)
       else encMap_entries X E t m (upd (\<lambda>b. encByte b [BC_MAP_UNTYPED]) e)
   | VList vs \<Rightarrow>
       encUntypedList_items X E vs (upd (\<lambda>b. encInt32 (of_nat (length vs)) (encByte b [BC_LIST_FIXED_UNTYPED])) e)
   | VStruct n jn vs \<Rightarrow>
       (case jn of
          None \<Rightarrow> (Err (Errorf ''struct type not Support! %s is not a instance of POJO''), e)
        | Some jn \<Rightarrow>
            otry (encStruct_head X E n \<lparr>po_typ = TStruct n, po_JavaClassName = jn\<rparr> e) raise
              (\<lambda>_ e. encStruct_fields X E (map fst (ty_fields E n)) vs e))
   | VPtr t jn \<Rightarrow>
       (case jn of
          None \<Rightarrow> (Err (Errorf ''struct type not Support! %s is not a instance of POJO''), e)
        | Some jn \<Rightarrow>
            otry (encStruct_head X E (type_String (TPtr t)) \<lparr>po_typ = t, po_JavaClassName = jn\<rparr> e) raise
              (\<lambda>_ e. (Panic, e)))
   | _ \<Rightarrow> encScalar X v e)"
| "encUntypedList_items X E vs e = (case vs of
     [] \<Rightarrow> (Ok (), e)
   | v # vs' \<Rightarrow> otry (Encode X E v e) raise (\<lambda>_ e. encUntypedList_items X E vs' e))"
| "encUntypedMap_entries X E m e = (case m of
     [] \<Rightarrow> (Ok (), e)
   | kv # m' \<Rightarrow>
       otry (Encode X E (fst kv) e) raise (\<lambda>_ e.
         otry (Encode X E (snd kv) e) raise (\<lambda>_ e. encUntypedMap_entries X E m' e)))"
| "encMap_entries X E t m e = (case m of
     [] \<Rightarrow> (Ok (), upd (\<lambda>b. encByte b [BC_END]) e)
   | kv # m' \<Rightarrow>
       (case getMapKey (fst kv) t of
          Ok k \<Rightarrow>
            otry (encScalar X k e) (\<lambda>_ e. (Ok (), e)) (\<lambda>_ e.
              otry (Encode X E (snd kv) e) raise (\<lambda>_ e. encMap_entries X E t m' e))
        | Err err \<Rightarrow> (ret () (je_Annotatef X ''getMapKey(idx:%d, key:%+v)'' (Some err)), e)
        | Panic \<Rightarrow> (Panic, e) | NoFuel \<Rightarrow> (NoFuel, e)))"
| "encStruct_fields X E ns vs e = (case vs of
     [] \<Rightarrow> (Ok (), e)
   | v # vs' \<Rightarrow>
       (case ns of
          [] \<Rightarrow> (Panic, e)
        | n # ns' \<Rightarrow>
            if \<not> exported n then (Panic, e)
            else otry (Encode X E v e) raise (\<lambda>_ e. encStruct_fields X E ns' vs' e)))"
  by pat_completeness auto
termination
  by (relation "measure (\<lambda>x. case x of
      Inl (Inl (X, E, v, e)) \<Rightarrow> 2 * size v
    | Inl (Inr (X, E, vs, e)) \<Rightarrow> 2 * size_list size vs + 1
    | Inr (Inl (X, E, m, e)) \<Rightarrow> 2 * size_list (size_prod size size) m + 1
    | Inr (Inr (Inl (X, E, t, m, e))) \<Rightarrow> 2 * size_list (size_prod size size) m + 1
    | Inr (Inr (Inr (X, E, ns, vs, e))) \<Rightarrow> 2 * size_list size vs + 1)") auto

declare Encode.simps [simp del] encUntypedList_items.simps [simp del]
  encUntypedMap_entries.simps [simp del] encMap_entries.simps [simp del] encStruct_fields.simps [simp del]

end
