(* ===== verification/Hessian_Decode.thy ===== *)
theory Hessian_Decode
  imports Hessian_Encode
begin

text \<open>
  The decoder of composite values, \<^verbatim>\<open>codec/hessian/decode.go\<close>: \<^verbatim>\<open>Decode\<close> and the functions for
  lists, maps, class definitions, objects, enums and references. The functions call each other
  and can recurse for ever on some inputs, so they carry fuel: a call with no fuel left has the
  outcome \<open>NoFuel\<close>. A reference is the index of its slot among the objects read so far.
\<close>

section \<open>Values and state\<close>

datatype dval =
    DNil | DBool bool | DInt32 int32 | DInt64 int64 | DTime int | DFloat f64
  | DString "byte list" | DBytes "byte list option"
  | DList "dval list" | DMap "(dval \<times> dval) list"
  | DInst "byte list" "dval option list"
  | DEnum int32 | DRef nat

text \<open>
  \<open>DInst n vs\<close> is the \<^verbatim>\<open>reflect.Value\<close> of a struct of type \<open>n\<close>; a field that is still zero is
  \<open>None\<close>, and an integer field of any width is \<open>DInt64\<close>. \<open>DEnum\<close> is a \<^verbatim>\<open>JavaEnum\<close>, \<open>DRef i\<close> the
  pointer \<^verbatim>\<open>&d.refs[i]\<close>, \<open>DBytes None\<close> a nil byte slice. A slot of \<^verbatim>\<open>d.refs\<close> holds an object that is still being filled when it
  is entered; the model keeps what kind of object it is.
\<close>

datatype refslot = RList nat | RMap | RInst "byte list" | REnum int32 | RNil

record Decoder =
  dc_reader :: rdr
  dc_refs :: "refslot list"
  dc_classInfoList :: "classInfo list"
  dc_errval :: dval

text \<open>
  \<open>dc_errval\<close> is not in the source: it is the value that \<^verbatim>\<open>Decode\<close> has returned next to its last
  error, which one caller uses.
\<close>

definition NewDecoder :: "byte list \<Rightarrow> Decoder" where
  "NewDecoder b = \<lparr>dc_reader = NewReader b, dc_refs = [], dc_classInfoList = [], dc_errval = DNil\<rparr>"

definition appendRefs :: "refslot \<Rightarrow> Decoder \<Rightarrow> Decoder" where
  "appendRefs v d = d\<lparr>dc_refs := dc_refs d @ [v]\<rparr>"

definition appendClsDef :: "classInfo \<Rightarrow> Decoder \<Rightarrow> Decoder" where
  "appendClsDef c d = d\<lparr>dc_classInfoList := dc_classInfoList d @ [c]\<rparr>"

text \<open>A reader operation as an operation of the decoder.\<close>

definition rdop :: "(rdr \<Rightarrow> 'a outcome \<times> rdr) \<Rightarrow> Decoder \<Rightarrow> 'a outcome \<times> Decoder" where
  "rdop p d = (case p (dc_reader d) of (res, r) \<Rightarrow> (res, d\<lparr>dc_reader := r\<rparr>))"

text \<open>\<^verbatim>\<open>peekByte\<close>: indexing the empty slice at the end of input panics.\<close>

definition peekByte :: "Decoder \<Rightarrow> byte outcome \<times> Decoder" where
  "peekByte d = (case Peek 1 (dc_reader d) of ((bs, _), r) \<Rightarrow>
     (case bs of [] \<Rightarrow> (Panic, d\<lparr>dc_reader := r\<rparr>) | b # _ \<Rightarrow> (Ok b, d\<lparr>dc_reader := r\<rparr>)))"

text \<open>\<^verbatim>\<open>d.peek(d.len())\<close>, which the last branch of \<^verbatim>\<open>Decode\<close> puts in its message.\<close>

definition peekAll :: "Decoder \<Rightarrow> Decoder" where
  "peekAll d = (let r = snd (Peek 1 (dc_reader d)) in d\<lparr>dc_reader := snd (Peek (Buffered r) r)\<rparr>)"

text \<open>\<^verbatim>\<open>d.readByte()\<close> with its results ignored, and the same for \<^verbatim>\<open>readBufByte\<close> and \<^verbatim>\<open>unreadByte\<close>.\<close>

definition skipByte :: "Decoder \<Rightarrow> Decoder" where
  "skipByte d = d\<lparr>dc_reader := snd (ReadByte (dc_reader d))\<rparr>"

definition skipBufByte :: "ext \<Rightarrow> Decoder \<Rightarrow> Decoder" where
  "skipBufByte X d = d\<lparr>dc_reader := snd (readBufByte X (dc_reader d))\<rparr>"

definition unreadByte :: "Decoder \<Rightarrow> Decoder" where
  "unreadByte d = d\<lparr>dc_reader := snd (UnreadByte (dc_reader d))\<rparr>"

text \<open>A call whose error is ignored: only a panic stops the caller.\<close>

definition ignoring :: "'a outcome \<times> 's \<Rightarrow> ('s \<Rightarrow> 'b outcome \<times> 's) \<Rightarrow> 'b outcome \<times> 's" where
  "ignoring m f = otry m (\<lambda>_. f) (\<lambda>_. f)"

lemma ignoring_cong [fundef_cong]:
  assumes "m = m'" and "\<And>s. s = snd m' \<Longrightarrow> f s = g s"
  shows "ignoring m f = ignoring m' g"
  unfolding ignoring_def using assms by (intro otry_cong) auto

definition with_errval :: "dval \<Rightarrow> 'a outcome \<times> Decoder \<Rightarrow> 'a outcome \<times> Decoder" where
  "with_errval v m = (case m of (Err e, d) \<Rightarrow> (Err e, d\<lparr>dc_errval := v\<rparr>) | _ \<Rightarrow> m)"

lemma with_errval_fst [simp]: "fst (with_errval v m) = fst m"
  by (auto simp: with_errval_def split: prod.splits outcome.splits)

lemma with_errval_Ok [simp]: "with_errval v (Ok a, d) = (Ok a, d)"
  by (simp add: with_errval_def)

text \<open>\<^verbatim>\<open>x, err := m(); return f(x), err\<close>.\<close>

definition omap :: "('a \<Rightarrow> 'b) \<Rightarrow> 'a outcome \<times> 's \<Rightarrow> 'b outcome \<times> 's" where
  "omap f m = otry m raise (\<lambda>a s. (Ok (f a), s))"

section \<open>Maps with interface keys\<close>

text \<open>
  Assigning to a map with a slice or a map as its key panics. Keys are equal when their types and
  values are; a float equals itself only if it is no NaN, and two decoded objects or references
  are different values.
\<close>

definition hashable :: "dval \<Rightarrow> bool" where
  "hashable k = (case k of DBytes _ \<Rightarrow> False | DList _ \<Rightarrow> False | DMap _ \<Rightarrow> False | _ \<Rightarrow> True)"

definition key_eq :: "dval \<Rightarrow> dval \<Rightarrow> bool" where
  "key_eq a b = (case (a, b) of
     (DFloat x, DFloat y) \<Rightarrow> f64_eq x y
   | (DInst _ _, _) \<Rightarrow> False | (DRef _, _) \<Rightarrow> False
   | _ \<Rightarrow> a = b)"

fun map_put :: "dval \<Rightarrow> dval \<Rightarrow> (dval \<times> dval) list \<Rightarrow> (dval \<times> dval) list" where
  "map_put k v [] = [(k, v)]"
| "map_put k v ((k', v') # m) = (if key_eq k k' then (k, v) # m else (k', v') # map_put k v m)"

fun map_del :: "dval \<Rightarrow> (dval \<times> dval) list \<Rightarrow> (dval \<times> dval) list" where
  "map_del k [] = []"
| "map_del k ((k', v') # m) = (if key_eq k k' then m else (k', v') # map_del k m)"

section \<open>Types of decoded values\<close>

fun dtype :: "dval \<Rightarrow> gotype option" where
  "dtype DNil = None"
| "dtype (DBool _) = Some TBool"
| "dtype (DInt32 _) = Some TInt32"
| "dtype (DInt64 _) = Some TInt64"
| "dtype (DTime _) = Some TTime"
| "dtype (DFloat _) = Some TFloat64"
| "dtype (DString _) = Some TString"
| "dtype (DBytes _) = Some (TSlice TUint8)"
| "dtype (DList _) = Some (TSlice TInterface)"
| "dtype (DMap _) = Some (TMap TInterface TInterface)"
| "dtype (DInst _ _) = Some (TStruct (str ''reflect.Value''))"
| "dtype (DEnum _) = Some (TEnum (str ''hessian.JavaEnum'') TInt32)"
| "dtype (DRef _) = Some (TPtr TInterface)"

text \<open>\<^verbatim>\<open>reflect.Value.Set\<close> and \<^verbatim>\<open>SetMapIndex\<close> panic on a value that is not assignable.\<close>

definition assignable :: "dval \<Rightarrow> gotype \<Rightarrow> bool" where
  "assignable v t \<longleftrightarrow> v \<noteq> DNil \<and> (t = TInterface \<or> dtype v = Some t)"

fun kind_of :: "gotype \<Rightarrow> gotype" where
  "kind_of (TEnum n k) = k"
| "kind_of t = t"

text \<open>\<^verbatim>\<open>SetInt\<close> cuts the number to the width of the field.\<close>

definition fieldInt :: "gotype \<Rightarrow> int64 \<Rightarrow> dval" where
  "fieldInt k i = DInt64 (case k of
     TInt16 \<Rightarrow> scast (ucast i :: 16 word) | TInt32 \<Rightarrow> scast (ucast i :: int32) | _ \<Rightarrow> i)"

section \<open>Class definitions, types and references\<close>

fun decClassDef_fields :: "ext \<Rightarrow> nat \<Rightarrow> byte list list \<Rightarrow> rdr \<Rightarrow> byte list list outcome \<times> rdr" where
  "decClassDef_fields X 0 fl r = (Ok fl, r)"
| "decClassDef_fields X (Suc n) fl r =
     otry (decString X TAG_READ r)
       (\<lambda>e r. (ret [] (je_Annotatef X ''decClassDef->decString, filed num:%d, index:%d'' (Some e)), r))
       (\<lambda>f r. decClassDef_fields X n (fl @ [f]) r)"

definition decClassDef :: "ext \<Rightarrow> rdr \<Rightarrow> classInfo outcome \<times> rdr" where
  "decClassDef X r =
     otry (decString X TAG_READ r) (traced X classInfo0) (\<lambda>clsName r.
       otry (decInt32 X TAG_READ r) (traced X classInfo0) (\<lambda>fieldNum r.
         if sint fieldNum < 0 then (Panic, r)
         else otry (decClassDef_fields X (nat (sint fieldNum)) [] r) raise (\<lambda>fl r.
           (Ok \<lparr>javaName = clsName, fieldNameList = fl, buffer = []\<rparr>, r))))"

definition dec_getStructDefByIndex ::
  "POJORegistry \<Rightarrow> Decoder \<Rightarrow> int \<Rightarrow> (gotype \<times> classInfo) outcome" where
  "dec_getStructDefByIndex reg d idx =
     (if int (length (dc_classInfoList d)) \<le> idx \<or> idx < 0 then
        Err (Errorf ''illegal class index @idx %d'')
      else
        (let cls = dc_classInfoList d ! nat idx
         in case getStructInfo reg (javaName cls) of
              None \<Rightarrow> Err (Errorf ''can not find go type name %s in registry'')
            | Some s \<Rightarrow> Ok (si_typ s, cls)))"

definition decType :: "ext \<Rightarrow> POJORegistry \<Rightarrow> Decoder \<Rightarrow> byte list outcome \<times> Decoder" where
  "decType X reg d =
     otry (rdop (ReadFull 1) d) (traced X []) (\<lambda>buf d.
       let tag = buf ! 0 in
       if BC_STRING_DIRECT \<le> tag \<and> tag \<le> STRING_DIRECT_MAX \<or> 0x30 \<le> tag \<and> tag \<le> 0x33 \<or>
          tag = BC_STRING \<or> tag = BC_STRING_CHUNK then
         rdop (decString X (Some tag)) d
       else
         otry (rdop (decInt32 X TAG_READ) d) (traced X []) (\<lambda>idx d.
           (case dec_getStructDefByIndex reg d (sint idx) of
              Ok (typ, _) \<Rightarrow> (Ok (type_String typ), d)
            | Err e \<Rightarrow> (Err e, d) | Panic \<Rightarrow> (Panic, d) | NoFuel \<Rightarrow> (NoFuel, d))))"

definition decRef :: "ext \<Rightarrow> byte option \<Rightarrow> Decoder \<Rightarrow> dval outcome \<times> Decoder" where
  "decRef X flag d = (case readTag flag (dc_reader d) of (tag, r) \<Rightarrow>
     (let d = d\<lparr>dc_reader := r\<rparr> in
      if tag = BC_REF then
        otry (rdop (decInt32 X TAG_READ) d) raise (\<lambda>i d.
          if int (length (dc_refs d)) \<le> sint i then (Err ErrIllegalRefIndex, d)
          else if sint i < 0 then (Panic, d)
          else (Ok (DRef (nat (sint i))), d))
      else (Err (Errorf ''decRef illegal ref type tag:%+v''), d)))"

definition InvalidJavaEnum :: int32 where
  "InvalidJavaEnum = - 1"

definition decEnum ::
  "ext \<Rightarrow> tyenv \<Rightarrow> POJORegistry \<Rightarrow> byte list \<Rightarrow> Decoder \<Rightarrow> dval outcome \<times> Decoder" where
  "decEnum X E reg jn d = with_errval (DEnum InvalidJavaEnum)
     (otry (rdop (decString X TAG_READ) d)
       (\<lambda>e d. (ret (DEnum InvalidJavaEnum) (je_Annotatef X ''decString for decJavaEnum'' (Some e)), d))
       (\<lambda>enumName d.
         (case getStructInfo reg jn of
            None \<Rightarrow> (Err (Errorf ''getStructInfo(javaName:%s) = false''), d)
          | Some info \<Rightarrow>
              (let v = ty_EnumValue E (type_String (si_typ info)) enumName
               in (Ok (DEnum v), appendRefs (REnum v) d)))))"

definition findField :: "byte list \<Rightarrow> (byte list \<times> gotype) list \<Rightarrow> nat option" where
  "findField name fs =
     (case filter (\<lambda>i. fst (fs ! i) = name \<or> ToLower (fst (fs ! i)) = name) [0..<length fs] of
        [] \<Rightarrow> None | i # _ \<Rightarrow> Some i)"

section \<open>Lists and maps\<close>

text \<open>
  In this and the next section \<open>dec\<close> stands for \<^verbatim>\<open>d.Decode\<close> and \<open>obj\<close> for \<^verbatim>\<open>d.decObject\<close>, the two
  functions through which the recursion goes; they are tied together at the end.
\<close>

type_synonym decoding = "Decoder \<Rightarrow> dval outcome \<times> Decoder"

fun decItems :: "ext \<Rightarrow> decoding \<Rightarrow> nat \<Rightarrow> dval list \<Rightarrow> Decoder \<Rightarrow> dval list outcome \<times> Decoder" where
  "decItems X dec 0 arr d = (Ok arr, d)"
| "decItems X dec (Suc k) arr d =
     otry (dec d) (traced X []) (\<lambda>it d. decItems X dec k (arr @ [it]) d)"

text \<open>
  The common tail of the two list forms: \<^verbatim>\<open>make\<close> with the size, which panics when it is negative,
  the elements, and for the variable-length forms one more byte.
\<close>

definition decList_tail :: "ext \<Rightarrow> decoding \<Rightarrow> bool \<Rightarrow> int \<Rightarrow> Decoder \<Rightarrow> dval outcome \<times> Decoder" where
  "decList_tail X dec variable sz d =
     (if sz < 0 then (Panic, d)
      else otry (decItems X dec (nat sz) [] (appendRefs (RList (nat sz)) d)) raise (\<lambda>arr d.
        (Ok (DList arr), if variable then skipBufByte X d else d)))"

definition decList :: "ext \<Rightarrow> POJORegistry \<Rightarrow> decoding \<Rightarrow> byte option \<Rightarrow> Decoder \<Rightarrow> dval outcome \<times> Decoder" where
  "decList X reg dec flag d =
     otry (case flag of Some t \<Rightarrow> (Ok t, d) | None \<Rightarrow> rdop ReadByte d) (traced X DNil) (\<lambda>tag d.
       if BC_LIST_DIRECT \<le> tag \<and> tag \<le> 0x77 \<or> tag = BC_LIST_FIXED \<or> tag = BC_LIST_VARIABLE then
         ignoring (decType X reg d) (\<lambda>d.
           if BC_LIST_DIRECT \<le> tag \<and> tag \<le> 0x77 then
             decList_tail X dec False (uint (tag - BC_LIST_DIRECT)) d
           else otry (rdop (decInt32 X TAG_READ) d) (traced X DNil) (\<lambda>i32 d.
             decList_tail X dec (tag = BC_LIST_VARIABLE) (sint i32) d))
       else if BC_LIST_DIRECT_UNTYPED \<le> tag \<and> tag \<le> 0x7f \<or> tag = BC_LIST_FIXED_UNTYPED \<or>
               tag = BC_LIST_VARIABLE_UNTYPED then
         (if BC_LIST_DIRECT_UNTYPED \<le> tag \<and> tag \<le> 0x7f then
            decList_tail X dec False (uint (tag - BC_LIST_DIRECT_UNTYPED)) d
          else otry (rdop (decInt32 X TAG_READ) d) (traced X DNil) (\<lambda>i32 d.
            decList_tail X dec (tag = BC_LIST_VARIABLE_UNTYPED) (sint i32) d))
       else (Err (Errorf ''illegal list type tag:%+v''), d))"

text \<open>
  The loops of \<^verbatim>\<open>decMap\<close>: entries up to the byte \<open>stop\<close>, which is the lower-case 'z' in a typed map.
\<close>

fun decMap_entries ::
  "decoding \<Rightarrow> byte \<Rightarrow> nat \<Rightarrow> (dval \<times> dval) list \<Rightarrow> Decoder \<Rightarrow> dval outcome \<times> Decoder" where
  "decMap_entries dec stop 0 m d = (NoFuel, d)"
| "decMap_entries dec stop (Suc n) m d =
     otry (peekByte d) raise (\<lambda>b d.
       if b = stop then (Ok (DMap m), skipByte d)
       else otry (dec d) (\<lambda>e d. if e = EOF then (Ok (DMap m), skipByte d) else (Err e, d)) (\<lambda>k d.
         otry (dec d) raise (\<lambda>v d.
           if \<not> hashable k then (Panic, d) else decMap_entries dec stop n (map_put k v m) d)))"

text \<open>
  A typed map whose type is not registered: \<^verbatim>\<open>createInstance\<close> looks in the same table and gives nil, on
  which setting any value that is not nil panics.
\<close>

fun decMap_inst :: "decoding \<Rightarrow> nat \<Rightarrow> Decoder \<Rightarrow> dval outcome \<times> Decoder" where
  "decMap_inst dec 0 d = (NoFuel, d)"
| "decMap_inst dec (Suc n) d =
     otry (peekByte d) raise (\<lambda>b d.
       if b = 0x7a then (Ok DNil, d)
       else otry (dec d) raise (\<lambda>key d.
         otry (dec d) raise (\<lambda>value d.
           if value \<noteq> DNil then (Panic, d) else decMap_inst dec n d)))"

definition decMap ::
  "ext \<Rightarrow> POJORegistry \<Rightarrow> decoding \<Rightarrow> nat \<Rightarrow> byte option \<Rightarrow> Decoder \<Rightarrow> dval outcome \<times> Decoder" where
  "decMap X reg dec n flag d = (case readTag flag (dc_reader d) of (tag, r) \<Rightarrow>
     (let d = d\<lparr>dc_reader := r\<rparr> in
      if tag = BC_MAP then
        otry (decType X reg d) raise (\<lambda>t d.
          if snd (checkPOJORegistry reg t) then decMap_entries dec 0x7a n [] (appendRefs RMap d)
          else decMap_inst dec n (appendRefs RNil d))
      else if tag = BC_MAP_UNTYPED then decMap_entries dec BC_END n [] (appendRefs RMap d)
      else (Err (Errorf ''illegal map type tag:%+v''), d)))"

fun decMapByValue_entries ::
  "ext \<Rightarrow> decoding \<Rightarrow> gotype \<Rightarrow> gotype \<Rightarrow> nat \<Rightarrow> (dval \<times> dval) list \<Rightarrow> Decoder
   \<Rightarrow> (dval \<times> dval) list outcome \<times> Decoder" where
  "decMapByValue_entries X dec kt vt 0 m d = (NoFuel, d)"
| "decMapByValue_entries X dec kt vt (Suc n) m d =
     otry (dec d) (\<lambda>e d. if e = EOF then (Ok m, d) else traced X [] e d) (\<lambda>key d.
       if key = DNil then (Ok m, d)
       else (let put = (\<lambda>vl d.
               if \<not> assignable key kt \<or> \<not> hashable key then (Panic, d)
               else if vl = DNil then decMapByValue_entries X dec kt vt n (map_del key m) d
               else if \<not> assignable vl vt then (Panic, d)
               else decMapByValue_entries X dec kt vt n (map_put key vl m) d)
             in otry (dec d) (\<lambda>_ d. put (dc_errval d) d) put))"

definition decMapByValue ::
  "ext \<Rightarrow> decoding \<Rightarrow> nat \<Rightarrow> gotype \<Rightarrow> gotype \<Rightarrow> Decoder \<Rightarrow> (dval \<times> dval) list outcome \<times> Decoder" where
  "decMapByValue X dec n kt vt d = (case readBufTag X (dc_reader d) of (tag, r) \<Rightarrow>
     (let d = d\<lparr>dc_reader := r\<rparr> in
      if tag = BC_MAP then
        ignoring (rdop (decString X TAG_READ) d) (decMapByValue_entries X dec kt vt n [])
      else if tag = BC_MAP_UNTYPED then decMapByValue_entries X dec kt vt n [] d
      else (Err (Errorf ''wrong header BC_MAP_UNTYPED''), d)))"

section \<open>Objects\<close>

text \<open>
  What reading one field of \<^verbatim>\<open>decInstance\<close> ends in: a value to set, nothing to set, or the early
  return of a nil instance with the error \<^verbatim>\<open>jerrors.Trace(err)\<close> of the outer, nil, \<^verbatim>\<open>err\<close>.
\<close>

datatype fieldres = FSet dval | FKeep | FReturn "goerr option"

text \<open>An integer field; one of an enum type is read again as a value when it is no integer.\<close>

definition decIntField ::
  "ext \<Rightarrow> decoding \<Rightarrow> gotype \<Rightarrow> string \<Rightarrow> (Decoder \<Rightarrow> int64 outcome \<times> Decoder) \<Rightarrow> Decoder
   \<Rightarrow> fieldres outcome \<times> Decoder" where
  "decIntField X dec t msg readInt d =
     otry (readInt d)
       (\<lambda>e d.
         if implements_enum t then
           otry (dec (unreadByte d))
             (\<lambda>e d. (ret FKeep (je_Annotatef X ''decInstance->decObject field name:%s'' (Some e)), d))
             (\<lambda>s d. (Ok (FSet (fieldInt (kind_of t) (case s of DEnum v \<Rightarrow> scast v | _ \<Rightarrow> 0))), d))
         else (ret FKeep (je_Annotatef X msg (Some e)), d))
       (\<lambda>num d. (Ok (FSet (fieldInt (kind_of t) num)), d))"

definition decField ::
  "ext \<Rightarrow> POJORegistry \<Rightarrow> decoding \<Rightarrow> (byte option \<Rightarrow> decoding) \<Rightarrow> nat \<Rightarrow> gotype \<Rightarrow> Decoder
   \<Rightarrow> fieldres outcome \<times> Decoder" where
  "decField X reg dec obj n t d = (case kind_of t of
     TString \<Rightarrow>
       otry (rdop (decString X TAG_READ) d)
         (\<lambda>e d. (ret FKeep (je_Annotatef X ''decInstance->ReadString: %s'' (Some e)), d))
         (\<lambda>s d. (Ok (FSet (DString s)), d))
   | TInt32 \<Rightarrow> decIntField X dec t ''decInstance->ParseInt, field name:%s'' (\<lambda>d. omap scast (rdop (decInt32 X TAG_READ) d)) d
   | TInt16 \<Rightarrow> decIntField X dec t ''decInstance->ParseInt, field name:%s'' (\<lambda>d. omap scast (rdop (decInt32 X TAG_READ) d)) d
   | TInt \<Rightarrow> decIntField X dec t ''decInstance->decInt64 field name:%s'' (rdop (decInt64 X TAG_READ)) d
   | TInt64 \<Rightarrow> decIntField X dec t ''decInstance->decInt64 field name:%s'' (rdop (decInt64 X TAG_READ)) d
   | TUint64 \<Rightarrow>
       otry (decIntField X dec t ''decInstance->decInt64 field name:%s'' (rdop (decInt64 X TAG_READ)) d) raise
         (\<lambda>res d. case res of FSet _ \<Rightarrow> (Panic, d) | _ \<Rightarrow> (Ok res, d))
   | TBool \<Rightarrow>
       otry (dec d)
         (\<lambda>e d. (ret FKeep (je_Annotatef X ''decInstance->Decode field name:%s'' (Some e)), d))
         (\<lambda>b d. case b of DBool _ \<Rightarrow> (Ok (FSet b), d) | _ \<Rightarrow> (Panic, d))
   | TFloat32 \<Rightarrow>
       otry (rdop (decDouble X TAG_READ) d)
         (\<lambda>e d. (ret FKeep (je_Annotatef X ''decInstance->decDouble field name:%s'' (Some e)), d))
         (\<lambda>f d. case f of NFloat v \<Rightarrow> (Ok (FSet (DFloat (f64_of_f32 (f32_of_f64 v)))), d) | NInt32 _ \<Rightarrow> (Panic, d))
   | TFloat64 \<Rightarrow>
       otry (rdop (decDouble X TAG_READ) d)
         (\<lambda>e d. (ret FKeep (je_Annotatef X ''decInstance->decDouble field name:%s'' (Some e)), d))
         (\<lambda>f d. case f of NFloat v \<Rightarrow> (Ok (FSet (DFloat v)), d) | NInt32 _ \<Rightarrow> (Panic, d))
   | TMap kt vt \<Rightarrow>
       otry (decMapByValue X dec n kt vt d) (\<lambda>_ d. (Ok FKeep, d)) (\<lambda>m d. (Ok (FSet (DMap m)), d))
   | TSlice et \<Rightarrow>
       otry (decList X reg dec TAG_READ d) (\<lambda>_ d. (Ok (FReturn (je_Trace X None)), d)) (\<lambda>m d. case m of
           DList vs \<Rightarrow>
             if vs = [] then (Ok FKeep, d)
             else if \<forall>v \<in> set vs. assignable v et then (Ok (FSet (DList vs)), d)
             else (Panic, d)
         | _ \<Rightarrow> (Panic, d))
   | TArray k et \<Rightarrow>
       otry (decList X reg dec TAG_READ d) (\<lambda>_ d. (Ok (FReturn (je_Trace X None)), d)) (\<lambda>m d. case m of
           DList vs \<Rightarrow> if vs = [] then (Ok FKeep, d) else (Panic, d)
         | _ \<Rightarrow> (Panic, d))
   | TTime \<Rightarrow> otry (rdop (decDate X TAG_READ) d) (traced X FKeep) (\<lambda>s d. (Ok (FSet (DTime s)), d))
   | TStruct fn \<Rightarrow>
       otry (obj TAG_READ d) (traced X FKeep) (\<lambda>s d. case s of
           DNil \<Rightarrow> (Ok FKeep, d)
         | DInst n' vs \<Rightarrow> if n' = fn then (Ok (FSet s), d) else (Panic, d)
         | _ \<Rightarrow> (Panic, d))
   | _ \<Rightarrow> (Err (Errorf ''unknown struct member type:%d''), d))"

text \<open>The fields named by the class definition, in its order; one the struct lacks is skipped.\<close>

fun decInstance_fields ::
  "ext \<Rightarrow> POJORegistry \<Rightarrow> decoding \<Rightarrow> (byte option \<Rightarrow> decoding) \<Rightarrow> nat \<Rightarrow> byte list
   \<Rightarrow> (byte list \<times> gotype) list \<Rightarrow> byte list list \<Rightarrow> dval option list \<Rightarrow> Decoder
   \<Rightarrow> dval outcome \<times> Decoder" where
  "decInstance_fields X reg dec obj n tn fs [] vs d = (Ok (DInst tn vs), d)"
| "decInstance_fields X reg dec obj n tn fs (name # names) vs d =
     (case findField name fs of
        None \<Rightarrow> decInstance_fields X reg dec obj n tn fs names vs d
      | Some i \<Rightarrow>
          if \<not> exported (fst (fs ! i)) then (Err (Errorf ''decInstance CanSet false for field %s''), d)
          else otry (decField X reg dec obj n (snd (fs ! i)) d) raise (\<lambda>res d. case res of
              FSet v \<Rightarrow> decInstance_fields X reg dec obj n tn fs names (vs[i := Some v]) d
            | FKeep \<Rightarrow> decInstance_fields X reg dec obj n tn fs names vs d
            | FReturn err \<Rightarrow> (ret DNil err, d)))"

definition decInstance ::
  "ext \<Rightarrow> tyenv \<Rightarrow> POJORegistry \<Rightarrow> decoding \<Rightarrow> (byte option \<Rightarrow> decoding) \<Rightarrow> nat \<Rightarrow> gotype \<Rightarrow> classInfo
   \<Rightarrow> Decoder \<Rightarrow> dval outcome \<times> Decoder" where
  "decInstance X E reg dec obj n typ cls d = (case typ of
     TStruct tn \<Rightarrow>
       (let fs = ty_fields E tn
        in decInstance_fields X reg dec obj n tn fs (fieldNameList cls) (map (\<lambda>_. None) fs)
             (appendRefs (RInst tn) d))
   | _ \<Rightarrow> (Err (Errorf ''wrong type expect Struct but get:%s''), d))"

definition decObject_at ::
  "ext \<Rightarrow> tyenv \<Rightarrow> POJORegistry \<Rightarrow> decoding \<Rightarrow> (byte option \<Rightarrow> decoding) \<Rightarrow> nat \<Rightarrow> int \<Rightarrow> Decoder
   \<Rightarrow> dval outcome \<times> Decoder" where
  "decObject_at X E reg dec obj n idx d = (case dec_getStructDefByIndex reg d idx of
     Ok (typ, cls) \<Rightarrow>
       if implements_enum typ then decEnum X E reg (javaName cls) d
       else with_errval DNil (decInstance X E reg dec obj n typ cls d)
   | Err e \<Rightarrow> with_errval DNil (Err e, d) | Panic \<Rightarrow> (Panic, d) | NoFuel \<Rightarrow> (NoFuel, d))"

definition decObject_body ::
  "ext \<Rightarrow> tyenv \<Rightarrow> POJORegistry \<Rightarrow> decoding \<Rightarrow> (byte option \<Rightarrow> decoding) \<Rightarrow> nat \<Rightarrow> byte option \<Rightarrow> Decoder
   \<Rightarrow> dval outcome \<times> Decoder" where
  "decObject_body X E reg dec obj n flag d = (case readTag flag (dc_reader d) of (tag, r) \<Rightarrow>
     (let d = d\<lparr>dc_reader := r\<rparr> in
      if tag = BC_OBJECT_DEF then
        otry (rdop (decClassDef X) d)
          (\<lambda>e d. with_errval DNil (ret DNil (je_Annotatef X ''decObject->decClassDef byte double'' (Some e)), d))
          (\<lambda>cls d. dec (appendClsDef cls d))
      else if tag = BC_OBJECT then
        otry (rdop (decInt32 X TAG_READ) d) (\<lambda>e d. with_errval DNil (Err e, d)) (\<lambda>idx d. decObject_at X E reg dec obj n (sint idx) d)
      else if BC_OBJECT_DIRECT \<le> tag \<and> tag \<le> BC_OBJECT_DIRECT + OBJECT_DIRECT_MAX then
        decObject_at X E reg dec obj n (uint (tag - BC_OBJECT_DIRECT)) d
      else with_errval DNil (Err (Errorf ''decObject illegal object type tag:%+v''), d)))"

section \<open>Decode\<close>

text \<open>\<^verbatim>\<open>time.Time{}\<close>, the first instant of year 1.\<close>

definition zeroTime :: int where
  "zeroTime = - 62135596800 * 10 ^ 9"

definition num_val :: "num \<Rightarrow> dval" where
  "num_val f = (case f of NInt32 i \<Rightarrow> DInt32 i | NFloat v \<Rightarrow> DFloat v)"

text \<open>The conditions of the switch of \<^verbatim>\<open>Decode\<close>, in its order.\<close>

definition int_tag :: "byte \<Rightarrow> bool" where
  "int_tag tag \<longleftrightarrow> 0x80 \<le> tag \<and> tag \<le> 0xbf \<or> 0xc0 \<le> tag \<and> tag \<le> 0xcf \<or>
     0xd0 \<le> tag \<and> tag \<le> 0xd7 \<or> tag = BC_INT"

definition long_tag :: "byte \<Rightarrow> bool" where
  "long_tag tag \<longleftrightarrow> 0xd8 \<le> tag \<and> tag \<le> 0xef \<or> 0xf0 \<le> tag \<and> tag \<le> 0xff \<or>
     0x38 \<le> tag \<and> tag \<le> 0x3f \<or> tag = BC_LONG_INT \<or> tag = BC_LONG"

definition date_tag :: "byte \<Rightarrow> bool" where
  "date_tag tag \<longleftrightarrow> tag = BC_DATE_MINUTE \<or> tag = BC_DATE"

definition double_tag :: "byte \<Rightarrow> bool" where
  "double_tag tag \<longleftrightarrow> tag = BC_DOUBLE_ZERO \<or> tag = BC_DOUBLE_ONE \<or> tag = BC_DOUBLE_BYTE \<or>
     tag = BC_DOUBLE_SHORT \<or> tag = BC_DOUBLE_MILL \<or> tag = BC_DOUBLE"

definition string_tag :: "byte \<Rightarrow> bool" where
  "string_tag tag \<longleftrightarrow> tag = BC_STRING_CHUNK \<or> tag = BC_STRING \<or>
     BC_STRING_DIRECT \<le> tag \<and> tag \<le> STRING_DIRECT_MAX \<or> 0x30 \<le> tag \<and> tag \<le> 0x33"

definition binary_tag :: "byte \<Rightarrow> bool" where
  "binary_tag tag \<longleftrightarrow> tag = BC_BINARY \<or> tag = BC_BINARY_CHUNK \<or> 0x20 \<le> tag \<and> tag \<le> 0x2f \<or>
     BC_BINARY_SHORT \<le> tag \<and> tag \<le> 0x3f"

definition list_tag :: "byte \<Rightarrow> bool" where
  "list_tag tag \<longleftrightarrow> BC_LIST_DIRECT \<le> tag \<and> tag \<le> 0x77 \<or> tag = BC_LIST_FIXED \<or> tag = BC_LIST_VARIABLE \<or>
     BC_LIST_DIRECT_UNTYPED \<le> tag \<and> tag \<le> 0x7f \<or>
     tag = BC_LIST_FIXED_UNTYPED \<or> tag = BC_LIST_VARIABLE_UNTYPED"

definition object_tag :: "byte \<Rightarrow> bool" where
  "object_tag tag \<longleftrightarrow> tag = BC_OBJECT_DEF \<or> tag = BC_OBJECT \<or>
     BC_OBJECT_DIRECT \<le> tag \<and> tag \<le> BC_OBJECT_DIRECT + OBJECT_DIRECT_MAX"

lemmas tag_defs = int_tag_def long_tag_def date_tag_def double_tag_def string_tag_def binary_tag_def
  list_tag_def object_tag_def

text \<open>The switch of \<^verbatim>\<open>Decode\<close> on the tag it has read.\<close>

definition Decode_tag ::
  "ext \<Rightarrow> POJORegistry \<Rightarrow> decoding \<Rightarrow> (byte option \<Rightarrow> decoding) \<Rightarrow> nat \<Rightarrow> byte \<Rightarrow> Decoder
   \<Rightarrow> dval outcome \<times> Decoder" where
  "Decode_tag X reg dec obj n tag d =
     (if tag = BC_END then (Ok DNil, d)
      else if tag = BC_NULL then (Ok DNil, d)
      else if tag = BC_TRUE then (Ok (DBool True), d)
      else if tag = BC_FALSE then (Ok (DBool False), d)
      else if int_tag tag then with_errval (DInt32 0) (omap DInt32 (rdop (decInt32 X (Some tag)) d))
      else if long_tag tag then with_errval (DInt64 0) (omap DInt64 (rdop (decInt64 X (Some tag)) d))
      else if date_tag tag then with_errval (DTime zeroTime) (omap DTime (rdop (decDate X (Some tag)) d))
      else if double_tag tag then with_errval DNil (omap num_val (rdop (decDouble X (Some tag)) d))
      else if string_tag tag then with_errval (DString []) (omap DString (rdop (decString X (Some tag)) d))
      else if binary_tag tag then with_errval (DBytes None) (omap DBytes (rdop (decBinary X (Some tag)) d))
      else if list_tag tag then with_errval DNil (decList X reg dec (Some tag) d)
      else if tag = BC_MAP \<or> tag = BC_MAP_UNTYPED then with_errval DNil (decMap X reg dec n (Some tag) d)
      else if object_tag tag then obj (Some tag) d
      else if tag = BC_REF then with_errval DNil (decRef X (Some tag) d)
      else with_errval DNil (Err (Errorf ''Invalid type: %v,>>%v<<<''), peekAll d))"

definition Decode_body ::
  "ext \<Rightarrow> POJORegistry \<Rightarrow> decoding \<Rightarrow> (byte option \<Rightarrow> decoding) \<Rightarrow> nat \<Rightarrow> Decoder \<Rightarrow> dval outcome \<times> Decoder" where
  "Decode_body X reg dec obj n d = (case rdop ReadByte d of
     (Ok tag, d) \<Rightarrow> Decode_tag X reg dec obj n tag d
   | (Err e, d) \<Rightarrow> if e = EOF then (Err EOF, d\<lparr>dc_errval := DNil\<rparr>) else Decode_tag X reg dec obj n 0 d
   | (Panic, d) \<Rightarrow> (Panic, d) | (NoFuel, d) \<Rightarrow> (NoFuel, d))"

fun Decode :: "ext \<Rightarrow> tyenv \<Rightarrow> POJORegistry \<Rightarrow> nat \<Rightarrow> Decoder \<Rightarrow> dval outcome \<times> Decoder"
  and decObject :: "ext \<Rightarrow> tyenv \<Rightarrow> POJORegistry \<Rightarrow> nat \<Rightarrow> byte option \<Rightarrow> Decoder \<Rightarrow> dval outcome \<times> Decoder" where
  "Decode X E reg 0 d = (NoFuel, d)"
| "Decode X E reg (Suc n) d = Decode_body X reg (Decode X E reg n) (decObject X E reg n) n d"
| "decObject X E reg 0 flag d = (NoFuel, d)"
| "decObject X E reg (Suc n) flag d =
     decObject_body X E reg (Decode X E reg n) (decObject X E reg n) n flag d"

declare Decode.simps [simp del] decObject.simps [simp del]

section \<open>A recursion without end\<close>

text \<open>
  An object whose first field is an enum, with nothing after its tag: reading the number of the
  field fails at the end of the input, the byte that is put back is the tag of the object itself,
  and decoding the enum reads the object again.
\<close>

lemma reread_tag:
  assumes "content (dc_reader d) = []" "rd_last (dc_reader d) = Some b"
  shows "\<exists>e d'. rdop (decInt32 X TAG_READ) d = (Err e, d') \<and> content (dc_reader (unreadByte d')) = [b] \<and>
    dc_classInfoList (unreadByte d') = dc_classInfoList d"
proof -
  have "decInt32 X TAG_READ (dc_reader d) = (Err (Errorf ''decInt32 integer wrong tag:%#x''), fill (dc_reader d))"
    using ReadByte_Nil [OF assms(1)] by (simp add: decInt32_def readTag_def)
  then show ?thesis using UnreadByte_at_end [OF assms] by (auto simp: rdop_def unreadByte_def)
qed

lemma struct_def_classes:
  "dc_classInfoList d' = dc_classInfoList d \<Longrightarrow> dec_getStructDefByIndex reg d' i = dec_getStructDefByIndex reg d i"
  by (simp only: dec_getStructDefByIndex_def)

lemma Decode_object_tag:
  assumes "content (dc_reader d) = [0x60]"
  obtains d' where "Decode X E reg (Suc n) d = decObject X E reg n (Some 0x60) d'" "content (dc_reader d') = []"
    "rd_last (dc_reader d') = Some 0x60" "dc_classInfoList d' = dc_classInfoList d"
proof -
  obtain r where r: "ReadByte (dc_reader d) = (Ok 0x60, r)" "content r = []" "rd_last r = Some 0x60"
    using ReadByte_Cons [OF assms] by blast
  have "Decode X E reg (Suc n) d = decObject X E reg n (Some 0x60) (d\<lparr>dc_reader := r\<rparr>)"
    by (simp add: Decode.simps Decode_body_def rdop_def r(1) Decode_tag_def tag_defs)
  then show thesis using that r by simp
qed

text \<open>
  C29: A truncated object makes the decoder recurse for ever: if the input ends after the tag of an
  object whose first field is an enum, decoding it runs out of any amount of fuel, which in Go is an
  overflow of the stack that ends the process.
\<close>

theorem decode_never_ends:
  assumes "content (dc_reader d) = [BC_OBJECT_DIRECT]" and "dec_getStructDefByIndex reg d 0 = Ok (TStruct tn, cls)"
    and "fieldNameList cls = name # names" and "findField name (ty_fields E tn) = Some i"
    and "exported (fst (ty_fields E tn ! i))" and "snd (ty_fields E tn ! i) = TEnum en TInt32"
  shows "fst (Decode X E reg n d) = NoFuel"
  using assms(1,2)
proof (induction n arbitrary: d rule: less_induct)
  case (less n)
  show ?case
  proof (cases n)
    case (Suc m)
    obtain d1 where d1: "Decode X E reg (Suc m) d = decObject X E reg m (Some 0x60) d1" "content (dc_reader d1) = []"
      "rd_last (dc_reader d1) = Some 0x60" "dc_classInfoList d1 = dc_classInfoList d"
      by (rule Decode_object_tag [OF less.prems(1)])
    show ?thesis
    proof (cases m)
      case (Suc k)
      let ?d2 = "appendRefs (RInst tn) d1"
      obtain e d3 where d3: "rdop (decInt32 X TAG_READ) ?d2 = (Err e, d3)" "content (dc_reader (unreadByte d3)) = [0x60]"
        "dc_classInfoList (unreadByte d3) = dc_classInfoList d"
        using reread_tag [of ?d2 "0x60" X] d1 by (auto simp: appendRefs_def)
      have g: "dec_getStructDefByIndex reg d1 0 = Ok (TStruct tn, cls)"
        "dec_getStructDefByIndex reg (unreadByte d3) 0 = Ok (TStruct tn, cls)"
        using less.prems(2) struct_def_classes [OF d1(4)] struct_def_classes [OF d3(3)] by simp_all
      have "fst (Decode X E reg k (unreadByte d3)) = NoFuel"
        by (rule less.IH) (use Suc \<open>n = Suc m\<close> d3(2) g(2) in simp_all)
      then obtain d4 where d4: "Decode X E reg k (unreadByte d3) = (NoFuel, d4)"
        by (cases "Decode X E reg k (unreadByte d3)") auto
      have "decField X reg (Decode X E reg k) (decObject X E reg k) k (TEnum en TInt32) ?d2 = (NoFuel, d4)"
        by (simp add: decField_def decIntField_def omap_def d3(1) d4)
      then have "fst (decObject X E reg m (Some 0x60) d1) = NoFuel"
        unfolding Suc decObject.simps
        by (simp add: decObject_body_def readTag_def decObject_at_def g decInstance_def assms(3-6) Let_def)
      then show ?thesis using d1(1) \<open>n = Suc m\<close> by simp
    qed (use d1(1) \<open>n = Suc m\<close> in \<open>simp add: decObject.simps\<close>)
  qed (simp add: Decode.simps)
qed

theorem decode_never_ends_witness:
  "\<forall>n. fst (Decode ext0 \<lparr>ty_fields = (\<lambda>_. [([0x41], TEnum [0x45] TInt32)]), ty_EnumValue = (\<lambda>_ _. 0)\<rparr>
     (pojoRegistry0\<lparr>pr_j2g := [[1] \<mapsto> [2]], pr_registry := [[2] \<mapsto> \<lparr>si_typ = TStruct [2], si_goName = [2], si_javaName = [1], si_index = 0\<rparr>]\<rparr>) n
     ((NewDecoder [0x60])\<lparr>dc_classInfoList := [\<lparr>javaName = [1], fieldNameList = [[0x41]], buffer = []\<rparr>]\<rparr>)) = NoFuel"
  by (intro allI decode_never_ends [where tn = "[2]" and cls = "\<lparr>javaName = [1], fieldNameList = [[0x41]], buffer = []\<rparr>"
        and name = "[0x41]" and names = "[]" and i = 0 and en = "[0x45]"])
    (simp_all add: NewDecoder_def dec_getStructDefByIndex_def getStructInfo_def findField_def exported_def)

end
