(* ===== verification/Hessian_Roundtrip.thy ===== *)
theory Hessian_Roundtrip
  imports Hessian_Decode
begin

text \<open>
  Encoding and decoding of composite values agree: the decoder, run on what \<^verbatim>\<open>Encode\<close> has written
  for a value built from scalars, lists and maps, consumes exactly those bytes and returns the
  value as the scalar codecs give it back. \<open>reads\<close> is \<open>takes\<close> for functions of the decoder.
\<close>

section \<open>Exact consumption by the decoder\<close>

definition reads :: "(Decoder \<Rightarrow> 'a outcome \<times> Decoder) \<Rightarrow> byte list \<Rightarrow> 'a \<Rightarrow> bool" where
  "reads p bs v \<longleftrightarrow> (\<forall>d rest. content (dc_reader d) = bs @ rest \<and> rdr_ok (dc_reader d) \<longrightarrow>
     (\<exists>d'. p d = (Ok v, d') \<and> content (dc_reader d') = rest \<and> rdr_ok (dc_reader d') \<and>
        dc_classInfoList d' = dc_classInfoList d))"

lemma readsI:
  assumes "\<And>d rest. content (dc_reader d) = bs @ rest \<Longrightarrow> rdr_ok (dc_reader d) \<Longrightarrow>
     \<exists>d'. p d = (Ok v, d') \<and> content (dc_reader d') = rest \<and> rdr_ok (dc_reader d') \<and>
        dc_classInfoList d' = dc_classInfoList d"
  shows "reads p bs v"
  using assms by (simp add: reads_def)

lemma readsE:
  assumes "reads p bs v" "content (dc_reader d) = bs @ rest" "rdr_ok (dc_reader d)"
  obtains d' where "p d = (Ok v, d')" "content (dc_reader d') = rest" "rdr_ok (dc_reader d')"
    "dc_classInfoList d' = dc_classInfoList d"
  using assms by (auto simp: reads_def)

lemma reads_return: "reads (\<lambda>d. (Ok v, d)) [] v"
  by (rule readsI) auto

lemma reads_otry:
  assumes "reads p as a" "reads (f a) bs b"
  shows "reads (\<lambda>d. otry (p d) h f) (as @ bs) b"
proof (rule readsI)
  fix d :: Decoder and rest assume c: "content (dc_reader d) = (as @ bs) @ rest" "rdr_ok (dc_reader d)"
  then have "content (dc_reader d) = as @ (bs @ rest)" by simp
  from readsE [OF assms(1) this c(2)] obtain d1 where
    d1: "p d = (Ok a, d1)" "content (dc_reader d1) = bs @ rest" "rdr_ok (dc_reader d1)"
      "dc_classInfoList d1 = dc_classInfoList d" .
  from readsE [OF assms(2) d1(2,3)] d1(1,4)
  show "\<exists>d'. otry (p d) h f = (Ok b, d') \<and> content (dc_reader d') = rest \<and> rdr_ok (dc_reader d') \<and>
      dc_classInfoList d' = dc_classInfoList d" by (metis otry_simps(1))
qed

lemma reads_rdop: "takes p bs v \<Longrightarrow> reads (rdop p) bs v"
  by (rule readsI) (auto simp: rdop_def elim!: takesE)

lemma reads_omap: "reads p bs v \<Longrightarrow> reads (\<lambda>d. omap f (p d)) bs (f v)"
  using reads_otry [of p bs v "\<lambda>a d. (Ok (f a), d)" "[]" "f v" raise] reads_return [of "f v"]
  by (simp add: omap_def)

lemma reads_errval: "reads p bs v \<Longrightarrow> reads (\<lambda>d. with_errval z (p d)) bs v"
  by (rule readsI) (metis readsE with_errval_Ok)

lemma reads_scalar: "takes p bs v \<Longrightarrow> reads (\<lambda>d. with_errval z (omap f (rdop p d))) bs (f v)"
  by (intro reads_errval reads_omap reads_rdop)

lemma reads_appendRefs: "reads p bs v \<Longrightarrow> reads (\<lambda>d. p (appendRefs x d)) bs v"
  by (rule readsI) (erule readsE [of p bs v "appendRefs x _"], auto simp: appendRefs_def)

lemma reads_Decode:
  assumes "reads (Decode_tag X reg (Decode X E reg n) (decObject X E reg n) n t) bs v"
  shows "reads (Decode X E reg (Suc n)) (t # bs) v"
proof (rule readsI)
  fix d :: Decoder and rest assume c: "content (dc_reader d) = (t # bs) @ rest" "rdr_ok (dc_reader d)"
  have "reads (rdop ReadByte) [t] t" by (rule reads_rdop) (rule takes_ReadByte)
  from readsE [OF this, of d "bs @ rest"] c obtain d1 where
    d1: "rdop ReadByte d = (Ok t, d1)" "content (dc_reader d1) = bs @ rest" "rdr_ok (dc_reader d1)"
      "dc_classInfoList d1 = dc_classInfoList d" by auto
  from readsE [OF assms d1(2,3)] obtain d2 where
    "Decode_tag X reg (Decode X E reg n) (decObject X E reg n) n t d1 = (Ok v, d2)"
    "content (dc_reader d2) = rest" "rdr_ok (dc_reader d2)" "dc_classInfoList d2 = dc_classInfoList d1" .
  with d1(1,4) show "\<exists>d'. Decode X E reg (Suc n) d = (Ok v, d') \<and> content (dc_reader d') = rest \<and>
      rdr_ok (dc_reader d') \<and> dc_classInfoList d' = dc_classInfoList d"
    by (auto simp: Decode.simps Decode_body_def)
qed

section \<open>The branch of a tag\<close>

lemma int_tagI: "0x80 \<le> t \<and> t \<le> 0xd7 \<or> t = BC_INT \<Longrightarrow> int_tag t \<and> t \<notin> {0x5a, 0x4e, 0x54, 0x46}"
  by (auto simp: tag_defs byte_le_uint)

lemma long_tagI:
  "0xd8 \<le> t \<or> 0x38 \<le> t \<and> t \<le> 0x3f \<or> t = BC_LONG \<Longrightarrow>
   long_tag t \<and> \<not> int_tag t \<and> t \<notin> {0x5a, 0x4e, 0x54, 0x46}"
  using uint_lt2p [of t] by (auto simp: tag_defs byte_le_uint)

lemma string_tagI:
  "t \<le> 0x1f \<or> 0x30 \<le> t \<and> t \<le> 0x33 \<or> t = BC_STRING \<or> t = BC_STRING_CHUNK \<Longrightarrow>
   string_tag t \<and> \<not> int_tag t \<and> \<not> long_tag t \<and> \<not> date_tag t \<and> \<not> double_tag t \<and> t \<notin> {0x5a, 0x4e, 0x54, 0x46}"
  by (auto simp: tag_defs byte_le_uint)

lemma binary_tagI:
  "0x20 \<le> t \<and> t \<le> 0x2f \<or> 0x34 \<le> t \<and> t \<le> 0x37 \<or> t = BC_BINARY \<or> t = BC_BINARY_CHUNK \<Longrightarrow>
   binary_tag t \<and> \<not> int_tag t \<and> \<not> long_tag t \<and> \<not> date_tag t \<and> \<not> double_tag t \<and> \<not> string_tag t \<and>
   t \<notin> {0x5a, 0x4e, 0x54, 0x46}"
  by (auto simp: tag_defs byte_le_uint)

lemma double_tagI:
  "t \<in> {BC_DOUBLE_ZERO, BC_DOUBLE_ONE, BC_DOUBLE_BYTE, BC_DOUBLE} \<Longrightarrow>
   double_tag t \<and> \<not> int_tag t \<and> \<not> long_tag t \<and> \<not> date_tag t \<and> t \<notin> {0x5a, 0x4e, 0x54, 0x46}"
  by (auto simp: tag_defs byte_le_uint)

lemma tag_facts:
  "list_tag BC_LIST_FIXED_UNTYPED"
  "\<not> int_tag BC_LIST_FIXED_UNTYPED" "\<not> long_tag BC_LIST_FIXED_UNTYPED" "\<not> date_tag BC_LIST_FIXED_UNTYPED"
  "\<not> double_tag BC_LIST_FIXED_UNTYPED" "\<not> string_tag BC_LIST_FIXED_UNTYPED" "\<not> binary_tag BC_LIST_FIXED_UNTYPED"
  "\<not> int_tag BC_MAP_UNTYPED" "\<not> long_tag BC_MAP_UNTYPED" "\<not> date_tag BC_MAP_UNTYPED"
  "\<not> double_tag BC_MAP_UNTYPED" "\<not> string_tag BC_MAP_UNTYPED" "\<not> binary_tag BC_MAP_UNTYPED"
  "\<not> list_tag BC_MAP_UNTYPED"
  by (simp_all add: tag_defs)

lemma Decode_tag_list:
  "Decode_tag X reg dec obj n BC_LIST_FIXED_UNTYPED d =
     with_errval DNil (decList X reg dec (Some BC_LIST_FIXED_UNTYPED) d)"
  "Decode_tag X reg dec obj n BC_MAP_UNTYPED d = with_errval DNil (decMap X reg dec n (Some BC_MAP_UNTYPED) d)"
  unfolding Decode_tag_def by (simp_all add: tag_facts)

section \<open>Values that come reread\<close>

text \<open>
  \<open>plain v\<close>: a value without structs, dates and empty maps whose doubles keep their length on the
  wire and whose map keys can be keys again; \<open>reread v\<close>: what reading it reread yields.
\<close>

definition float_ok :: "f64 \<Rightarrow> bool" where
  "float_ok v = (let i = int64_of_f64 v in
     f64_eq (f64_of_int i) v \<longrightarrow> i < - 0x8000 \<or> 0x8000 \<le> i \<or> - 0x80 \<le> i \<and> i < 0x80)"

definition float_back :: "f64 \<Rightarrow> f64" where
  "float_back v = (let i = int64_of_f64 v in
     if f64_eq (f64_of_int i) v \<and> - 0x80 \<le> i \<and> i < 0x80 then f64_of_int (if i < 0 then i + 0x100 else i) else v)"

fun scalar_back :: "goval \<Rightarrow> dval option" where
  "scalar_back VNil = Some DNil"
| "scalar_back (VBool b) = Some (DBool b)"
| "scalar_back (VInt32 i) = Some (DInt32 (int32_back i))"
| "scalar_back (VInt i) = Some (DInt64 (int64_back i))"
| "scalar_back (VInt64 i) = Some (DInt64 (int64_back i))"
| "scalar_back (VFloat32 f) = (if float_ok (f64_of_f32 f) then Some (DFloat (float_back (f64_of_f32 f))) else None)"
| "scalar_back (VFloat64 f) = (if float_ok f then Some (DFloat (float_back f)) else None)"
| "scalar_back (VString s) = Some (DString (utf8 (runes_of s)))"
| "scalar_back (VBytes s) = Some (if s = [] then DNil else DBytes (Some s))"
| "scalar_back _ = None"

lemma size_VList: "v \<in> set vs \<Longrightarrow> size v < size (VList vs)"
  by (simp add: size_list_estimation' less_Suc_eq_le)

lemma size_VUntypedMap:
  assumes "kv \<in> set m"
  shows "size (fst kv) < size (VUntypedMap m)" "size (snd kv) < size (VUntypedMap m)"
proof -
  from assms have "size_prod size size kv < size_list (size_prod size size) m + 1"
    by (simp add: size_list_estimation' less_Suc_eq_le)
  then show "size (fst kv) < size (VUntypedMap m)" "size (snd kv) < size (VUntypedMap m)"
    by (cases kv; simp)+
qed

function reread :: "goval \<Rightarrow> dval option" where
  "reread v = (case v of
     VList vs \<Rightarrow>
       if length vs < 2 ^ 31 \<and> (\<forall>v \<in> set vs. reread v \<noteq> None) then Some (DList (map (the \<circ> reread) vs)) else None
   | VUntypedMap m \<Rightarrow>
       if m \<noteq> [] \<and> (\<forall>kv \<in> set m. reread (fst kv) \<noteq> None \<and> hashable (the (reread (fst kv))) \<and> reread (snd kv) \<noteq> None)
       then Some (DMap (foldl (\<lambda>m kv. map_put (the (reread (fst kv))) (the (reread (snd kv))) m) [] m)) else None
   | _ \<Rightarrow> scalar_back v)"
  by pat_completeness auto
termination
  by (relation "measure size") (auto intro: size_VList size_VUntypedMap simp del: goval.size)

declare reread.simps [simp del]

section \<open>Encoding and decoding agree\<close>

text \<open>\<open>wire v w bs\<close>: the encoder writes \<open>bs\<close> for \<open>v\<close>, and the decoder reads \<open>bs\<close> as \<open>w\<close>.\<close>

definition wire :: "ext \<Rightarrow> tyenv \<Rightarrow> POJORegistry \<Rightarrow> goval \<Rightarrow> dval \<Rightarrow> byte list \<Rightarrow> bool" where
  "wire X E reg v w bs \<longleftrightarrow>
     (\<forall>e. Encode X E v e = (Ok (), e\<lparr>ec_buffer := ec_buffer e @ bs\<rparr>)) \<and> bs \<noteq> [] \<and> hd bs \<noteq> BC_END \<and>
     (\<forall>n. size v \<le> n \<longrightarrow> reads (Decode X E reg (Suc n)) bs w)"

lemma wireI:
  assumes "\<And>e. Encode X E v e = (Ok (), e\<lparr>ec_buffer := ec_buffer e @ t # bs\<rparr>)" "t \<noteq> BC_END"
    and "\<And>n. size v \<le> n \<Longrightarrow> reads (Decode_tag X reg (Decode X E reg n) (decObject X E reg n) n t) bs w"
  shows "wire X E reg v w (t # bs)"
  using assms reads_Decode by (simp add: wire_def)

lemma wire_scalar:
  assumes "\<And>e. Encode X E v e = (Ok (), upd enc e)" and "\<And>b. enc b = b @ enc []" and "enc [] = t # bs"
    and "t \<noteq> BC_END" and "\<And>n dec obj. reads (Decode_tag X reg dec obj n t) bs w"
  shows "\<exists>bs. wire X E reg v w bs"
proof -
  have "wire X E reg v w (t # bs)"
    using assms(1,4,5) assms(2) [unfolded assms(3)] by (intro wireI) (simp_all add: upd_def)
  then show ?thesis ..
qed

lemma encString_append: "slice_ok X \<Longrightarrow> encString X v b = b @ encString X v []"
  by (simp add: encString_runes)

lemma encBinary_append: "encBinary v b = b @ encBinary v []"
proof (cases "v = []")
  case False
  from encBinary_loop_decodes [OF this] show ?thesis
    using False by (metis append_Nil encBinary_def)
qed (simp add: encBinary_def encByte_def)

lemma decDouble_encFloat:
  assumes "float_ok f"
  shows "\<exists>t bs. encFloat f [] = t # bs \<and> t \<in> {BC_DOUBLE_ZERO, BC_DOUBLE_ONE, BC_DOUBLE_BYTE, BC_DOUBLE} \<and>
    takes (decDouble X (Some t)) bs (NFloat (float_back f))"
proof -
  let ?i = "int64_of_f64 f"
  have byte: "takes (decDouble X (Some BC_DOUBLE_BYTE)) [word_of_int i] (NFloat (f64_of_int (i mod 256)))" for i
  proof (rule takesI)
    fix r rest assume "content r = [word_of_int i] @ rest"
    then have "content r = word_of_int i # rest" by simp
    from readTag_Cons [OF this]
    show "\<exists>r'. decDouble X (Some BC_DOUBLE_BYTE) r = (Ok (NFloat (f64_of_int (i mod 256))), r') \<and>
        content r' = rest \<and> (rdr_ok r \<longrightarrow> rdr_ok r')"
      by (auto simp: decDouble_def uint_word_of_int)
  qed
  consider "\<not> f64_eq (f64_of_int ?i) f \<or> ?i < - 0x8000 \<or> 0x8000 \<le> ?i"
    | "f64_eq (f64_of_int ?i) f" "?i = 0" | "f64_eq (f64_of_int ?i) f" "?i = 1"
    | "f64_eq (f64_of_int ?i) f" "- 0x80 \<le> ?i" "?i < 0x80" "?i \<noteq> 0" "?i \<noteq> 1"
    using assms unfolding float_ok_def Let_def by linarith
  then show ?thesis
  proof cases
    case 1
    then have "encFloat f [] = BC_DOUBLE # put_be 8 f" "float_back f = f"
      by (auto simp: encFloat_def encByte_def Let_def float_back_def)
    then show ?thesis using takes_decDouble_bits [of X f] by simp
  next
    case 4
    then have "encFloat f [] = [BC_DOUBLE_BYTE, word_of_int ?i]" "float_back f = f64_of_int (?i mod 256)"
      by (auto simp: encFloat_def encByte_def Let_def float_back_def neg_mod_shift)
    then show ?thesis using byte [of ?i] by simp
  qed (auto simp: encFloat_def encByte_def float_back_def decDouble_const takes_return)
qed

lemmas encode_scalar = Encode.simps encScalar_def

lemma float_wire:
  assumes "\<And>e. Encode X E v e = (Ok (), upd (encFloat f) e)" "float_ok f"
  shows "\<exists>bs. wire X E reg v (DFloat (float_back f)) bs"
proof -
  obtain t bs where i: "encFloat f [] = t # bs" "t \<in> {BC_DOUBLE_ZERO, BC_DOUBLE_ONE, BC_DOUBLE_BYTE, BC_DOUBLE}"
    "takes (decDouble X (Some t)) bs (NFloat (float_back f))" using decDouble_encFloat [OF assms(2)] by blast
  note tg = double_tagI [OF i(2)]
  have "reads (Decode_tag X reg dec obj n t) bs (DFloat (float_back f))" for dec obj n
    using reads_scalar [OF i(3), of DNil num_val] tg by (simp add: Decode_tag_def [abs_def] num_val_def)
  with tg show ?thesis by (intro wire_scalar [OF assms(1) encFloat_append i(1)]) auto
qed

lemma long_wire:
  assumes "\<And>e. Encode X E v e = (Ok (), upd (encInt64 i) e)"
  shows "\<exists>bs. wire X E reg v (DInt64 (int64_back i)) bs"
proof -
  obtain t bs where i: "encInt64 i [] = t # bs" "takes (decInt64 X (Some t)) bs (int64_back i)"
    "0xd8 \<le> t \<or> 0x38 \<le> t \<and> t \<le> 0x3f \<or> t = BC_LONG" using decInt64_encInt64 [of i X] by blast
  note tg = long_tagI [OF i(3)]
  have "reads (Decode_tag X reg dec obj n t) bs (DInt64 (int64_back i))" for dec obj n
    using reads_scalar [OF i(2), of "DInt64 0" DInt64] tg by (simp add: Decode_tag_def [abs_def])
  with tg show ?thesis by (intro wire_scalar [OF assms encInt64_append i(1)]) auto
qed

lemma string_wire:
  assumes "slice_ok X" "\<And>e. Encode X E v e = (Ok (), upd (encString X s) e)"
  shows "\<exists>bs. wire X E reg v (DString (utf8 (runes_of s))) bs"
proof -
  from enc_runes_decodes [of "runes_of s" X "[]"] runes_of_valid [of _ s] obtain t bs where
    i: "enc_runes (runes_of s) = t # bs" "takes (decString_rest X [] t) bs (utf8 (runes_of s))"
      "t \<le> 0x1f \<or> 0x30 \<le> t \<and> t \<le> 0x33 \<or> t = BC_STRING \<or> t = BC_STRING_CHUNK" by auto
  have "decString X (Some t) = decString_rest X [] t" by (rule ext) (rule decString_rest_first [OF i(3)])
  with i(2) have "takes (decString X (Some t)) bs (utf8 (runes_of s))" by simp
  note tg = string_tagI [OF i(3)]
  have "reads (Decode_tag X reg dec obj n t) bs (DString (utf8 (runes_of s)))" for dec obj n
    using reads_scalar [OF \<open>takes (decString X (Some t)) _ _\<close>, of "DString []" DString] tg
    by (simp add: Decode_tag_def [abs_def])
  moreover have "encString X s [] = t # bs" using encString_runes [OF assms(1), of s "[]"] i(1) by simp
  ultimately show ?thesis using tg by (intro wire_scalar [OF assms(2) encString_append [OF assms(1)]]) auto
qed

lemma binary_wire:
  assumes "s \<noteq> []" "\<And>e. Encode X E v e = (Ok (), upd (encBinary s) e)"
  shows "\<exists>bs. wire X E reg v (DBytes (Some s)) bs"
proof -
  from encBinary_loop_decodes [OF assms(1), of X "[]"] obtain t bs where
    i: "\<And>b. encBinary_loop s b = b @ t # bs" "takes (decBinary_loop X t []) bs (Some s)"
      "0x20 \<le> t \<and> t \<le> 0x2f \<or> 0x34 \<le> t \<and> t \<le> 0x37 \<or> t = BC_BINARY \<or> t = BC_BINARY_CHUNK" by auto
  note tg = binary_tagI [OF i(3)]
  have "decBinary X (Some t) = decBinary_loop X t []" using tg by (simp add: decBinary_def fun_eq_iff)
  with i(2) have "takes (decBinary X (Some t)) bs (Some s)" by simp
  then have "reads (Decode_tag X reg dec obj n t) bs (DBytes (Some s))" for dec obj n
    using reads_scalar [of "decBinary X (Some t)" bs "Some s" "DBytes None" DBytes] tg by (simp add: Decode_tag_def [abs_def])
  moreover have "encBinary s [] = t # bs" using i(1) assms(1) by (simp add: encBinary_def)
  ultimately show ?thesis using tg by (intro wire_scalar [OF assms(2) encBinary_append]) auto
qed

lemma const_wire:
  assumes "\<And>e. Encode X E v e = (Ok (), upd (\<lambda>b. b @ [t]) e)"
    and "t \<in> {BC_NULL, BC_TRUE, BC_FALSE}"
  shows "\<exists>bs. wire X E reg v (if t = BC_NULL then DNil else DBool (t = BC_TRUE)) bs"
proof -
  have "reads (Decode_tag X reg dec obj n t) [] (if t = BC_NULL then DNil else DBool (t = BC_TRUE))" for dec obj n
    using assms(2) by (auto simp: Decode_tag_def [abs_def] reads_return)
  then show ?thesis using assms by (intro wire_scalar [where enc = "\<lambda>b. b @ [t]" and t = t and bs = "[]"]) auto
qed

lemma scalar_wire:
  assumes "slice_ok X" "scalar_back v = Some w"
  shows "\<exists>bs. wire X E reg v w bs"
proof (cases v)
  case VNil
  then show ?thesis using const_wire [of X E v BC_NULL reg] assms(2)
    by (simp add: encode_scalar encNull_def [abs_def])
next
  case (VBool b)
  then show ?thesis using const_wire [of X E v BC_TRUE reg] const_wire [of X E v BC_FALSE reg] assms(2)
    by (cases b) (simp_all add: encode_scalar encBool_def [abs_def])
next
  case (VInt32 i)
  obtain t bs where i: "encInt32 i [] = t # bs" "takes (decInt32 X (Some t)) bs (int32_back i)"
    "0x80 \<le> t \<and> t \<le> 0xd7 \<or> t = BC_INT" using decInt32_encInt32 [of i X] by blast
  note tg = int_tagI [OF i(3)]
  have "reads (Decode_tag X reg dec obj n t) bs w" for dec obj n
    using reads_scalar [OF i(2), of "DInt32 0" DInt32] tg VInt32 assms(2) by (simp add: Decode_tag_def [abs_def])
  moreover have "\<And>e. Encode X E v e = (Ok (), upd (encInt32 i) e)" using VInt32 by (simp add: encode_scalar)
  ultimately show ?thesis using tg by (intro wire_scalar [OF _ encInt32_append i(1)]) auto
next
  case (VBytes s)
  then show ?thesis using assms(2) const_wire [of X E v BC_NULL reg] binary_wire [of s X E v reg]
    by (cases "s = []") (simp_all add: encode_scalar encBinary_def [abs_def] encByte_def)
qed (use assms long_wire [of X E v _ reg] float_wire [of X E v _ reg] string_wire [of X E v _ reg]
     in \<open>auto simp: encode_scalar split: if_splits\<close>)

lemma items_wire:
  assumes "\<And>v. v \<in> set vs \<Longrightarrow> \<exists>bs. wire X E reg v (w v) bs"
  shows "\<exists>bs. (\<forall>e. encUntypedList_items X E vs e = (Ok (), e\<lparr>ec_buffer := ec_buffer e @ bs\<rparr>)) \<and>
    (\<forall>n. (\<forall>v \<in> set vs. size v \<le> n) \<longrightarrow>
       (\<forall>arr. reads (decItems X (Decode X E reg (Suc n)) (length vs) arr) bs (arr @ map w vs)))"
  using assms
proof (induction vs)
  case Nil
  show ?case by (intro exI [of _ "[]"]) (simp add: encUntypedList_items.simps reads_return)
next
  case (Cons v vs)
  then obtain b bs where b: "wire X E reg v (w v) b"
    and bs: "\<And>e. encUntypedList_items X E vs e = (Ok (), e\<lparr>ec_buffer := ec_buffer e @ bs\<rparr>)"
      "\<And>n arr. (\<forall>v \<in> set vs. size v \<le> n) \<Longrightarrow>
         reads (decItems X (Decode X E reg (Suc n)) (length vs) arr) bs (arr @ map w vs)"
    by (metis list.set_intros(1,2))
  have "encUntypedList_items X E (v # vs) e = (Ok (), e\<lparr>ec_buffer := ec_buffer e @ b @ bs\<rparr>)" for e
    using b bs(1) by (simp add: encUntypedList_items.simps [of X E "v # vs"] wire_def)
  moreover have "reads (decItems X (Decode X E reg (Suc n)) (Suc (length vs)) arr) (b @ bs) (arr @ map w (v # vs))"
    if "\<forall>v' \<in> set (v # vs). size v' \<le> n" for n arr
  proof -
    have "reads (\<lambda>d. otry (Decode X E reg (Suc n) d) (traced X [])
        (\<lambda>it d. decItems X (Decode X E reg (Suc n)) (length vs) (arr @ [it]) d)) (b @ bs) (arr @ map w (v # vs))"
      using b bs(2) [of n "arr @ [w v]"] that by (intro reads_otry [where a = "w v"]) (auto simp: wire_def)
    then show ?thesis by (simp add: decItems.simps(2) [abs_def])
  qed
  ultimately show ?case unfolding length_Cons by blast
qed

lemma int32_of_length:
  assumes "n < 2 ^ 31"
  shows "sint (of_nat n :: int32) = int n"
  using sint_word_of_int_small [of "int n", where 'a = 32] assms by simp

lemma list_wire:
  assumes "\<And>v. v \<in> set vs \<Longrightarrow> \<exists>bs. wire X E reg v (w v) bs" "length vs < 2 ^ 31"
  shows "\<exists>bs. wire X E reg (VList vs) (DList (map w vs)) bs"
proof -
  from items_wire [OF assms(1)] obtain bs where
    bs: "\<And>e. encUntypedList_items X E vs e = (Ok (), e\<lparr>ec_buffer := ec_buffer e @ bs\<rparr>)"
      "\<And>n arr. (\<forall>v \<in> set vs. size v \<le> n) \<Longrightarrow>
         reads (decItems X (Decode X E reg (Suc n)) (length vs) arr) bs (arr @ map w vs)"
    by blast
  let ?len = "of_nat (length vs) :: int32"
  have len: "sint ?len = int (length vs)" by (rule int32_of_length [OF assms(2)])
  have "int32_back ?len = ?len" using len by (simp add: int32_back_id)
  then have i: "takes (decInt32 X TAG_READ) (encInt32 ?len []) ?len"
    using decInt32_encInt32 [of ?len X] by (auto dest: takes_decInt32_tag)
  have "reads (Decode_tag X reg (Decode X E reg n) (decObject X E reg n) n BC_LIST_FIXED_UNTYPED)
      (encInt32 ?len [] @ bs) (DList (map w vs))" if sz: "size (VList vs) \<le> n" for n
  proof -
    obtain m where n: "n = Suc m" using sz by (cases n) auto
    have "\<forall>v \<in> set vs. size v \<le> m" using size_VList sz n by fastforce
    from bs(2) [OF this, of "[]"] have "reads (\<lambda>d. otry (decItems X (Decode X E reg n) (length vs) [] (appendRefs (RList (length vs)) d)) raise
        (\<lambda>arr d. (Ok (DList arr), d))) bs (DList (map w vs))"
      using reads_otry [of "\<lambda>d. decItems X (Decode X E reg n) (length vs) [] (appendRefs (RList (length vs)) d)" bs
          "map w vs" "\<lambda>arr d. (Ok (DList arr), d)" "[]"]
        reads_return [of "DList (map w vs)"] by (simp add: n reads_appendRefs)
    then have "reads (decList_tail X (Decode X E reg n) False (int (length vs))) bs (DList (map w vs))"
      by (simp add: decList_tail_def [abs_def])
    then have "reads (\<lambda>d. otry (rdop (decInt32 X TAG_READ) d) (traced X DNil) (\<lambda>i32 d.
        decList_tail X (Decode X E reg n) False (sint i32) d)) (encInt32 ?len [] @ bs) (DList (map w vs))"
      using reads_rdop [OF i] len by (intro reads_otry [where a = ?len]) simp_all
    then show ?thesis
      by (simp add: Decode_tag_list [abs_def] decList_def [abs_def] reads_errval cong: if_cong)
  qed
  moreover have "Encode X E (VList vs) e = (Ok (), e\<lparr>ec_buffer := ec_buffer e @ BC_LIST_FIXED_UNTYPED # encInt32 ?len [] @ bs\<rparr>)" for e
    using encInt32_append [of ?len "ec_buffer e @ [BC_LIST_FIXED_UNTYPED]"]
    by (simp add: Encode.simps [of X E "VList vs"] bs(1) upd_def encByte_def)
  ultimately have "wire X E reg (VList vs) (DList (map w vs)) (BC_LIST_FIXED_UNTYPED # encInt32 ?len [] @ bs)"
    by (intro wireI) simp_all
  then show ?thesis ..
qed


text \<open>The entries of a map, with the byte that ends it.\<close>

lemma peekByte_Cons:
  assumes "content (dc_reader d) = b # bs" "rdr_ok (dc_reader d)"
  shows "\<exists>d'. peekByte d = (Ok b, d') \<and> content (dc_reader d') = b # bs \<and> rdr_ok (dc_reader d') \<and>
    dc_classInfoList d' = dc_classInfoList d"
proof -
  have "fst (Peek 1 (dc_reader d)) = ([b], None)"
    using Peek_enough [OF assms(2), of 1] assms(1) by (simp add: bufSize_def)
  moreover have "content (snd (Peek 1 (dc_reader d))) = b # bs" "rdr_ok (snd (Peek 1 (dc_reader d)))"
    using assms by (simp_all add: Peek_content rdr_ok_Peek)
  ultimately show ?thesis
    by (cases "Peek 1 (dc_reader d)") (auto simp: peekByte_def)
qed

lemma skipByte_Cons:
  assumes "content (dc_reader d) = b # bs" "rdr_ok (dc_reader d)"
  shows "content (dc_reader (skipByte d)) = bs \<and> rdr_ok (dc_reader (skipByte d)) \<and>
    dc_classInfoList (skipByte d) = dc_classInfoList d"
  using rd.rbyte_Cons [OF assms(1)] assms(2) by (auto simp: skipByte_def)

lemma reads_entries_end: "reads (decMap_entries dec stop (Suc n) m) [stop] (DMap m)"
proof (rule readsI)
  fix d :: Decoder and rest assume "content (dc_reader d) = [stop] @ rest" "rdr_ok (dc_reader d)"
  with peekByte_Cons [of d stop rest] skipByte_Cons
  show "\<exists>d'. decMap_entries dec stop (Suc n) m d = (Ok (DMap m), d') \<and> content (dc_reader d') = rest \<and>
      rdr_ok (dc_reader d') \<and> dc_classInfoList d' = dc_classInfoList d" by fastforce
qed

lemma reads_entries_step:
  assumes "reads dec kb k" "reads dec vb v" "hashable k" "kb \<noteq> []" "hd kb \<noteq> stop"
    and "reads (decMap_entries dec stop n (map_put k v m)) bs w"
  shows "reads (decMap_entries dec stop (Suc n) m) (kb @ vb @ bs) w"
proof (rule readsI)
  fix d :: Decoder and rest
  assume c: "content (dc_reader d) = (kb @ vb @ bs) @ rest" and ok: "rdr_ok (dc_reader d)"
  obtain b kb' where kb: "kb = b # kb'" "b \<noteq> stop" using assms(4,5) by (cases kb) auto
  from peekByte_Cons [of d b "kb' @ vb @ bs @ rest"] c ok kb obtain d0 where
    d0: "peekByte d = (Ok b, d0)" "content (dc_reader d0) = kb @ vb @ bs @ rest" "rdr_ok (dc_reader d0)"
      "dc_classInfoList d0 = dc_classInfoList d" by auto
  have "reads (\<lambda>d. otry (dec d) (\<lambda>e d. if e = EOF then (Ok (DMap m), skipByte d) else (Err e, d)) (\<lambda>k d.
         otry (dec d) raise (\<lambda>v d.
           if \<not> hashable k then (Panic, d) else decMap_entries dec stop n (map_put k v m) d))) (kb @ vb @ bs) w"
    using assms(1-3,6) by (intro reads_otry [where a = k] reads_otry [where a = v]) simp_all
  from readsE [OF this, of d0 rest] d0 obtain d' where
    "otry (dec d0) (\<lambda>e d. if e = EOF then (Ok (DMap m), skipByte d) else (Err e, d)) (\<lambda>k d.
         otry (dec d) raise (\<lambda>v d.
           if \<not> hashable k then (Panic, d) else decMap_entries dec stop n (map_put k v m) d)) = (Ok w, d')"
    "content (dc_reader d') = rest" "rdr_ok (dc_reader d')" "dc_classInfoList d' = dc_classInfoList d0" by auto
  with d0 kb show "\<exists>d'. decMap_entries dec stop (Suc n) m d = (Ok w, d') \<and> content (dc_reader d') = rest \<and>
      rdr_ok (dc_reader d') \<and> dc_classInfoList d' = dc_classInfoList d" by auto
qed

text \<open>\<open>entries_at m bs\<close>: the same as \<open>wire\<close> for the entries of a map.\<close>

abbreviation (input) put_all :: "(goval \<Rightarrow> dval) \<Rightarrow> (dval \<times> dval) list \<Rightarrow> (goval \<times> goval) list \<Rightarrow> (dval \<times> dval) list" where
  "put_all w \<equiv> foldl (\<lambda>m kv. map_put (w (fst kv)) (w (snd kv)) m)"

definition entries_at ::
  "ext \<Rightarrow> tyenv \<Rightarrow> POJORegistry \<Rightarrow> (goval \<Rightarrow> dval) \<Rightarrow> (goval \<times> goval) list \<Rightarrow> byte list \<Rightarrow> bool" where
  "entries_at X E reg w m bs \<longleftrightarrow>
     (\<forall>e. encUntypedMap_entries X E m e = (Ok (), e\<lparr>ec_buffer := ec_buffer e @ bs\<rparr>)) \<and>
     (\<forall>n f acc. (\<forall>kv \<in> set m. size (fst kv) \<le> n \<and> size (snd kv) \<le> n) \<longrightarrow> length m < f \<longrightarrow>
        reads (decMap_entries (Decode X E reg (Suc n)) BC_END f acc) (bs @ [BC_END]) (DMap (put_all w acc m)))"

lemma entries_atD:
  assumes "entries_at X E reg w m bs"
  shows "encUntypedMap_entries X E m e = (Ok (), e\<lparr>ec_buffer := ec_buffer e @ bs\<rparr>)"
    "\<forall>kv \<in> set m. size (fst kv) \<le> n \<and> size (snd kv) \<le> n \<Longrightarrow> length m < f \<Longrightarrow>
     reads (decMap_entries (Decode X E reg (Suc n)) BC_END f acc) (bs @ [BC_END]) (DMap (put_all w acc m))"
  using assms unfolding entries_at_def by simp_all

lemma entries_wire:
  assumes "\<And>kv. kv \<in> set m \<Longrightarrow> (\<exists>bs. wire X E reg (fst kv) (w (fst kv)) bs) \<and>
    (\<exists>bs. wire X E reg (snd kv) (w (snd kv)) bs) \<and> hashable (w (fst kv))"
  shows "\<exists>bs. entries_at X E reg w m bs"
  using assms
proof (induction m)
  case Nil
  have "reads (decMap_entries dec BC_END f acc) [BC_END] (DMap acc)" if "0 < f" for dec f acc
    using that reads_entries_end by (cases f) auto
  then show ?case by (intro exI [of _ "[]"]) (simp add: encUntypedMap_entries.simps entries_at_def)
next
  case (Cons kv m)
  from Cons.prems [of kv] obtain kb vb where k: "wire X E reg (fst kv) (w (fst kv)) kb"
    and v: "wire X E reg (snd kv) (w (snd kv)) vb" and h: "hashable (w (fst kv))" by auto
  from Cons obtain bs where bs: "entries_at X E reg w m bs" by auto
  have "encUntypedMap_entries X E (kv # m) e = (Ok (), e\<lparr>ec_buffer := ec_buffer e @ kb @ vb @ bs\<rparr>)" for e
    using k v entries_atD(1) [OF bs] by (simp add: encUntypedMap_entries.simps [of X E "kv # m"] wire_def)
  moreover have "reads (decMap_entries (Decode X E reg (Suc n)) BC_END f acc) ((kb @ vb @ bs) @ [BC_END])
      (DMap (put_all w acc (kv # m)))"
    if n: "\<forall>kv' \<in> set (kv # m). size (fst kv') \<le> n \<and> size (snd kv') \<le> n" and f: "length (kv # m) < f" for n f acc
  proof -
    obtain f' where f': "f = Suc f'" "length m < f'" using f by (cases f) auto
    have "reads (Decode X E reg (Suc n)) kb (w (fst kv))" "reads (Decode X E reg (Suc n)) vb (w (snd kv))"
      "kb \<noteq> []" "hd kb \<noteq> BC_END" using k v n by (auto simp: wire_def)
    from reads_entries_step [OF this(1,2) h this(3,4) entries_atD(2) [OF bs, of n f' "map_put (w (fst kv)) (w (snd kv)) acc"]] n f'
    show ?thesis by simp
  qed
  ultimately have "entries_at X E reg w (kv # m) (kb @ vb @ bs)" unfolding entries_at_def by blast
  then show ?case ..
qed

lemma length_size_list: "length m \<le> size_list f m"
  by (induction m) auto

lemma map_wire:
  assumes "\<And>kv. kv \<in> set m \<Longrightarrow> (\<exists>bs. wire X E reg (fst kv) (w (fst kv)) bs) \<and>
    (\<exists>bs. wire X E reg (snd kv) (w (snd kv)) bs) \<and> hashable (w (fst kv))" "m \<noteq> []"
  shows "\<exists>bs. wire X E reg (VUntypedMap m) (DMap (foldl (\<lambda>m kv. map_put (w (fst kv)) (w (snd kv)) m) [] m)) bs"
proof -
  let ?w = "DMap (foldl (\<lambda>m kv. map_put (w (fst kv)) (w (snd kv)) m) [] m)"
  from entries_wire [of m X E reg w] assms(1) obtain bs where bs0: "entries_at X E reg w m bs" by blast
  note bs = entries_atD [OF bs0]
  have "reads (Decode_tag X reg (Decode X E reg n) (decObject X E reg n) n BC_MAP_UNTYPED) (bs @ [BC_END]) ?w"
    if sz: "size (VUntypedMap m) \<le> n" for n
  proof -
    obtain n' where n: "n = Suc n'" using sz by (cases n) auto
    have "\<forall>kv \<in> set m. size (fst kv) \<le> n' \<and> size (snd kv) \<le> n'" using size_VUntypedMap sz n by fastforce
    moreover have "length m < n" using sz length_size_list [of m "size_prod size size"] by simp
    ultimately have "reads (\<lambda>d. decMap_entries (Decode X E reg n) BC_END n [] (appendRefs RMap d)) (bs @ [BC_END]) ?w"
      unfolding n by (intro reads_appendRefs bs(2))
    then show ?thesis
      by (simp add: Decode_tag_list [abs_def] decMap_def [abs_def] reads_errval)
  qed
  moreover have "Encode X E (VUntypedMap m) e = (Ok (), e\<lparr>ec_buffer := ec_buffer e @ BC_MAP_UNTYPED # bs @ [BC_END]\<rparr>)" for e
    using assms(2) by (simp add: Encode.simps [of X E "VUntypedMap m"] bs(1) upd_def encByte_def)
  ultimately have "wire X E reg (VUntypedMap m) ?w (BC_MAP_UNTYPED # bs @ [BC_END])"
    by (intro wireI) simp_all
  then show ?thesis ..
qed

lemma reread_wire:
  assumes "slice_ok X" "reread v = Some w"
  shows "\<exists>bs. wire X E reg v w bs"
  using assms(2)
proof (induction v arbitrary: w rule: reread.induct)
  case (1 v)
  show ?case
  proof (cases v)
    case (VUntypedMap m)
    with "1.prems" have m: "m \<noteq> []" "\<And>kv. kv \<in> set m \<Longrightarrow> reread (fst kv) \<noteq> None \<and> hashable (the (reread (fst kv))) \<and> reread (snd kv) \<noteq> None"
      "w = DMap (foldl (\<lambda>m kv. map_put (the (reread (fst kv))) (the (reread (snd kv))) m) [] m)"
      by (auto simp: reread.simps [of "VUntypedMap m"] split: if_splits)
    show ?thesis unfolding VUntypedMap m(3)
      by (rule map_wire [where w = "\<lambda>v. the (reread v)"]) (use m(1,2) "1.IH" VUntypedMap in auto)
  next
    case (VList vs)
    with "1.prems" have vs: "length vs < 2 ^ 31" "\<And>v. v \<in> set vs \<Longrightarrow> reread v \<noteq> None" "w = DList (map (the \<circ> reread) vs)"
      by (auto simp: reread.simps [of "VList vs"] split: if_splits)
    show ?thesis unfolding VList vs(3)
      by (rule list_wire) (use vs(1,2) "1.IH" VList in auto)
  qed (use "1.prems" scalar_wire [OF assms(1), of v w E reg] reread.simps [of v] in simp_all)
qed



end
