(* ===== verification/Hessian_Frame.thy ===== *)
theory Hessian_Frame
  imports Hessian_Roundtrip Codec_Message
begin

unbundle bit_operations_syntax

text \<open>
  The Dubbo frame around a Hessian body: requests (\<^verbatim>\<open>codec/hessian/request.go\<close>), responses
  (\<^verbatim>\<open>response.go\<close>) and the codec object that puts them on a connection (\<^verbatim>\<open>hessian.go\<close>), with the
  message of \<^verbatim>\<open>codec/codec.go\<close>. A frame is a header of 16 bytes (magic number, flags, status,
  request id, body length) and the body.
\<close>

section \<open>Requests\<close>

abbreviation (input) HEADER_LENGTH :: nat where "HEADER_LENGTH \<equiv> 16"
abbreviation (input) MAGIC_HIGH :: byte where "MAGIC_HIGH \<equiv> 0xda"
abbreviation (input) MAGIC_LOW :: byte where "MAGIC_LOW \<equiv> 0xbb"
abbreviation (input) FLAG_REQUEST :: byte where "FLAG_REQUEST \<equiv> 0x80"
abbreviation (input) FLAG_TWOWAY :: byte where "FLAG_TWOWAY \<equiv> 0x40"
abbreviation (input) FLAG_EVENT :: byte where "FLAG_EVENT \<equiv> 0x20"
abbreviation (input) DEFAULT_LEN :: nat where "DEFAULT_LEN \<equiv> 8388608"

definition DUBBO_VERSION :: "byte list" where
  "DUBBO_VERSION = str ''2.5.4''"

definition DubboHeader :: "byte list" where
  "DubboHeader = [MAGIC_HIGH, MAGIC_LOW, FLAG_REQUEST OR FLAG_TWOWAY] @ replicate 13 0"

definition DubboHeartbeatHeader :: "byte list" where
  "DubboHeartbeatHeader =
     [MAGIC_HIGH, MAGIC_LOW, ((FLAG_REQUEST OR FLAG_TWOWAY) OR FLAG_EVENT) OR 0x0F] @ replicate 13 0"

text \<open>The Java type of an argument; a pointer counts as a struct, whatever it points to.\<close>

definition getArgType :: "goval \<Rightarrow> byte list" where
  "getArgType v = str (case v of
     VNil \<Rightarrow> ''V'' | VBool _ \<Rightarrow> ''Z''
   | VUint TUint8 _ \<Rightarrow> ''B'' | VInt8 _ \<Rightarrow> ''B'' | VInt16 _ \<Rightarrow> ''S'' | VUint TUint16 _ \<Rightarrow> ''C''
   | VInt _ \<Rightarrow> ''I'' | VInt32 _ \<Rightarrow> ''I'' | VInt64 _ \<Rightarrow> ''J''
   | VTime _ \<Rightarrow> ''java.util.Date'' | VFloat32 _ \<Rightarrow> ''F'' | VFloat64 _ \<Rightarrow> ''D''
   | VString _ \<Rightarrow> ''java.lang.String'' | VBytes _ \<Rightarrow> ''[B'' | VUntypedMap _ \<Rightarrow> ''java.util.Map''
   | VPtr _ _ \<Rightarrow> ''java.lang.Object'' | VStruct _ _ _ \<Rightarrow> ''java.lang.Object''
   | VList _ \<Rightarrow> ''java.util.List'' | VMap _ _ \<Rightarrow> ''java.util.Map''
   | _ \<Rightarrow> [])"

fun getArgsTypeList :: "goval list \<Rightarrow> byte list \<Rightarrow> byte list outcome" where
  "getArgsTypeList [] types = Ok types"
| "getArgsTypeList (v # args) types = (let typ = getArgType v in
     if typ = [] then Err (Errorf ''cat not get arg %#v type'')
     else if 0x2e \<notin> set typ then getArgsTypeList args (types @ typ)
     else getArgsTypeList args
       (types @ [0x4c] @ map (\<lambda>c. if c = 0x2e then 0x2f else c) typ @ [0x3b]))"

text \<open>
  The bytes of a message header: the flags with the low five bits of the message id or-ed in,
  and the id; the body length is put in at the end.
\<close>

definition requestHeader :: "Message \<Rightarrow> byte list" where
  "requestHeader m =
     (let h = (if m_Type m = Heartbeat then DubboHeartbeatHeader else DubboHeader)
      in [h ! 0, h ! 1, h ! 2 OR ucast (m_ID m AND 0x1f), h ! 3] @ put_be 8 (m_ID m) @ drop 12 h)"

text \<open>\<^verbatim>\<open>encoder.Encode(v)\<close> with its error ignored, for each value in turn.\<close>

fun encodeAll :: "ext \<Rightarrow> tyenv \<Rightarrow> goval list \<Rightarrow> Encoder \<Rightarrow> unit outcome \<times> Encoder" where
  "encodeAll X E [] e = (Ok (), e)"
| "encodeAll X E (v # vs) e = ignoring (Encode X E v e) (encodeAll X E vs)"

text \<open>
  \<^verbatim>\<open>serviceParams\<close>: its local \<^verbatim>\<open>version\<close> is never set, so there is no version entry. \<open>ord\<close> is the order
  in which Go visits the map.
\<close>

definition serviceParams :: "Message \<Rightarrow> (goval \<times> goval) list" where
  "serviceParams m =
     [(VString PATH_KEY, VString (m_ServicePath m)), (VString INTERFACE_KEY, VString (m_Target m))] @
     (if m_Timeout m \<noteq> 0 then [(VString TIMEOUT_KEY, VString (Itoa (go_div (m_Timeout m) (10 ^ 6))))] else [])"

text \<open>
  \<open>a\<close> is \<open>None\<close> when the argument is no \<^verbatim>\<open>[]interface{}\<close>; \<open>wr\<close> is \<^verbatim>\<open>w.Write\<close>. The result holds
  the registry afterwards and the bytes given to the writer, if it came to that.
\<close>

definition packRequest ::
  "ext \<Rightarrow> tyenv \<Rightarrow> ((goval \<times> goval) list \<Rightarrow> (goval \<times> goval) list) \<Rightarrow> (byte list \<Rightarrow> nat \<times> goerr option)
   \<Rightarrow> Message \<Rightarrow> goval list option \<Rightarrow> POJORegistry \<Rightarrow> unit outcome \<times> (POJORegistry \<times> byte list option)" where
  "packRequest X E ord wr m a reg = (case a of
     None \<Rightarrow> (Err (Errorf ''@b is not of type: []interface{}''), (reg, None))
   | Some args \<Rightarrow>
     (let e = Append (requestHeader m) (NewEncoder reg);
          finish = (\<lambda>e.
            let b = ec_buffer e; pkgLen = length b in
            if DEFAULT_LEN < pkgLen then
              (Err (Errorf ''Data length %d too large, max payload %d''), (ec_registry e, None))
            else
              (let b = take 12 b @ put_be 4 (of_nat (pkgLen - HEADER_LENGTH) :: int32) @ drop 16 b;
                   (k, werr) = wr b
               in (case werr of
                     Some err \<Rightarrow> ret () (je_Trace X (Some err))
                   | None \<Rightarrow> if k \<noteq> length b then Err (Errorf ''@w.Write(buflen:%d) = %d, nil'') else Ok (),
                   (ec_registry e, Some b))));
          end = (\<lambda>(res, e). case res of
              Ok _ \<Rightarrow> finish e
            | Err err \<Rightarrow> (Err err, (ec_registry e, None))
            | Panic \<Rightarrow> (Panic, (ec_registry e, None)) | NoFuel \<Rightarrow> (NoFuel, (ec_registry e, None)))
      in if m_Type m = Heartbeat then end (encodeAll X E [VNil] e)
         else end
           (otry (encodeAll X E (map VString [DUBBO_VERSION, m_Target m, m_Version m, m_Method m]) e) raise
             (\<lambda>_ e. case getArgsTypeList args [] of
                Ok types \<Rightarrow>
                  encodeAll X E (VString types # args @ [VMap TString (ord (serviceParams m))]) e
              | Err err \<Rightarrow> (ret () (je_Annotatef X '' PackRequest(args:%+v)'' (Some err)), e)
              | Panic \<Rightarrow> (Panic, e) | NoFuel \<Rightarrow> (NoFuel, e)))))"

section \<open>Responses\<close>

abbreviation (input) Response_OK :: byte where "Response_OK \<equiv> 20"
abbreviation (input) RESPONSE_WITH_EXCEPTION :: int32 where "RESPONSE_WITH_EXCEPTION \<equiv> 0"
abbreviation (input) RESPONSE_VALUE :: int32 where "RESPONSE_VALUE \<equiv> 1"
abbreviation (input) RESPONSE_NULL_VALUE :: int32 where "RESPONSE_NULL_VALUE \<equiv> 2"

text \<open>\<^verbatim>\<open>buf[i]\<close>.\<close>

definition at :: "byte list \<Rightarrow> nat \<Rightarrow> Message \<Rightarrow> (byte \<Rightarrow> unit outcome \<times> Message) \<Rightarrow> unit outcome \<times> Message" where
  "at buf i m f = (if i < length buf then f (buf ! i) else (Panic, m))"

definition unpackResponseHeaer :: "byte list \<Rightarrow> Message \<Rightarrow> unit outcome \<times> Message" where
  "unpackResponseHeaer buf m =
     at buf 0 m (\<lambda>b0. at buf (if b0 \<noteq> MAGIC_HIGH then 1 else 0) m (\<lambda>b1.
       if b0 \<noteq> MAGIC_HIGH \<and> b1 \<noteq> MAGIC_LOW then (Err ErrIllegalPackage, m)
       else at buf 2 m (\<lambda>b2.
         if b2 AND 0x1f = 0 then (Err (Errorf ''serialization ID:%v''), m)
         else
           (let m = (if b2 AND FLAG_EVENT \<noteq> 0 then m\<lparr>m_Type := m_Type m OR Heartbeat\<rparr> else m);
                m = (if b2 AND FLAG_TWOWAY \<noteq> 0 then m\<lparr>m_Type := m_Type m OR Response\<rparr> else m)
            in if b2 AND FLAG_REQUEST \<noteq> 0 then (Err (Errorf ''response flag:%v''), m)
               else at buf 3 m (\<lambda>b3.
                 if length buf < 16 then (Panic, if length buf < 12 then m else m\<lparr>m_ID := get_be (take 8 (drop 4 buf))\<rparr>)
                 else
                   (let bodyLen = uint (get_be (take 4 (drop 12 buf)) :: int32);
                        m = m\<lparr>m_ID := get_be (take 8 (drop 4 buf)), m_BodyLen := bodyLen\<rparr>
                    in if bodyLen < 0 then (Err ErrIllegalPackage, m)
                       else (if b3 \<noteq> Response_OK then Err ErrJavaException else Ok (), m)))))))"

section \<open>The result of a call\<close>

text \<open>What the caller passes for the result: nil, a value that is no pointer, a pointer to a type.\<close>

datatype target = NilTarget | NoPointer | PtrTo gotype

fun strip_ptr :: "gotype \<Rightarrow> gotype" where
  "strip_ptr (TPtr t) = strip_ptr t"
| "strip_ptr t = t"

definition struct_kind :: "gotype \<Rightarrow> bool" where
  "struct_kind t = (case t of TStruct _ \<Rightarrow> True | TTime \<Rightarrow> True | _ \<Rightarrow> False)"

text \<open>
  \<^verbatim>\<open>cpSlice\<close>: the elements of a slice of structs are taken out of their \<^verbatim>\<open>reflect.Value\<close>; any other
  element is wrapped by \<^verbatim>\<open>reflect.ValueOf(inSliceValue)\<close>, whose type is \<^verbatim>\<open>reflect.Value\<close> itself, so it
  fits only an interface. An element is \<open>Some\<close> its value, and such a wrapped element an instance
  of \<^verbatim>\<open>reflect.Value\<close>.
\<close>

fun cpSlice_elems :: "gotype \<Rightarrow> dval option list \<Rightarrow> dval list \<Rightarrow> dval list outcome" where
  "cpSlice_elems et [] out = Ok out"
| "cpSlice_elems et (x # xs) out =
     (if struct_kind et then
        (case x of
           Some (DInst n vs) \<Rightarrow>
             if et = TStruct n then cpSlice_elems et xs (out @ [DInst n vs])
             else Err (Errorf ''in element type %s can not assign to out element type %s'')
         | _ \<Rightarrow> Panic)
      else if et = TInterface then
        cpSlice_elems et xs (out @ [DInst (str ''reflect.Value'') [x]])
      else Err (Errorf ''in element type %s can not assign to out element type %s''))"

definition cpSlice :: "bool \<Rightarrow> dval option list \<Rightarrow> gotype \<Rightarrow> dval outcome" where
  "cpSlice isNil xs out =
     (if isNil then Err (Errorf ''@in is nil'')
      else (case strip_ptr out of
        TSlice et \<Rightarrow> (case cpSlice_elems et xs [] of
            Ok vs \<Rightarrow> Ok (DList vs) | Err e \<Rightarrow> Err e | Panic \<Rightarrow> Panic | NoFuel \<Rightarrow> NoFuel)
      | _ \<Rightarrow> Panic))"

text \<open>
  \<^verbatim>\<open>cpMap\<close>: a key or value of struct kind must be a \<^verbatim>\<open>reflect.Value\<close>; asking the type of a nil one
  panics.
\<close>

definition cp_type :: "gotype \<Rightarrow> dval \<Rightarrow> gotype outcome" where
  "cp_type t x =
     (if struct_kind t then (case x of DInst n _ \<Rightarrow> Ok (TStruct n) | _ \<Rightarrow> Panic)
      else (case dtype x of Some xt \<Rightarrow> Ok xt | None \<Rightarrow> Err (Errorf [])))"

fun cpMap_entries :: "gotype \<Rightarrow> gotype \<Rightarrow> (dval \<times> dval) list \<Rightarrow> (dval \<times> dval) list \<Rightarrow> (dval \<times> dval) list outcome" where
  "cpMap_entries kt vt [] out = Ok out"
| "cpMap_entries kt vt ((k, v) # m) out =
     (case (cp_type kt k, cp_type vt v) of
        (Panic, _) \<Rightarrow> Panic
      | (_, Panic) \<Rightarrow> Panic
      | (Ok ka, va) \<Rightarrow>
          if kt \<noteq> TInterface \<and> ka \<noteq> kt then
            Err (Errorf ''in Key:{type:%s, value:%#v} can not assign to out Key:{type:%s} '')
          else (case va of
              Ok va \<Rightarrow>
                if vt \<noteq> TInterface \<and> va \<noteq> vt then
                  Err (Errorf ''in Value:{type:%s, value:%#v} can not assign to out value:{type:%s}'')
                else cpMap_entries kt vt m (map_put k v out)
            | _ \<Rightarrow> Panic)
      | _ \<Rightarrow> Panic)"

definition cpMap :: "(dval \<times> dval) list \<Rightarrow> gotype \<Rightarrow> dval outcome" where
  "cpMap m out = (case strip_ptr out of
     TMap kt vt \<Rightarrow> (case cpMap_entries kt vt m [] of
         Ok m' \<Rightarrow> Ok (DMap m') | Err e \<Rightarrow> Err e | Panic \<Rightarrow> Panic | NoFuel \<Rightarrow> NoFuel)
   | _ \<Rightarrow> Panic)"

text \<open>
  \<^verbatim>\<open>ReflectResponse\<close>: the value that the target holds afterwards. Setting a target of another type
  panics, and so does a time, an enum or a reference, which fail the assertion of their branch.
\<close>

definition set_target :: "dval \<Rightarrow> gotype \<Rightarrow> dval outcome" where
  "set_target v t = (if assignable v t then Ok v else Panic)"

definition ReflectResponse :: "dval \<Rightarrow> target \<Rightarrow> dval outcome" where
  "ReflectResponse v out =
     (if v = DNil then Err (Errorf ''@in is nil'')
      else (case out of
        NilTarget \<Rightarrow> Err (Errorf ''@out is nil'')
      | NoPointer \<Rightarrow> Err (Errorf ''@out should be a pointer'')
      | PtrTo t \<Rightarrow>
        (case v of
           DBool _ \<Rightarrow> set_target v t
         | DInt32 _ \<Rightarrow> set_target v t
         | DInt64 _ \<Rightarrow> set_target v t
         | DFloat _ \<Rightarrow> set_target v t
         | DString _ \<Rightarrow> set_target v t
         | DInst n _ \<Rightarrow> if t = TInterface \<or> t = TStruct n then Ok v else Panic
         | DBytes b \<Rightarrow> cpSlice (b = None) (map (\<lambda>x. Some (DInt64 (ucast x))) (case b of None \<Rightarrow> [] | Some b \<Rightarrow> b)) t
         | DList vs \<Rightarrow> cpSlice False (map Some vs) t
         | DMap m \<Rightarrow> cpMap m t
         | _ \<Rightarrow> Panic)))"

text \<open>
  \<^verbatim>\<open>unpackResponseBody\<close>: the kind of the response, an int, then the value. \<open>Ok None\<close> is a return with
  nothing set, which happens for every kind that is not one of the three.
\<close>

definition unpackResponseBody ::
  "ext \<Rightarrow> tyenv \<Rightarrow> POJORegistry \<Rightarrow> nat \<Rightarrow> byte list \<Rightarrow> target \<Rightarrow> dval option outcome" where
  "unpackResponseBody X E reg n buf out = fst
     (otry (Decode X E reg n (NewDecoder buf)) (traced X None) (\<lambda>rspType d.
        if rspType = DInt32 RESPONSE_WITH_EXCEPTION then
          otry (Decode X E reg n d) (traced X None) (\<lambda>_ d. (Err (Errorf ''got exception: %+v''), d))
        else if rspType = DInt32 RESPONSE_VALUE then
          otry (Decode X E reg n d) (traced X None) (\<lambda>rsp d.
            (case ReflectResponse rsp out of
               Ok v \<Rightarrow> Ok (Some v)
             | Err e \<Rightarrow> ret None (je_Trace X (Some e))
             | Panic \<Rightarrow> Panic | NoFuel \<Rightarrow> NoFuel, d))
        else if rspType = DInt32 RESPONSE_NULL_VALUE then (Err (Errorf ''Received null''), d)
        else (Ok None, d)))"

section \<open>The codec\<close>

record hessianCodec =
  hc_mt :: int64
  hc_reader :: rdr
  hc_rspBodyLen :: int

definition NewCodec :: "byte list \<Rightarrow> hessianCodec" where
  "NewCodec bs = \<lparr>hc_mt = 0, hc_reader = NewReader bs, hc_rspBodyLen = 0\<rparr>"

definition hc_Write ::
  "ext \<Rightarrow> tyenv \<Rightarrow> ((goval \<times> goval) list \<Rightarrow> (goval \<times> goval) list) \<Rightarrow> (byte list \<Rightarrow> nat \<times> goerr option)
   \<Rightarrow> Message \<Rightarrow> goval list option \<Rightarrow> POJORegistry \<Rightarrow> unit outcome \<times> (POJORegistry \<times> byte list option)" where
  "hc_Write X E ord wr m a reg =
     (if m_Type m = Heartbeat \<or> m_Type m = Request then
        (case packRequest X E ord wr m a reg of
           (Err e, s) \<Rightarrow> (ret () (je_Trace X (Some e)), s)
         | (Ok u, s) \<Rightarrow> (ret u (je_Trace X None), s)
         | rs \<Rightarrow> rs)
      else if m_Type m = Response then (Ok (), (reg, None))
      else (Err (Errorf ''Unrecognised message type: %v''), (reg, None)))"

definition hc_ReadHeader ::
  "ext \<Rightarrow> Message \<Rightarrow> int64 \<Rightarrow> hessianCodec \<Rightarrow> unit outcome \<times> Message \<times> hessianCodec" where
  "hc_ReadHeader X m mt h0 = (let h = h0\<lparr>hc_mt := mt\<rparr> in
     if mt = Request then (Ok (), m, h)
     else if mt = Heartbeat \<or> mt = Response then
       (case Peek HEADER_LENGTH (hc_reader h) of ((buf, perr), r) \<Rightarrow>
          (case perr of
             Some e \<Rightarrow> (ret () (je_Trace X (Some e)), m, h\<lparr>hc_reader := r\<rparr>)
           | None \<Rightarrow>
               (let h = h\<lparr>hc_reader := Discard HEADER_LENGTH r\<rparr>
                in case unpackResponseHeaer buf m of
                     (Ok _, m) \<Rightarrow> (Ok (), m, h\<lparr>hc_rspBodyLen := m_BodyLen m\<rparr>)
                   | (Err e, m) \<Rightarrow> (ret () (je_Trace X (Some e)), m, h)
                   | (res, m) \<Rightarrow> (res, m, h))))
     else (Err (Errorf ''Unrecognised message type: %v''), m, h))"

text \<open>\<open>ret\<close> of the source is \<open>out\<close>; a nil one skips the body without decoding it.\<close>

definition hc_ReadBody ::
  "ext \<Rightarrow> tyenv \<Rightarrow> POJORegistry \<Rightarrow> nat \<Rightarrow> target \<Rightarrow> hessianCodec \<Rightarrow> dval option outcome \<times> hessianCodec" where
  "hc_ReadBody X E reg n out h =
     (if hc_mt h = Request then (Ok None, h)
      else if hc_mt h = Heartbeat \<or> hc_mt h = Response then
        (let k = nat (hc_rspBodyLen h) in
         case Peek k (hc_reader h) of ((buf, perr), r) \<Rightarrow>
          (case perr of
             Some e \<Rightarrow>
               (if e = ErrBufferFull then Err ErrBodyNotEnough else ret None (je_Trace X (Some e)),
                h\<lparr>hc_reader := r\<rparr>)
           | None \<Rightarrow>
               (let h = h\<lparr>hc_reader := Discard k r\<rparr>
                in (if out = NilTarget then Ok None
                    else (case unpackResponseBody X E reg n buf out of
                        Err e \<Rightarrow> ret None (je_Trace X (Some e)) | res \<Rightarrow> res), h))))
      else (Ok None, h))"

section \<open>Requests on the wire\<close>

lemma wire_unique: "wire X E reg v w bs \<Longrightarrow> Encode X E v e = (Ok (), e\<lparr>ec_buffer := ec_buffer e @ bs\<rparr>)"
  by (simp add: wire_def)

lemma encMap_entries_string:
  assumes "\<And>kv. kv \<in> set m \<Longrightarrow> \<exists>s. fst kv = VString s"
  shows "encMap_entries X E TString m e =
    otry (encUntypedMap_entries X E m e) raise (\<lambda>_ e. (Ok (), upd (\<lambda>b. encByte b [BC_END]) e))"
  using assms
proof (induction m arbitrary: e)
  case Nil
  show ?case by (simp add: encMap_entries.simps encUntypedMap_entries.simps)
next
  case (Cons kv m)
  obtain s where k: "fst kv = VString s" using Cons.prems [of kv] by auto
  have key: "getMapKey (VString s) TString = Ok (VString s)" by (simp add: getMapKey_def)
  have enc: "encScalar X (VString s) e = (Ok (), upd (encString X s) e)"
    "Encode X E (VString s) e = (Ok (), upd (encString X s) e)" by (simp_all add: encode_scalar)
  show ?case
    unfolding encMap_entries.simps [of X E TString "kv # m"] encUntypedMap_entries.simps [of X E "kv # m"]
    using Cons by (cases "Encode X E (snd kv) (upd (encString X s) e)")
      (auto simp: k key enc otry_def split: outcome.splits)
qed

lemma Encode_string_map:
  assumes "\<And>kv. kv \<in> set m \<Longrightarrow> \<exists>s. fst kv = VString s"
  shows "Encode X E (VMap TString m) e = Encode X E (VUntypedMap m) e"
  using encMap_entries_string [of m X E] assms
  by (simp add: Encode.simps [of X E "VMap TString m"] Encode.simps [of X E "VUntypedMap m"])

text \<open>The strings of a map of strings, as they come back.\<close>

lemma string_map_wire:
  assumes "slice_ok X" "m \<noteq> []" "\<And>kv. kv \<in> set m \<Longrightarrow> (\<exists>s. fst kv = VString s) \<and> (\<exists>s. snd kv = VString s)"
  shows "\<exists>bs. wire X E reg (VMap TString m) (DMap (put_all (\<lambda>v. the (reread v)) [] m)) bs"
proof -
  have r: "reread (VString s) = Some (DString (utf8 (runes_of s)))" for s by (simp add: reread.simps)
  have "\<exists>bs. wire X E reg (VUntypedMap m) (DMap (put_all (\<lambda>v. the (reread v)) [] m)) bs"
  proof (rule map_wire [OF _ assms(2)])
    fix kv assume "kv \<in> set m"
    from assms(3) [OF this] obtain s t where kv: "fst kv = VString s" "snd kv = VString t" by auto
    show "(\<exists>bs. wire X E reg (fst kv) (the (reread (fst kv))) bs) \<and>
      (\<exists>bs. wire X E reg (snd kv) (the (reread (snd kv))) bs) \<and> hashable (the (reread (fst kv)))"
      using reread_wire [OF assms(1) r [of s], of E reg] reread_wire [OF assms(1) r [of t], of E reg]
      by (auto simp: kv r hashable_def)
  qed
  moreover have "Encode X E (VMap TString m) e = Encode X E (VUntypedMap m) e" for e
    using assms(3) by (intro Encode_string_map) auto
  ultimately show ?thesis by (auto simp: wire_def)
qed

lemma encodeAll_wire:
  assumes "list_all2 (\<lambda>v bs. wire X E reg v (w v) bs) vs bss"
  shows "encodeAll X E vs e = (Ok (), e\<lparr>ec_buffer := ec_buffer e @ concat bss\<rparr>)"
  using assms
proof (induction vs bss arbitrary: e rule: list_all2_induct)
  case (Cons v vs b bss)
  then show ?case by (simp add: wire_unique [OF Cons(1)] ignoring_def)
qed simp

lemma decItems_wire:
  assumes "list_all2 (\<lambda>v bs. wire X E reg v (w v) bs) vs bss" "\<And>v. v \<in> set vs \<Longrightarrow> size v \<le> n"
  shows "reads (decItems X (Decode X E reg (Suc n)) (length vs) arr) (concat bss) (arr @ map w vs)"
  using assms
proof (induction vs bss arbitrary: arr rule: list_all2_induct)
  case Nil
  show ?case by (simp add: reads_return)
next
  case (Cons v vs b bss)
  have "reads (Decode X E reg (Suc n)) b (w v)" using Cons(1) Cons.prems [of v] by (simp add: wire_def)
  then have "reads (\<lambda>d. otry (Decode X E reg (Suc n) d) (traced X [])
      (\<lambda>it d. decItems X (Decode X E reg (Suc n)) (length vs) (arr @ [it]) d)) (b @ concat bss) (arr @ map w (v # vs))"
    using Cons.IH [of "arr @ [w v]"] Cons.prems by (intro reads_otry [where a = "w v"]) auto
  then show ?case by (simp add: decItems.simps(2) [abs_def])
qed

lemma length_requestHeader: "length (requestHeader m) = 16"
  by (simp add: requestHeader_def DubboHeader_def DubboHeartbeatHeader_def Let_def)

lemma requestHeader_shape:
  "\<exists>f. requestHeader m = [MAGIC_HIGH, MAGIC_LOW, f OR ucast (m_ID m AND 0x1f), 0] @ put_be 8 (m_ID m) @ [0, 0, 0, 0] \<and>
     f = (if m_Type m = Heartbeat then 0xef else 0xc0)"
  by (simp add: requestHeader_def DubboHeader_def DubboHeartbeatHeader_def numeral_eq_Suc)

text \<open>The values that the body of a request holds.\<close>

definition request_values :: "((goval \<times> goval) list \<Rightarrow> (goval \<times> goval) list) \<Rightarrow> Message \<Rightarrow> byte list \<Rightarrow> goval list \<Rightarrow> goval list" where
  "request_values ord m types args =
     map VString [DUBBO_VERSION, m_Target m, m_Version m, m_Method m, types] @ args @
     [VMap TString (ord (serviceParams m))]"

definition request_reread :: "goval \<Rightarrow> dval" where
  "request_reread v = (case v of VMap t m \<Rightarrow> DMap (put_all (\<lambda>v. the (reread v)) [] m) | _ \<Rightarrow> the (reread v))"

lemma encodeAll_append: "encodeAll X E (vs @ ws) e = otry (encodeAll X E vs e) raise (\<lambda>_. encodeAll X E ws)"
proof (induction vs arbitrary: e)
  case (Cons v vs)
  then show ?case by (cases "Encode X E v e") (auto simp: ignoring_def otry_def split: outcome.splits)
qed simp

lemma packRequest_encoded:
  assumes "list_all2 (\<lambda>v bs. wire X E reg v (w v) bs) (request_values ord m types args) bss"
  shows "otry (encodeAll X E (map VString [DUBBO_VERSION, m_Target m, m_Version m, m_Method m])
        (Append (requestHeader m) (NewEncoder reg))) raise
      (\<lambda>_. encodeAll X E (VString types # args @ [VMap TString (ord (serviceParams m))])) =
    (Ok (), Append (requestHeader m @ concat bss) (NewEncoder reg))"
  using encodeAll_wire [OF assms, of "Append (requestHeader m) (NewEncoder reg)"]
  by (simp only: request_values_def encodeAll_append [symmetric]) (simp add: Append_def NewEncoder_def)

lemma packRequest_values:
  assumes "m_Type m \<noteq> Heartbeat" "getArgsTypeList args [] = Ok types"
    and "list_all2 (\<lambda>v bs. wire X E reg v (w v) bs) (request_values ord m types args) bss"
    and "16 + length (concat bss) \<le> DEFAULT_LEN"
    and "\<And>b. wr b = (length b, None)"
  shows "packRequest X E ord wr m (Some args) reg = (Ok (), (reg,
    Some (take 12 (requestHeader m) @ put_be 4 (of_nat (length (concat bss)) :: int32) @ concat bss)))"
  using assms(1,2,4) packRequest_encoded [OF assms(3)] length_requestHeader [of m]
  unfolding packRequest_def Let_def option.case
  by (simp add: assms(5) Append_def NewEncoder_def del: encodeAll.simps list.map)

lemma packRequest_too_large:
  assumes "m_Type m \<noteq> Heartbeat" "getArgsTypeList args [] = Ok types"
    and "list_all2 (\<lambda>v bs. wire X E reg v (w v) bs) (request_values ord m types args) bss"
    and "DEFAULT_LEN < 16 + length (concat bss)"
  shows "packRequest X E ord wr m (Some args) reg =
    (Err (Errorf ''Data length %d too large, max payload %d''), (reg, None))"
  using assms(1,2,4) packRequest_encoded [OF assms(3)] length_requestHeader [of m]
  unfolding packRequest_def Let_def option.case
  by (simp add: Append_def NewEncoder_def del: encodeAll.simps list.map)

lemma list_all2_choice: "(\<And>v. v \<in> set vs \<Longrightarrow> \<exists>bs. P v bs) \<Longrightarrow> \<exists>bss. list_all2 P vs bss"
proof (induction vs)
  case (Cons v vs)
  from Cons.prems [of v] obtain b where "P v b" by auto
  moreover from Cons obtain bss where "list_all2 P vs bss" by auto
  ultimately obtain b bss where "P v b" "list_all2 P vs bss" by blast
  then have "list_all2 P (v # vs) (b # bss)" by simp
  then show ?case ..
qed auto

lemma serviceParams_strings:
  "kv \<in> set (serviceParams m) \<Longrightarrow> (\<exists>s. fst kv = VString s) \<and> (\<exists>s. snd kv = VString s)"
  by (auto simp: serviceParams_def split: if_splits)

lemma request_values_wire:
  assumes "slice_ok X" "\<And>v. v \<in> set args \<Longrightarrow> reread v \<noteq> None" "set (ord (serviceParams m)) = set (serviceParams m)"
    and "v \<in> set (request_values ord m types args)"
  shows "\<exists>bs. wire X E reg v (request_reread v) bs"
proof -
  consider s where "v = VString s" | "v \<in> set args" | "v = VMap TString (ord (serviceParams m))"
    using assms(4) by (auto simp: request_values_def)
  then show ?thesis
  proof cases
    case 1
    then have "reread v = Some (request_reread v)" by (simp add: request_reread_def reread.simps)
    then show ?thesis by (rule reread_wire [OF assms(1)])
  next
    case 2
    then obtain w where w: "reread v = Some w" using assms(2) by blast
    moreover have "\<nexists>t m. v = VMap t m" using w by (auto simp: reread.simps [of "VMap _ _"])
    ultimately have "request_reread v = w" by (cases v) (simp_all add: request_reread_def)
    with w have "reread v = Some (request_reread v)" by simp
    then show ?thesis by (rule reread_wire [OF assms(1)])
  next
    case 3
    have "set (ord (serviceParams m)) \<noteq> {}" unfolding assms(3) by (simp add: serviceParams_def)
    then have "ord (serviceParams m) \<noteq> []" by auto
    then show ?thesis unfolding 3 request_reread_def goval.case
      using serviceParams_strings [of _ m] assms(3) by (intro string_map_wire [OF assms(1)]) auto
  qed
qed



text \<open>
  A heartbeat is the header with the event flag and a body of one null byte; its arguments are
  not looked at.
\<close>

theorem heartbeat_frame:
  assumes "m_Type m = Heartbeat" and "\<And>b. wr b = (length b, None)"
  shows "packRequest X E ord wr m (Some args) reg = (Ok (), (reg, Some
    ([MAGIC_HIGH, MAGIC_LOW, 0xef OR ucast (m_ID m AND 0x1f), 0] @ put_be 8 (m_ID m) @ [0, 0, 0, 1, BC_NULL])))"
proof -
  let ?e = "Append (requestHeader m) (NewEncoder reg)"
  have "encodeAll X E [VNil] ?e = (Ok (), Append (requestHeader m @ [BC_NULL]) (NewEncoder reg))"
    by (simp add: ignoring_def encode_scalar encNull_def upd_def Append_def NewEncoder_def)
  moreover have "put_be 4 (1 :: int32) = [0, 0, 0, 1]" by (simp add: put_be_4)
  moreover obtain h: "requestHeader m =
      [MAGIC_HIGH, MAGIC_LOW, 0xef OR ucast (m_ID m AND 0x1f), 0] @ put_be 8 (m_ID m) @ [0, 0, 0, 0]"
    using requestHeader_shape [of m] assms(1) by auto
  ultimately show ?thesis
    unfolding packRequest_def Let_def option.case
    using assms(1) by (simp add: assms(2) Append_def NewEncoder_def del: encodeAll.simps)
qed

theorem heartbeat_frame_witness:
  "snd (snd (packRequest ext0 \<lparr>ty_fields = (\<lambda>_. []), ty_EnumValue = (\<lambda>_ _. 0)\<rparr> (\<lambda>m. m) (\<lambda>b. (length b, None))
      \<lparr>m_ID = 0x20, m_Version = [], m_Type = Heartbeat, m_ServicePath = [], m_Target = [], m_Method = [],
        m_Timeout = 0, m_Error = [], m_Header = Map.empty, m_BodyLen = 0\<rparr> (Some []) pojoRegistry0)) =
   Some ([MAGIC_HIGH, MAGIC_LOW, 0xef, 0] @ put_be 8 (0x20 :: int64) @ [0, 0, 0, 1, BC_NULL])"
  by (subst heartbeat_frame) simp_all

section \<open>Responses\<close>

text \<open>
  A response header is accepted, and gives the id and the body length, when its serialization id is
  not 0, its request flag is clear and its status is OK; the two magic bytes are rejected only if both are wrong.
\<close>

theorem response_header:
  assumes "length h = 16" and "h ! 2 AND 0x1f \<noteq> 0" and "h ! 2 AND FLAG_REQUEST = 0" and "h ! 3 = Response_OK"
  shows "fst (unpackResponseHeaer h m) =
      (if h ! 0 \<noteq> MAGIC_HIGH \<and> h ! 1 \<noteq> MAGIC_LOW then Err ErrIllegalPackage else Ok ()) \<and>
    (h ! 0 = MAGIC_HIGH \<or> h ! 1 = MAGIC_LOW \<longrightarrow>
      m_ID (snd (unpackResponseHeaer h m)) = get_be (take 8 (drop 4 h)) \<and>
      m_BodyLen (snd (unpackResponseHeaer h m)) = uint (get_be (drop 12 h) :: int32))"
  using assms by (auto simp: unpackResponseHeaer_def at_def Let_def)

theorem response_header_witness:
  "fst (unpackResponseHeaer [0x00, MAGIC_LOW, 0x42, Response_OK, 0, 0, 0, 0, 0, 0, 0, 1, 0, 0, 0, 2]
     \<lparr>m_ID = 0, m_Version = [], m_Type = 0, m_ServicePath = [], m_Target = [], m_Method = [],
        m_Timeout = 0, m_Error = [], m_Header = Map.empty, m_BodyLen = 0\<rparr>) = Ok ()"
  using response_header [of "[0x00, MAGIC_LOW, 0x42, Response_OK, 0, 0, 0, 0, 0, 0, 0, 1, 0, 0, 0, 2]"
     "\<lparr>m_ID = 0, m_Version = [], m_Type = 0, m_ServicePath = [], m_Target = [], m_Method = [],
        m_Timeout = 0, m_Error = [], m_Header = Map.empty, m_BodyLen = 0\<rparr>"] by simp

text \<open>
  A response body longer than the 4096 bytes of the reader's buffer is never read, even when the
  connection has delivered all of it: \<^verbatim>\<open>ReadBody\<close> returns \<^verbatim>\<open>ErrBodyNotEnough\<close>, and the body stays in the input.
\<close>

theorem large_body_unreadable:
  assumes "hc_mt h = Response" and "4096 < hc_rspBodyLen h"
  shows "fst (hc_ReadBody X E reg n out h) = Err ErrBodyNotEnough \<and>
    content (hc_reader (snd (hc_ReadBody X E reg n out h))) = content (hc_reader h)"
proof -
  have "bufSize < nat (hc_rspBodyLen h)" using assms(2) by (simp add: bufSize_def)
  then have "snd (fst (Peek (nat (hc_rspBodyLen h)) (hc_reader h))) = Some ErrBufferFull"
    by (simp add: Peek_def Let_def)
  then show ?thesis using assms(1) Peek_content [of "nat (hc_rspBodyLen h)" "hc_reader h"]
    by (cases "Peek (nat (hc_rspBodyLen h)) (hc_reader h)") (auto simp: hc_ReadBody_def Let_def)
qed

theorem large_body_unreadable_witness:
  "fst (hc_ReadBody ext0 \<lparr>ty_fields = (\<lambda>_. []), ty_EnumValue = (\<lambda>_ _. 0)\<rparr> pojoRegistry0 9 (PtrTo TString)
     ((NewCodec [])\<lparr>hc_mt := Response, hc_rspBodyLen := 5000\<rparr>)) = Err ErrBodyNotEnough"
  using large_body_unreadable [of "(NewCodec [])\<lparr>hc_mt := Response, hc_rspBodyLen := 5000\<rparr>" ext0
      "\<lparr>ty_fields = (\<lambda>_. []), ty_EnumValue = (\<lambda>_ _. 0)\<rparr>" pojoRegistry0 9 "PtrTo TString"]
  by (simp add: NewCodec_def)

text \<open>
  A list result is copied only into a slice of structs or of interfaces: for any other element type
  a non-empty list is an error, since the element is wrapped in a \<^verbatim>\<open>reflect.Value\<close> first.
\<close>

theorem slice_result_rejected:
  assumes "xs \<noteq> []" and "\<not> struct_kind et" and "et \<noteq> TInterface"
  shows "ReflectResponse (DList xs) (PtrTo (TSlice et)) =
    Err (Errorf ''in element type %s can not assign to out element type %s'')"
  using assms by (cases xs) (simp_all add: ReflectResponse_def cpSlice_def)

theorem slice_result_rejected_witness:
  "ReflectResponse (DList [DString [0x61]]) (PtrTo (TSlice TString)) =
    Err (Errorf ''in element type %s can not assign to out element type %s'')"
  by (rule slice_result_rejected) (simp_all add: struct_kind_def)

end
