(* ===== verification/Transport_Tcp.thy ===== *)
theory Transport_Tcp
  imports Go_Strings
begin

text \<open>
  The tcp transport, \<^verbatim>\<open>transport/tcp_transport.go\<close>, with the package type of \<^verbatim>\<open>transport/transport.go\<close> and
  the search for a free port that it shares with the http transport. A connection of \<^verbatim>\<open>net\<close> delivers
  a list of chunks, one or a part of one per read, and then the end of the stream; writing is a
  function of the connection that gives the number of bytes taken and an error. Timeouts and the
  addresses of a connection are left out.
\<close>

section \<open>Packages and connections\<close>

record Package =
  pk_Header :: "(string \<rightharpoonup> string) option"
  pk_Body :: "byte list"

text \<open>\<^verbatim>\<open>Reset\<close> empties the body and deletes every entry of the header, which stays nil if it was.\<close>

definition pk_Reset :: "Package \<Rightarrow> Package" where
  "pk_Reset m = m\<lparr>pk_Body := [], pk_Header := map_option (\<lambda>_. Map.empty) (pk_Header m)\<rparr>"

record netConn =
  nc_in :: "byte list list"
  nc_out :: "byte list"
  nc_write :: "byte list \<Rightarrow> nat \<times> goerr option"
  nc_closed :: bool

text \<open>Reading into \<open>n\<close> bytes; an empty buffer is filled at once.\<close>

definition conn_Read :: "nat \<Rightarrow> netConn \<Rightarrow> byte list outcome \<times> netConn" where
  "conn_Read n c =
     (if nc_closed c then (Err (Errorf ''use of closed network connection''), c)
      else if n = 0 then (Ok [], c)
      else (case nc_in c of
        [] \<Rightarrow> (Err EOF, c)
      | bs # rest \<Rightarrow> (Ok (take n bs), c\<lparr>nc_in := if length bs \<le> n then rest else drop n bs # rest\<rparr>)))"

definition conn_Write :: "byte list \<Rightarrow> netConn \<Rightarrow> (nat \<times> goerr option) \<times> netConn" where
  "conn_Write bs c =
     (if nc_closed c then ((0, Some (Errorf ''use of closed network connection'')), c)
      else (nc_write c bs, c\<lparr>nc_out := nc_out c @ take (fst (nc_write c bs)) bs\<rparr>))"

definition conn_Close :: "netConn \<Rightarrow> unit outcome \<times> netConn" where
  "conn_Close c =
     (if nc_closed c then (Err (Errorf ''use of closed network connection''), c) else (Ok (), c\<lparr>nc_closed := True\<rparr>))"

section \<open>The client\<close>

definition ErrShortWrite :: goerr where
  "ErrShortWrite = Errorf ''short write''"

definition tcp_Send :: "ext \<Rightarrow> Package \<Rightarrow> netConn \<Rightarrow> unit outcome \<times> netConn" where
  "tcp_Send X p c = (case conn_Write (pk_Body p) c of
     ((n, Some e), c) \<Rightarrow> traced X () e c
   | ((n, None), c) \<Rightarrow>
       if n < length (pk_Body p) then
         (ret () (je_Annotatef X ''t.conn.Write(buf len:%d) = len:%d'' (Some ErrShortWrite)), c)
       else (Ok (), c))"

definition tcp_read :: "ext \<Rightarrow> Package \<Rightarrow> netConn \<Rightarrow> Package outcome \<times> netConn" where
  "tcp_read X p c =
     otry (conn_Read 4096 c) (traced X p)
       (\<lambda>buf c. if buf = [] then (Err EOF, c) else (Ok (p\<lparr>pk_Body := pk_Body p @ buf\<rparr>), c))"

definition tcp_Recv :: "ext \<Rightarrow> Package \<Rightarrow> netConn \<Rightarrow> Package outcome \<times> netConn" where
  "tcp_Recv X p c = otry (tcp_read X p c) (traced X p) (\<lambda>p c. (ret p (je_Trace X None), c))"

definition tcp_Close :: "ext \<Rightarrow> netConn \<Rightarrow> unit outcome \<times> netConn" where
  "tcp_Close X c = otry (conn_Close c) (traced X ()) (\<lambda>u c. (ret u (je_Trace X None), c))"

section \<open>The socket of the server\<close>

text \<open>
  \<^verbatim>\<open>Recv\<close> reads into the body that it is given, as many bytes as that has, and ignores the outcome.
\<close>

definition sock_Recv :: "Package option \<Rightarrow> netConn \<Rightarrow> Package outcome \<times> netConn" where
  "sock_Recv po c = (case po of
     None \<Rightarrow> (Err (Errorf ''message passed in is nil''), c)
   | Some p \<Rightarrow>
       (case conn_Read (length (pk_Body p)) c of
          (Ok bs, c) \<Rightarrow> (Ok (p\<lparr>pk_Body := bs @ drop (length bs) (pk_Body p)\<rparr>), c)
        | (_, c) \<Rightarrow> (Ok p, c)))"

definition sock_Send :: "ext \<Rightarrow> Package \<Rightarrow> netConn \<Rightarrow> unit outcome \<times> netConn" where
  "sock_Send X p c = (case conn_Write (pk_Body p) c of
     ((n, Some e), c) \<Rightarrow> traced X () e c
   | ((n, None), c) \<Rightarrow>
       if n < length (pk_Body p) then
         (ret () (je_Annotatef X ''t.conn.Write(buf len:%d) = len:%d'' (Some ErrShortWrite)), c)
       else (Ok (), c))"

definition sock_Close :: "ext \<Rightarrow> netConn \<Rightarrow> unit outcome \<times> netConn" where
  "sock_Close X c = otry (conn_Close c) (traced X ()) (\<lambda>u c. (ret u (je_Trace X None), c))"

text \<open>\<^verbatim>\<open>Reset\<close> closes the old connection and takes the new one.\<close>

definition sock_Reset :: "ext \<Rightarrow> netConn \<Rightarrow> netConn \<Rightarrow> netConn \<times> netConn" where
  "sock_Reset X new c = (snd (sock_Close X c), new)"

section \<open>The listener\<close>

text \<open>
  \<^verbatim>\<open>Accept\<close> of a listener, on what its \<^verbatim>\<open>listener.Accept()\<close> returns one after the other: a connection, a
  temporary error or a final one. \<open>sem\<close> counts the acquired slots; a socket is given its release, which
  the tcp socket never calls. The result is the sockets that were served and the delays that were
  waited (in nanoseconds).
\<close>

datatype acceptRes = Accepted netConn | TempErr goerr | FinalErr goerr

definition next_delay :: "int \<Rightarrow> int" where
  "next_delay d = (let d = (if d \<noteq> 0 then 2 * d else 5000000) in if d > 1000000000 then 1000000000 else d)"

fun Accept_loop ::
  "ext \<Rightarrow> int \<Rightarrow> acceptRes list \<Rightarrow> nat \<Rightarrow> unit outcome \<times> netConn list \<times> int list \<times> nat" where
  "Accept_loop X d [] sem = (NoFuel, [], [], sem + 1)"
| "Accept_loop X d (Accepted c # rs) sem =
     (case Accept_loop X d rs (sem + 1) of (res, cs, ds, sem) \<Rightarrow> (res, c # cs, ds, sem))"
| "Accept_loop X d (TempErr e # rs) sem =
     (case Accept_loop X (next_delay d) rs sem of (res, cs, ds, sem) \<Rightarrow> (res, cs, next_delay d # ds, sem))"
| "Accept_loop X d (FinalErr e # rs) sem = (ret () (je_Trace X (Some e)), [], [], sem)"

section \<open>Finding a port\<close>

text \<open>
  \<^verbatim>\<open>listen\<close>. \<open>fn\<close> binds an address. The host is a list of strings, which \<^verbatim>\<open>%s\<close> prints between brackets.
\<close>

definition host_string :: "string list \<Rightarrow> string" where
  "host_string parts = ''['' @ Join (CHR '' '') parts @ '']''"

function listen_loop ::
  "ext \<Rightarrow> (string \<Rightarrow> 'l outcome) \<Rightarrow> string list \<Rightarrow> int \<Rightarrow> int \<Rightarrow> string \<Rightarrow> 'l outcome" where
  "listen_loop X fn host port mx addr =
     (if mx < port then Err (Errorf ''unable to bind to %s'')
      else (case fn (host_string host @ '':'' @ itoa port) of
        Ok ln \<Rightarrow> Ok ln
      | Err e \<Rightarrow>
          if port = mx then (case je_Trace X (Some e) of None \<Rightarrow> Panic | Some e \<Rightarrow> Err e)
          else listen_loop X fn host (port + 1) mx addr
      | Panic \<Rightarrow> Panic | NoFuel \<Rightarrow> NoFuel))"
  by pat_completeness auto
termination
  by (relation "measure (\<lambda>(X, fn, host, port, mx, addr). nat (mx + 1 - port))") auto

declare listen_loop.simps [simp del]

definition listen_port :: "ext \<Rightarrow> (string \<Rightarrow> 'l outcome) \<Rightarrow> string \<Rightarrow> 'l outcome" where
  "listen_port X fn addr = (let parts = Split (CHR '':'') addr in
     if length parts < 2 then fn addr
     else (let ports = Split (CHR ''-'') (last parts) in
       if length ports < 2 then fn addr
       else (case Atoi (ports ! 0) of
         None \<Rightarrow> Err (Errorf ''unable to extract port range'')
       | Some mn \<Rightarrow> (case Atoi (ports ! 1) of
         None \<Rightarrow> Err (Errorf ''unable to extract port range'')
       | Some mx \<Rightarrow> listen_loop X fn (butlast parts) mn mx addr))))"

section \<open>Dialling and listening\<close>

text \<open>The options of \<^verbatim>\<open>transport/options.go\<close>, without the contexts; durations are in nanoseconds.\<close>

record tOptions =
  to_Addrs :: "string list"
  to_Timeout :: int

record DialOptions =
  do_Stream :: bool
  do_Timeout :: int
  do_Path :: string

definition opt_Timeout :: "int \<Rightarrow> tOptions \<Rightarrow> tOptions" where
  "opt_Timeout t o' = o'\<lparr>to_Timeout := t\<rparr>"

definition opt_Addrs :: "string list \<Rightarrow> tOptions \<Rightarrow> tOptions" where
  "opt_Addrs addrs o' = o'\<lparr>to_Addrs := addrs\<rparr>"

definition WithStream :: "DialOptions \<Rightarrow> DialOptions" where
  "WithStream o' = o'\<lparr>do_Stream := True\<rparr>"

definition WithTimeout :: "int \<Rightarrow> DialOptions \<Rightarrow> DialOptions" where
  "WithTimeout d o' = o'\<lparr>do_Timeout := d\<rparr>"

definition WithPath :: "string \<Rightarrow> DialOptions \<Rightarrow> DialOptions" where
  "WithPath path o' = o'\<lparr>do_Path := path\<rparr>"

definition DefaultDialTimeout :: int where "DefaultDialTimeout = 5000000000"

text \<open>The options of a call of \<^verbatim>\<open>Dial\<close>, and those of a transport.\<close>

definition dial_options :: "(DialOptions \<Rightarrow> DialOptions) list \<Rightarrow> DialOptions" where
  "dial_options opts = fold (\<lambda>f. f) opts \<lparr>do_Stream = False, do_Timeout = DefaultDialTimeout, do_Path = []\<rparr>"

definition newTCPTransport :: "(tOptions \<Rightarrow> tOptions) list \<Rightarrow> tOptions" where
  "newTCPTransport opts = fold (\<lambda>f. f) opts \<lparr>to_Addrs = [], to_Timeout = 0\<rparr>"

text \<open>\<open>dial\<close> and \<open>listen\<close> are those of \<^verbatim>\<open>net\<close>; a listener has a queue of slots, none of which is taken at first.\<close>

definition tcp_Dial :: "ext \<Rightarrow> (string \<Rightarrow> int \<Rightarrow> netConn outcome) \<Rightarrow> string \<Rightarrow> (DialOptions \<Rightarrow> DialOptions) list \<Rightarrow> netConn outcome" where
  "tcp_Dial X dial addr opts = (case dial addr (do_Timeout (dial_options opts)) of
     Ok conn \<Rightarrow> Ok conn
   | Err e \<Rightarrow> (case je_Trace X (Some e) of None \<Rightarrow> Panic | Some e \<Rightarrow> Err e)
   | Panic \<Rightarrow> Panic | NoFuel \<Rightarrow> NoFuel)"

record 'l tcpTransportListener =
  tl_listener :: 'l
  tl_sem :: nat

definition initTCPTransportListener :: "'l \<Rightarrow> 'l tcpTransportListener" where
  "initTCPTransportListener l = \<lparr>tl_listener = l, tl_sem = 0\<rparr>"

definition tcp_Listen :: "ext \<Rightarrow> (string \<Rightarrow> 'l outcome) \<Rightarrow> string \<Rightarrow> 'l tcpTransportListener outcome" where
  "tcp_Listen X listen addr = (case listen_port X listen addr of
     Ok l \<Rightarrow> Ok (initTCPTransportListener l)
   | Err e \<Rightarrow> (case je_Trace X (Some e) of None \<Rightarrow> Panic | Some e \<Rightarrow> Err e)
   | Panic \<Rightarrow> Panic | NoFuel \<Rightarrow> NoFuel)"

definition tcp_String :: string where "tcp_String = ''tcp-transport''"

section \<open>The first free port\<close>

text \<open>Whether an address can be bound.\<close>

definition binds :: "(string \<Rightarrow> 'l outcome) \<Rightarrow> string \<Rightarrow> bool" where
  "binds fn a \<longleftrightarrow> (\<exists>l. fn a = Ok l)"

lemma listen_loop_spec:
  assumes "trace_ok X" "\<And>a. binds fn a \<or> (\<exists>e. fn a = Err e)" "mn \<le> mx"
  shows "case filter (\<lambda>p. binds fn (host_string hs @ '':'' @ itoa p)) [mn..mx] of
      [] \<Rightarrow> \<exists>e. listen_loop X fn hs mn mx addr = Err e
    | p # _ \<Rightarrow> listen_loop X fn hs mn mx addr = fn (host_string hs @ '':'' @ itoa p)"
  using assms(3)
proof (induction "nat (mx - mn)" arbitrary: mn)
  case 0
  then have "mn = mx" by simp
  then show ?case using assms(2) [of "host_string hs @ '':'' @ itoa mx"] trace_okD(2) [OF assms(1)]
    by (auto simp: listen_loop.simps [of X fn hs mx mx addr] binds_def split: option.splits)
next
  case (Suc n)
  have lt: "mn < mx" "mn + 1 \<le> mx" "n = nat (mx - (mn + 1))" using Suc(2,3) by auto
  note IH = Suc(1) [OF lt(3,2)]
  have u: "[mn..mx] = mn # [mn + 1..mx]" using lt by (simp add: upto_rec1)
  let ?a = "host_string hs @ '':'' @ itoa mn"
  show ?case
  proof (cases "binds fn ?a")
    case True
    then show ?thesis using lt by (auto simp: listen_loop.simps [of X fn hs mn mx addr] u binds_def)
  next
    case False
    then obtain e where "fn ?a = Err e" using assms(2) [of ?a] by blast
    then have "listen_loop X fn hs mn mx addr = listen_loop X fn hs (mn + 1) mx addr"
      using lt by (simp add: listen_loop.simps [of X fn hs mn mx addr])
    then show ?thesis using IH False by (simp add: u split: list.splits)
  qed
qed

section \<open>Properties\<close>

text \<open>
  C33: Listening on a range of ports is the search for the first port of the range that can be bound:
  the result is that of binding it, and an error if there is none. The host is put in brackets.
\<close>

theorem listen_first_free:
  assumes "trace_ok X" and "\<And>a. binds fn a \<or> (\<exists>e. fn a = Err e)"
    and "CHR '':'' \<notin> set host" and "0 \<le> mn" and "mn \<le> mx" and "mx < 2 ^ 63"
  shows "case filter (\<lambda>p. binds fn (''['' @ host @ '']:'' @ itoa p)) [mn..mx] of
      [] \<Rightarrow> \<exists>e. listen_port X fn (host @ '':'' @ itoa mn @ ''-'' @ itoa mx) = Err e
    | p # _ \<Rightarrow> listen_port X fn (host @ '':'' @ itoa mn @ ''-'' @ itoa mx) = fn (''['' @ host @ '']:'' @ itoa p)"
proof -
  have c: "CHR '':'' \<notin> set (itoa mn @ ''-'' @ itoa mx)" "CHR ''-'' \<notin> set (itoa mn)" "CHR ''-'' \<notin> set (itoa mx)"
    using itoa_chars [of mn] itoa_chars [of mx] assms(4,5) by auto
  have s1: "Split (CHR '':'') (host @ '':'' @ itoa mn @ ''-'' @ itoa mx) = [host, itoa mn @ ''-'' @ itoa mx]"
    using Split_append [OF assms(3)] Split_word [OF c(1)] by simp
  have s2: "Split (CHR ''-'') (itoa mn @ ''-'' @ itoa mx) = [itoa mn, itoa mx]"
    using Split_append [OF c(2)] Split_word [OF c(3)] by simp
  have "listen_port X fn (host @ '':'' @ itoa mn @ ''-'' @ itoa mx) =
      listen_loop X fn [host] mn mx (host @ '':'' @ itoa mn @ ''-'' @ itoa mx)"
    unfolding listen_port_def s1 Let_def using s2 Atoi_itoa [of mn] Atoi_itoa [of mx] assms(4-6) by simp
  moreover have "host_string [host] @ '':'' @ itoa p = ''['' @ host @ '']:'' @ itoa p" for p
    by (simp add: host_string_def)
  ultimately show ?thesis using listen_loop_spec [OF assms(1,2,5), of "[host]" "host @ '':'' @ itoa mn @ ''-'' @ itoa mx"]
    by (simp split: list.splits)
qed

theorem listen_first_free_witness:
  "listen_port ext0 (\<lambda>a. if a = ''[h]:8'' then Ok a else Err EOF) (''h:'' @ itoa 7 @ ''-'' @ itoa 9) = Ok ''[h]:8''"
proof -
  let ?fn = "\<lambda>a. if a = ''[h]:8'' then Ok a else Err EOF"
  have i: "itoa 7 = ''7''" "itoa 8 = ''8''" "itoa 9 = ''9''" by code_simp+
  have u: "[7..9 :: int] = [7, 8, 9]" by (simp add: upto_rec1)
  show ?thesis
    using listen_first_free [OF ext0_ok(2), of ?fn "''h''" 7 9] by (simp add: u i binds_def)
qed

end
