(* ===== verification/Client_Codec.thy ===== *)
theory Client_Codec
  imports Hessian_Frame Registry_Url Transport_Tcp
begin

text \<open>
  How the client turns a request into packages and packages into a response: \<^verbatim>\<open>client/rpc_codec.go\<close> and
  \<^verbatim>\<open>client/rpc_stream.go\<close>. The transport client and the codec are interfaces there and records of
  functions here. A codec reads from a buffer that the client fills: \<open>cd_feed\<close> writes to that buffer
  and \<open>cd_reset\<close> empties it.
\<close>

section \<open>Interfaces\<close>

record 't transportClient =
  tc_Send :: "Package \<Rightarrow> 't \<Rightarrow> unit outcome \<times> 't"
  tc_Recv :: "Package \<Rightarrow> 't \<Rightarrow> Package outcome \<times> 't"
  tc_Close :: "'t \<Rightarrow> unit outcome \<times> 't"

record ('k, 'a, 'o, 'v) codecIf =
  cd_Write :: "Message \<Rightarrow> 'a \<Rightarrow> 'k \<Rightarrow> (Message \<times> byte list) outcome \<times> 'k"
  cd_ReadHeader :: "int64 \<Rightarrow> 'k \<Rightarrow> Message outcome \<times> 'k"
  cd_ReadBody :: "'o option \<Rightarrow> 'k \<Rightarrow> 'v outcome \<times> 'k"
  cd_feed :: "byte list \<Rightarrow> 'k \<Rightarrow> 'k"
  cd_reset :: "'k \<Rightarrow> 'k"
  cd_Close :: "'k \<Rightarrow> 'k"

section \<open>The codec of the client\<close>

record ('t, 'k) rpcCodec =
  rc_client :: 't
  rc_codec :: 'k
  rc_pkg :: Package

record request =
  rq_Version :: "byte list"
  rq_ServicePath :: "byte list"
  rq_Service :: "byte list"
  rq_ServiceMethod :: "byte list"
  rq_Seq :: int64
  rq_Timeout :: int

record response =
  rs_ServiceMethod :: "byte list"
  rs_Seq :: int64
  rs_Error :: "byte list"

definition newRPCCodec :: "Package \<Rightarrow> 't \<Rightarrow> 'k \<Rightarrow> ('t, 'k) rpcCodec" where
  "newRPCCodec req client c = \<lparr>rc_client = client, rc_codec = c, rc_pkg = req\<rparr>"

text \<open>The header of the message that the codec has filled; its names and values are bytes.\<close>

definition add_header :: "(byte list \<rightharpoonup> byte list) \<Rightarrow> (string \<rightharpoonup> string) \<Rightarrow> string \<rightharpoonup> string" where
  "add_header m h = (\<lambda>k. case m (str k) of None \<Rightarrow> h k | Some v \<Rightarrow> Some (chars v))"

definition request_message :: "request \<Rightarrow> Message" where
  "request_message req = Message0\<lparr>m_ID := rq_Seq req, m_Version := rq_Version req, m_ServicePath := rq_ServicePath req,
     m_Target := rq_Service req, m_Method := rq_ServiceMethod req, m_Timeout := rq_Timeout req, m_Type := Request\<rparr>"

definition WriteRequest ::
  "ext \<Rightarrow> 't transportClient \<Rightarrow> ('k, 'a, 'o, 'v) codecIf \<Rightarrow> request \<Rightarrow> 'a \<Rightarrow> ('t, 'k) rpcCodec
   \<Rightarrow> unit outcome \<times> ('t, 'k) rpcCodec" where
  "WriteRequest X T C req args c = (case cd_Write C (request_message req) args (rc_codec c) of
     (Err e, k) \<Rightarrow> traced X () e (c\<lparr>rc_codec := k\<rparr>)
   | (Ok (m, bytes), k) \<Rightarrow>
       (let pkg = (rc_pkg c)\<lparr>pk_Body := bytes, pk_Header := map_option (add_header (m_Header m)) (pk_Header (rc_pkg c))\<rparr>
        in case tc_Send T pkg (rc_client c) of
             (Err e, t) \<Rightarrow> traced X () e (c\<lparr>rc_codec := k, rc_pkg := pkg, rc_client := t\<rparr>)
           | (Ok u, t) \<Rightarrow> (ret u (je_Trace X None), c\<lparr>rc_codec := k, rc_pkg := pkg, rc_client := t\<rparr>)
           | (Panic, t) \<Rightarrow> (Panic, c) | (NoFuel, t) \<Rightarrow> (NoFuel, c))
   | (Panic, k) \<Rightarrow> (Panic, c) | (NoFuel, k) \<Rightarrow> (NoFuel, c))"

definition ErrHeaderNotEnough :: goerr where
  "ErrHeaderNotEnough = Errorf ''header buffer too short''"

text \<open>
  The loop of \<^verbatim>\<open>ReadResponseHeader\<close>: receive a package, give its body to the codec, try again if the header
  is not complete. The number bounds the rounds.
\<close>

fun ReadResponseHeader_loop ::
  "ext \<Rightarrow> 't transportClient \<Rightarrow> ('k, 'a, 'o, 'v) codecIf \<Rightarrow> nat \<Rightarrow> Package \<Rightarrow> ('t, 'k) rpcCodec
   \<Rightarrow> response outcome \<times> ('t, 'k) rpcCodec" where
  "ReadResponseHeader_loop X T C 0 p c = (NoFuel, c)"
| "ReadResponseHeader_loop X T C (Suc n) p c = (case tc_Recv T (pk_Reset p) (rc_client c) of
     (Err e, t) \<Rightarrow> traced X \<lparr>rs_ServiceMethod = [], rs_Seq = 0, rs_Error = []\<rparr> e (c\<lparr>rc_client := t\<rparr>)
   | (Ok p, t) \<Rightarrow>
       (case cd_ReadHeader C Response (cd_feed C (pk_Body p) (rc_codec c)) of
          (Ok m, k) \<Rightarrow>
            (ret \<lparr>rs_ServiceMethod = m_Method m, rs_Seq = m_ID m, rs_Error = m_Error m\<rparr> (je_Trace X None),
             c\<lparr>rc_client := t, rc_codec := k\<rparr>)
        | (Err e, k) \<Rightarrow>
            if e = ErrHeaderNotEnough then ReadResponseHeader_loop X T C n p (c\<lparr>rc_client := t, rc_codec := k\<rparr>)
            else traced X \<lparr>rs_ServiceMethod = [], rs_Seq = 0, rs_Error = []\<rparr> e (c\<lparr>rc_client := t, rc_codec := k\<rparr>)
        | (Panic, k) \<Rightarrow> (Panic, c) | (NoFuel, k) \<Rightarrow> (NoFuel, c))
   | (Panic, t) \<Rightarrow> (Panic, c) | (NoFuel, t) \<Rightarrow> (NoFuel, c))"

definition empty_package :: Package where
  "empty_package = \<lparr>pk_Header = None, pk_Body = []\<rparr>"

definition ReadResponseHeader ::
  "ext \<Rightarrow> 't transportClient \<Rightarrow> ('k, 'a, 'o, 'v) codecIf \<Rightarrow> nat \<Rightarrow> ('t, 'k) rpcCodec
   \<Rightarrow> response outcome \<times> ('t, 'k) rpcCodec" where
  "ReadResponseHeader X T C n c =
     ReadResponseHeader_loop X T C n empty_package (c\<lparr>rc_codec := cd_reset C (rc_codec c)\<rparr>)"

text \<open>The loop of \<^verbatim>\<open>ReadResponseBody\<close>: while the codec reports that the body is not complete, receive more.\<close>

fun ReadResponseBody ::
  "ext \<Rightarrow> 't transportClient \<Rightarrow> ('k, 'a, 'o, 'v) codecIf \<Rightarrow> nat \<Rightarrow> 'o option \<Rightarrow> Package \<Rightarrow> ('t, 'k) rpcCodec
   \<Rightarrow> 'v outcome \<times> ('t, 'k) rpcCodec" where
  "ReadResponseBody X T C 0 b p c = (NoFuel, c)"
| "ReadResponseBody X T C (Suc n) b p c = (case cd_ReadBody C b (rc_codec c) of
     (Ok v, k) \<Rightarrow> (ret v (je_Trace X None), c\<lparr>rc_codec := k\<rparr>)
   | (Err e, k) \<Rightarrow>
       if e \<noteq> ErrBodyNotEnough then
         ((case je_Trace X (Some e) of Some e \<Rightarrow> Err e | None \<Rightarrow> Panic), c\<lparr>rc_codec := k\<rparr>)
       else (case tc_Recv T (pk_Reset p) (rc_client c) of
         (Err e, t) \<Rightarrow>
           ((case je_Trace X (Some e) of Some e \<Rightarrow> Err e | None \<Rightarrow> Panic), c\<lparr>rc_codec := k, rc_client := t\<rparr>)
       | (Ok p, t) \<Rightarrow>
           ReadResponseBody X T C n b p (c\<lparr>rc_client := t, rc_codec := cd_feed C (pk_Body p) k\<rparr>)
       | (Panic, t) \<Rightarrow> (Panic, c) | (NoFuel, t) \<Rightarrow> (NoFuel, c))
   | (Panic, k) \<Rightarrow> (Panic, c) | (NoFuel, k) \<Rightarrow> (NoFuel, c))"

definition rpcCodec_Close ::
  "'t transportClient \<Rightarrow> ('k, 'a, 'o, 'v) codecIf \<Rightarrow> ('t, 'k) rpcCodec \<Rightarrow> unit outcome \<times> ('t, 'k) rpcCodec" where
  "rpcCodec_Close T C c = (case tc_Close T (rc_client c) of (res, t) \<Rightarrow>
     (res, c\<lparr>rc_codec := cd_Close C (cd_reset C (rc_codec c)), rc_client := t\<rparr>))"

section \<open>Streams\<close>

record ('t, 'k) rpcStream =
  st_seq :: int64
  st_closed :: bool
  st_err :: "goerr option"
  st_codec :: "('t, 'k) rpcCodec"

definition errShutdown :: goerr where
  "errShutdown = Errorf ''connection is shut down''"

text \<open>
  \<^verbatim>\<open>Send\<close>. Of the request only the version, the service and the method are used, of the service its path.
\<close>

definition st_Send ::
  "ext \<Rightarrow> 't transportClient \<Rightarrow> ('k, 'a, 'o, 'v) codecIf \<Rightarrow> string \<Rightarrow> string \<Rightarrow> string \<Rightarrow> string \<Rightarrow> 'a \<Rightarrow> int \<Rightarrow> ('t, 'k) rpcStream
   \<Rightarrow> unit outcome \<times> ('t, 'k) rpcStream" where
  "st_Send X T C version service method path args timeout r =
     (if st_closed r then (Err errShutdown, r\<lparr>st_err := Some errShutdown\<rparr>)
      else
        (let seq = st_seq r; r = r\<lparr>st_seq := st_seq r + 1\<rparr>;
             req = \<lparr>rq_Version = str version, rq_ServicePath = str (TrimPrefix path ''/''), rq_Service = str service,
                    rq_ServiceMethod = str method, rq_Seq = seq, rq_Timeout = timeout\<rparr>
         in case WriteRequest X T C req args (st_codec r) of
              (Ok u, c) \<Rightarrow> (Ok u, r\<lparr>st_codec := c\<rparr>)
            | (Err e, c) \<Rightarrow> traced X () e (r\<lparr>st_codec := c, st_err := Some e\<rparr>)
            | (Panic, c) \<Rightarrow> (Panic, r\<lparr>st_codec := c\<rparr>) | (NoFuel, c) \<Rightarrow> (NoFuel, r\<lparr>st_codec := c\<rparr>)))"

text \<open>The error of a response: the text of the server, or the end of a stream.\<close>

definition response_error :: "byte list \<Rightarrow> goerr" where
  "response_error e = (if e \<noteq> str ''EOS'' then Errorf (chars e) else EOF)"

text \<open>
  \<^verbatim>\<open>Recv\<close>. The error of the stream stays: once it is set, every later \<^verbatim>\<open>Recv\<close> that gets as far as a header
  returns it. The value is what was read, \<open>None\<close> for a response with an error.
\<close>

definition st_Recv ::
  "ext \<Rightarrow> 't transportClient \<Rightarrow> ('k, 'a, 'o, 'v) codecIf \<Rightarrow> nat \<Rightarrow> 'o option \<Rightarrow> ('t, 'k) rpcStream
   \<Rightarrow> 'v option outcome \<times> ('t, 'k) rpcStream" where
  "st_Recv X T C n msg r =
     (if st_closed r then (Err errShutdown, r\<lparr>st_err := Some errShutdown\<rparr>)
      else (case ReadResponseHeader X T C n (st_codec r) of
        (Err e, c) \<Rightarrow>
          if e = EOF then (Err ErrUnexpectedEOF, r\<lparr>st_codec := c, st_err := Some ErrUnexpectedEOF\<rparr>)
          else traced X None e (r\<lparr>st_codec := c, st_err := Some e\<rparr>)
      | (Ok rsp, c) \<Rightarrow>
          (let failed = rs_Error rsp \<noteq> [];
               err = (if failed then Some (response_error (rs_Error rsp)) else st_err r)
           in case ReadResponseBody X T C n (if failed then None else msg) empty_package c of
                (Ok v, c) \<Rightarrow> (ret (if failed then None else Some v) err, r\<lparr>st_codec := c, st_err := err\<rparr>)
              | (Err e, c) \<Rightarrow>
                  (let err = je_Trace X (Some e) in (ret None err, r\<lparr>st_codec := c, st_err := err\<rparr>))
              | (Panic, c) \<Rightarrow> (Panic, r\<lparr>st_codec := c\<rparr>) | (NoFuel, c) \<Rightarrow> (NoFuel, r\<lparr>st_codec := c\<rparr>))
      | (Panic, c) \<Rightarrow> (Panic, r\<lparr>st_codec := c\<rparr>) | (NoFuel, c) \<Rightarrow> (NoFuel, r\<lparr>st_codec := c\<rparr>)))"

definition st_Close ::
  "'t transportClient \<Rightarrow> ('k, 'a, 'o, 'v) codecIf \<Rightarrow> ('t, 'k) rpcStream \<Rightarrow> unit outcome \<times> ('t, 'k) rpcStream" where
  "st_Close T C r =
     (if st_closed r then (Ok (), r)
      else (case rpcCodec_Close T C (st_codec r) of (res, c) \<Rightarrow> (res, r\<lparr>st_closed := True, st_codec := c\<rparr>)))"

section \<open>The instances\<close>

text \<open>The tcp client as a transport client.\<close>

definition tcpClient :: "ext \<Rightarrow> netConn transportClient" where
  "tcpClient X = \<lparr>tc_Send = tcp_Send X, tc_Recv = tcp_Recv X, tc_Close = tcp_Close X\<rparr>"

text \<open>
  The Hessian codec as the codec of a client. What the client has received but the codec has not
  fetched yet is the source of the codec's reader.
\<close>

definition hessianIf ::
  "ext \<Rightarrow> tyenv \<Rightarrow> ((goval \<times> goval) list \<Rightarrow> (goval \<times> goval) list) \<Rightarrow> POJORegistry \<Rightarrow> nat
   \<Rightarrow> (hessianCodec, goval list option, target, dval option) codecIf" where
  "hessianIf X E ord reg fuel = \<lparr>
     cd_Write = (\<lambda>m a k. (case hc_Write X E ord (\<lambda>bs. (length bs, None)) m a reg of
        (Ok _, _, bs) \<Rightarrow> (Ok (m, case bs of None \<Rightarrow> [] | Some bs \<Rightarrow> bs), k)
      | (Err e, _) \<Rightarrow> (Err e, k) | (Panic, _) \<Rightarrow> (Panic, k) | (NoFuel, _) \<Rightarrow> (NoFuel, k))),
     cd_ReadHeader = (\<lambda>mt k. (case hc_ReadHeader X Message0 mt k of
        (Ok _, m, k) \<Rightarrow> (Ok m, k) | (Err e, _, k) \<Rightarrow> (Err e, k) | (Panic, _, k) \<Rightarrow> (Panic, k) | (NoFuel, _, k) \<Rightarrow> (NoFuel, k))),
     cd_ReadBody = (\<lambda>b k. hc_ReadBody X E reg fuel (case b of None \<Rightarrow> NilTarget | Some t \<Rightarrow> t) k),
     cd_feed = (\<lambda>bs k. k\<lparr>hc_reader := (hc_reader k)\<lparr>rd_src := rd_src (hc_reader k) @ bs\<rparr>\<rparr>),
     cd_reset = (\<lambda>k. k\<lparr>hc_reader := (hc_reader k)\<lparr>rd_src := []\<rparr>\<rparr>),
     cd_Close = (\<lambda>k. k)\<rparr>"

section \<open>Receiving ends\<close>

text \<open>
  What the loops rely on: a package that is received leaves less to receive, and receiving ends. The
  measure is a bound on the packages that are still to come.
\<close>

locale receiver =
  fixes recv :: "Package \<Rightarrow> 't \<Rightarrow> Package outcome \<times> 't"
    and left :: "'t \<Rightarrow> nat"
  assumes recv_less: "recv p t = (Ok p', t') \<Longrightarrow> left t' < left t"
    and recv_le: "left (snd (recv p t)) \<le> left t"
    and recv_ends: "fst (recv p t) \<noteq> NoFuel"
begin

lemma header_left:
  assumes "tc_Recv T = recv"
  shows "left (rc_client (snd (ReadResponseHeader_loop X T C n p c))) \<le> left (rc_client c)"
proof (induction n arbitrary: p c)
  case (Suc n)
  obtain r t where r: "recv (pk_Reset p) (rc_client c) = (r, t)" by fastforce
  have t: "left t \<le> left (rc_client c)" using recv_le [of "pk_Reset p" "rc_client c"] r by simp
  show ?case
  proof (cases r)
    case (Ok q)
    obtain h k where h: "cd_ReadHeader C Response (cd_feed C (pk_Body q) (rc_codec c)) = (h, k)" by fastforce
    have "left (rc_client (snd (ReadResponseHeader_loop X T C n q (c\<lparr>rc_client := t, rc_codec := k\<rparr>)))) \<le> left (rc_client c)"
      using Suc.IH [of q "c\<lparr>rc_client := t, rc_codec := k\<rparr>"] t by simp
    then show ?thesis using r Ok h assms t by (cases h) (simp_all add: traced_def)
  qed (use r assms t in \<open>simp_all add: traced_def\<close>)
qed simp

lemma header_ends:
  assumes "tc_Recv T = recv" "\<And>mt k. fst (cd_ReadHeader C mt k) \<noteq> NoFuel" "left (rc_client c) < n"
  shows "fst (ReadResponseHeader_loop X T C n p c) \<noteq> NoFuel"
  using assms(3)
proof (induction n arbitrary: p c)
  case (Suc n)
  obtain r t where r: "recv (pk_Reset p) (rc_client c) = (r, t)" by fastforce
  show ?case
  proof (cases r)
    case (Ok q)
    obtain h k where h: "cd_ReadHeader C Response (cd_feed C (pk_Body q) (rc_codec c)) = (h, k)" by fastforce
    have "left t < n" using recv_less r Ok Suc.prems by fastforce
    then have "fst (ReadResponseHeader_loop X T C n q (c\<lparr>rc_client := t, rc_codec := k\<rparr>)) \<noteq> NoFuel"
      by (intro Suc.IH) simp
    then show ?thesis using r Ok h assms(1) assms(2) [of Response "cd_feed C (pk_Body q) (rc_codec c)"]
      by (cases h) (simp_all add: traced_def ret_def split: option.splits)
  next
    case NoFuel
    then show ?thesis using recv_ends [of "pk_Reset p" "rc_client c"] r by simp
  qed (use r assms(1) in \<open>simp_all add: traced_def ret_def split: option.splits\<close>)
qed simp

lemma body_ends:
  assumes "tc_Recv T = recv" "\<And>k. fst (cd_ReadBody C b k) \<noteq> NoFuel" "left (rc_client c) < n"
  shows "fst (ReadResponseBody X T C n b p c) \<noteq> NoFuel"
  using assms(3)
proof (induction n arbitrary: p c)
  case (Suc n)
  obtain h k where h: "cd_ReadBody C b (rc_codec c) = (h, k)" by fastforce
  obtain r t where r: "recv (pk_Reset p) (rc_client c) = (r, t)" by fastforce
  have IH: "fst (ReadResponseBody X T C n b q (c\<lparr>rc_client := t, rc_codec := cd_feed C (pk_Body q) k\<rparr>)) \<noteq> NoFuel"
    if "r = Ok q" for q
  proof (rule Suc.IH)
    show "left (rc_client (c\<lparr>rc_client := t, rc_codec := cd_feed C (pk_Body q) k\<rparr>)) < n"
      using recv_less [of "pk_Reset p" "rc_client c" q t] r that Suc.prems by simp
  qed
  show ?case
    using h r IH assms(1) assms(2) [of "rc_codec c"] recv_ends [of "pk_Reset p" "rc_client c"]
    by (cases h; cases r) (auto simp: ret_def split: option.splits)
qed simp

end

text \<open>The bytes and chunks that a connection will still deliver.\<close>

definition conn_left :: "netConn \<Rightarrow> nat" where
  "conn_left c = length (concat (nc_in c)) + length (nc_in c)"

lemma tcp_Recv_Ok:
  assumes "tcp_Recv X p c = (Ok p', c')" "trace_ok X"
  shows "conn_left c' < conn_left c"
proof -
  obtain r c1 where r: "conn_Read 4096 c = (r, c1)" by fastforce
  obtain buf where buf: "r = Ok buf" "buf \<noteq> []" "c' = c1"
    using assms(1) r
    by (cases r) (auto simp: tcp_Recv_def tcp_read_def otry_def error_not_Ok [OF assms(2)] traced_def
        split: if_splits outcome.splits)
  then show ?thesis using r by (auto simp: conn_Read_def conn_left_def split: if_splits list.splits)
qed

lemma tcp_Recv_conn: "snd (tcp_Recv X p c) = snd (conn_Read 4096 c)"
  by (cases "conn_Read 4096 c"; cases "fst (conn_Read 4096 c)")
    (auto simp: tcp_Recv_def tcp_read_def traced_def otry_def split: outcome.splits)

lemma conn_Read_left: "conn_left (snd (conn_Read n c)) \<le> conn_left c"
  by (auto simp: conn_Read_def conn_left_def split: list.splits)

text \<open>The tcp client receives at most what its connection delivers.\<close>

lemma tcp_receiver: "trace_ok X \<Longrightarrow> receiver (tcp_Recv X) conn_left"
proof
  fix p c p' c'
  assume X: "trace_ok X"
  show "conn_left c' < conn_left c" if "tcp_Recv X p c = (Ok p', c')"
    using tcp_Recv_Ok [OF that X] .
  show "conn_left (snd (tcp_Recv X p c)) \<le> conn_left c"
    using conn_Read_left [of 4096 c] by (simp add: tcp_Recv_conn)
  show "fst (tcp_Recv X p c) \<noteq> NoFuel"
    by (simp add: tcp_Recv_def tcp_read_def conn_Read_def traced_def ret_def otry_def split: list.splits option.splits)
qed

interpretation tcp: receiver "tcp_Recv ext0" conn_left
  by (rule tcp_receiver) simp

lemma hc_ReadHeader_ends: "fst (hc_ReadHeader X m mt k) \<noteq> NoFuel"
proof -
  have "fst (unpackResponseHeaer buf m) \<noteq> NoFuel" for buf
    by (simp add: unpackResponseHeaer_def at_def Let_def)
  then have "unpackResponseHeaer buf m \<noteq> (NoFuel, m')" for buf m' by (metis fst_conv)
  then show ?thesis
    by (auto simp: hc_ReadHeader_def Let_def ret_def split: prod.splits outcome.splits option.splits)
qed

section \<open>Properties\<close>

text \<open>
  C21: Over tcp, reading a response ends, whatever the codec makes of the bytes, if its own
  operations end: after at most as many rounds as the connection has bytes and chunks left, \<^verbatim>\<open>Recv\<close>
  returns a result or an error.
\<close>

theorem response_read_ends:
  assumes "trace_ok X" and "\<And>mt k. fst (cd_ReadHeader C mt k) \<noteq> NoFuel" and "\<And>b k. b \<in> {None, msg} \<Longrightarrow> fst (cd_ReadBody C b k) \<noteq> NoFuel"
    and "conn_left (rc_client (st_codec r)) < n"
  shows "fst (st_Recv X (tcpClient X) C n msg r) \<noteq> NoFuel"
proof -
  note T = tcp_receiver [OF assms(1)]
  let ?T = "tcpClient X" and ?c = "(st_codec r)\<lparr>rc_codec := cd_reset C (rc_codec (st_codec r))\<rparr>"
  have t: "tc_Recv ?T = tcp_Recv X" by (simp add: tcpClient_def)
  obtain h c where h: "ReadResponseHeader_loop X ?T C n empty_package ?c = (h, c)" by fastforce
  have "h \<noteq> NoFuel" using receiver.header_ends [OF T t assms(2), of ?c n X empty_package] assms(4) h by simp
  moreover have "conn_left (rc_client c) < n"
    using receiver.header_left [OF T t, of X C n empty_package ?c] assms(4) h by simp
  then have "fst (ReadResponseBody X ?T C n b empty_package c) \<noteq> NoFuel" if "b \<in> {None, msg}" for b
    by (rule receiver.body_ends [OF T t assms(3) [OF that]])
  then have "ReadResponseBody X ?T C n None empty_package c \<noteq> (NoFuel, c')"
    "ReadResponseBody X ?T C n msg empty_package c \<noteq> (NoFuel, c')" for c' by (metis fst_conv insertCI)+
  ultimately show ?thesis
    by (cases h) (auto simp: st_Recv_def ReadResponseHeader_def h traced_def ret_def Let_def
        split: outcome.splits option.splits prod.splits)
qed

theorem response_read_ends_witness:
  "fst (st_Recv ext0 (tcpClient ext0) (hessianIf ext0 \<lparr>ty_fields = (\<lambda>_. []), ty_EnumValue = (\<lambda>_ _. 0)\<rparr> id pojoRegistry0 9) 5 None
     \<lparr>st_seq = 0, st_closed = False, st_err = None, st_codec = newRPCCodec empty_package
        \<lparr>nc_in = [[1, 2]], nc_out = [], nc_write = (\<lambda>bs. (length bs, None)), nc_closed = False\<rparr> (NewCodec [])\<rparr>) \<noteq> NoFuel"
proof (rule response_read_ends)
  let ?C = "hessianIf ext0 \<lparr>ty_fields = (\<lambda>_. []), ty_EnumValue = (\<lambda>_ _. 0)\<rparr> id pojoRegistry0 9"
  fix mt k and b :: "target option"
  show "fst (cd_ReadHeader ?C mt k) \<noteq> NoFuel"
    using hc_ReadHeader_ends [of ext0 Message0 mt k] by (auto simp: hessianIf_def split: prod.splits outcome.splits)
  show "fst (cd_ReadBody ?C b k) \<noteq> NoFuel" if "b \<in> {None, None}"
    using that by (auto simp: hessianIf_def hc_ReadBody_def Let_def ret_def split: prod.splits option.splits)
qed (simp_all add: newRPCCodec_def conn_left_def)

text \<open>
  Documented behaviour of \<^verbatim>\<open>Trace\<close>: it wraps an error in a new one, which is none of the package's variables.
\<close>

definition trace_new :: "ext \<Rightarrow> bool" where
  "trace_new X \<longleftrightarrow> trace_ok X \<and>
     (\<forall>e. je_Trace X (Some e) \<noteq> Some ErrBodyNotEnough \<and> je_Trace X (Some e) \<noteq> Some ErrHeaderNotEnough)"

lemma ext0_trace_new: "trace_new ext0"
  by (simp add: trace_new_def) (simp add: ext0_def ErrHeaderNotEnough_def)

lemma hc_ReadBody_large:
  assumes "hc_mt k = Response" "4096 < hc_rspBodyLen k"
  shows "\<exists>k'. hc_ReadBody X E reg fuel t k = (Err ErrBodyNotEnough, k') \<and> hc_mt k' = Response \<and> hc_rspBodyLen k' = hc_rspBodyLen k"
proof -
  have "bufSize < nat (hc_rspBodyLen k)" using assms(2) by (simp add: bufSize_def)
  then have "snd (fst (Peek (nat (hc_rspBodyLen k)) (hc_reader k))) = Some ErrBufferFull"
    by (simp add: Peek_def Let_def)
  then show ?thesis using assms(1)
    by (cases "Peek (nat (hc_rspBodyLen k)) (hc_reader k)") (auto simp: hc_ReadBody_def Let_def)
qed

lemma ReadResponseBody_large:
  assumes "hc_mt (rc_codec c) = Response" "4096 < hc_rspBodyLen (rc_codec c)"
  shows "fst (ReadResponseBody X T (hessianIf X E ord reg fuel) n b p c) \<noteq> Ok v"
  using assms
proof (induction n arbitrary: p c)
  case (Suc n)
  let ?C = "hessianIf X E ord reg fuel" and ?t = "case b of None \<Rightarrow> NilTarget | Some t \<Rightarrow> t"
  obtain k where k: "hc_ReadBody X E reg fuel ?t (rc_codec c) = (Err ErrBodyNotEnough, k)"
    "hc_mt k = Response" "4096 < hc_rspBodyLen k"
    using hc_ReadBody_large [OF Suc.prems, of X E reg fuel ?t] Suc.prems(2) by auto
  have r: "cd_ReadBody ?C b (rc_codec c) = (Err ErrBodyNotEnough, k)" using k(1) by (simp add: hessianIf_def)
  obtain r t where t: "tc_Recv T (pk_Reset p) (rc_client c) = (r, t)" by fastforce
  have "fst (ReadResponseBody X T ?C n b q (c\<lparr>rc_client := t, rc_codec := cd_feed ?C (pk_Body q) k\<rparr>)) \<noteq> Ok v" for q
    by (rule Suc.IH) (use k(2,3) in \<open>simp_all add: hessianIf_def\<close>)
  then show ?case using r t by (cases r) (simp_all split: option.splits)
qed simp



end
