(* ===== verification/Server_Rpc.thy ===== *)
theory Server_Rpc
  imports Server_Service Jsonrpc Client_Codec
begin

text \<open>
  Serving one request: \<^verbatim>\<open>server/rpc_codec.go\<close>, \<^verbatim>\<open>server/rpc_stream.go\<close> and the second part of \<^verbatim>\<open>server/rpc_server.go\<close>. The
  codec and the socket are interfaces in the code and records of functions here. The codec writes to a
  buffer that is part of its state, and a new codec takes over the variables of its package from the
  state of an earlier one. The values that are decoded, handed to a method and encoded have the type \<open>'x\<close>;
  what the program does with them is a record too.
\<close>

section \<open>Interfaces\<close>

record 't socketIf =
  so_Recv :: "Package \<Rightarrow> 't \<Rightarrow> Package outcome \<times> 't"
  so_Send :: "Package \<Rightarrow> 't \<Rightarrow> unit outcome \<times> 't"
  so_Close :: "'t \<Rightarrow> unit outcome \<times> 't"

record ('k, 'x) serverIf =
  si_New :: "byte list \<Rightarrow> 'k \<Rightarrow> 'k"
  si_ReadHeader :: "Message \<Rightarrow> 'k \<Rightarrow> unit outcome \<times> Message \<times> 'k"
  si_ReadBody :: "'x option \<Rightarrow> 'k \<Rightarrow> goerr option \<times> 'x option \<times> 'k"
  si_Write :: "Message \<Rightarrow> 'x option \<Rightarrow> 'k \<Rightarrow> unit outcome \<times> 'k"
  si_wreset :: "'k \<Rightarrow> 'k"
  si_wbytes :: "'k \<Rightarrow> byte list"
  si_feed :: "byte list \<Rightarrow> 'k \<Rightarrow> 'k"

text \<open>The context of a call: the header of the request without two entries, and the time it may take.\<close>

record sctx =
  cx_header :: "string \<rightharpoonup> string"
  cx_timeout :: "int option"

text \<open>
  The values of the program: a new value of a type, the dynamic type of what an interface holds, the type of a
  context, which types implement an interface type, the empty struct, and the methods of the handlers,
  which return an error and leave something in the reply, or panic.
\<close>

record 'x goenv =
  ge_New :: "rtype \<Rightarrow> 'x"
  ge_Dyn :: "'x \<Rightarrow> rtype option"
  ge_ctx :: rtype
  ge_streamType :: rtype
  ge_impl :: "rtype \<Rightarrow> rtype \<Rightarrow> bool"
  ge_invalid :: 'x
  ge_Method :: "rmethod \<Rightarrow> sctx \<Rightarrow> 'x \<Rightarrow> 'x \<Rightarrow> (goerr option \<times> 'x) outcome"

section \<open>The codec of the server\<close>

record ('t, 'k) srpcCodec =
  sk_socket :: 't
  sk_codec :: 'k
  sk_pkg :: Package

record srequest =
  sq_Service :: string
  sq_Method :: string
  sq_Seq :: int64

record sresponse =
  sp_Service :: string
  sp_Method :: string
  sp_Seq :: int64
  sp_Error :: string

definition srequest0 :: srequest where
  "srequest0 = \<lparr>sq_Service = [], sq_Method = [], sq_Seq = 0\<rparr>"

definition sresponse0 :: sresponse where
  "sresponse0 = \<lparr>sp_Service = [], sp_Method = [], sp_Seq = 0, sp_Error = []\<rparr>"

definition snewRPCCodec :: "('k, 'x) serverIf \<Rightarrow> Package \<Rightarrow> 't \<Rightarrow> 'k \<Rightarrow> ('t, 'k) srpcCodec" where
  "snewRPCCodec C req socket k = \<lparr>sk_socket = socket, sk_codec = si_New C (pk_Body req) k, sk_pkg = req\<rparr>"

text \<open>The header of a package as that of a message; a nil map has no entries.\<close>

definition msg_header :: "(string \<rightharpoonup> string) option \<Rightarrow> byte list \<rightharpoonup> byte list" where
  "msg_header h = (\<lambda>k. case h of None \<Rightarrow> None | Some h \<Rightarrow> map_option str (h (chars k)))"

definition pkg_get :: "Package \<Rightarrow> string \<Rightarrow> string" where
  "pkg_get p k = (case pk_Header p of None \<Rightarrow> [] | Some h \<Rightarrow> (case h k of None \<Rightarrow> [] | Some v \<Rightarrow> v))"

definition read_header ::
  "('k, 'x) serverIf \<Rightarrow> Message \<Rightarrow> ('t, 'k) srpcCodec \<Rightarrow> unit outcome \<times> srequest \<times> ('t, 'k) srpcCodec" where
  "read_header C m c = (case si_ReadHeader C m (sk_codec c) of (res, m, k) \<Rightarrow>
     (res, \<lparr>sq_Service = chars (m_Target m), sq_Method = chars (m_Method m), sq_Seq = m_ID m\<rparr>, c\<lparr>sk_codec := k\<rparr>))"

definition ReadRequestHeader ::
  "'t socketIf \<Rightarrow> ('k, 'x) serverIf \<Rightarrow> srequest \<Rightarrow> bool \<Rightarrow> ('t, 'k) srpcCodec \<Rightarrow> unit outcome \<times> srequest \<times> ('t, 'k) srpcCodec" where
  "ReadRequestHeader S C r isFirst c =
     (let m = Message0\<lparr>m_Header := msg_header (pk_Header (sk_pkg c))\<rparr> in
      if isFirst then read_header C m c
      else (case so_Recv S empty_package (sk_socket c) of
        (Ok tp, t) \<Rightarrow>
          read_header C (m\<lparr>m_Header := msg_header (pk_Header tp)\<rparr>) (c\<lparr>sk_socket := t, sk_codec := si_feed C (pk_Body tp) (sk_codec c)\<rparr>)
      | (Err e, t) \<Rightarrow> (Err e, r, c\<lparr>sk_socket := t\<rparr>)
      | (Panic, t) \<Rightarrow> (Panic, r, c) | (NoFuel, t) \<Rightarrow> (NoFuel, r, c)))"

definition ReadRequestBody ::
  "('k, 'x) serverIf \<Rightarrow> 'x option \<Rightarrow> ('t, 'k) srpcCodec \<Rightarrow> goerr option \<times> 'x option \<times> ('t, 'k) srpcCodec" where
  "ReadRequestBody C b c = (case si_ReadBody C b (sk_codec c) of (e, b, k) \<Rightarrow> (e, b, c\<lparr>sk_codec := k\<rparr>))"

definition response_message :: "sresponse \<Rightarrow> Message" where
  "response_message r = Message0\<lparr>m_Target := str (sp_Service r), m_Method := str (sp_Method r), m_ID := sp_Seq r,
     m_Error := str (sp_Error r), m_Type := Response\<rparr>"

text \<open>The codec is given the message without entries in its header and sets none.\<close>

definition WriteResponse ::
  "'t socketIf \<Rightarrow> ('k, 'x) serverIf \<Rightarrow> sresponse \<Rightarrow> 'x option \<Rightarrow> ('t, 'k) srpcCodec \<Rightarrow> unit outcome \<times> ('t, 'k) srpcCodec" where
  "WriteResponse S C r body c = (case si_Write C (response_message r) body (si_wreset C (sk_codec c)) of
     (Ok _, k) \<Rightarrow>
       (case so_Send S \<lparr>pk_Header = Some [''Content-Type'' \<mapsto> pkg_get (sk_pkg c) ''Content-Type''], pk_Body = si_wbytes C k\<rparr> (sk_socket c) of
          (res, t) \<Rightarrow> (res, c\<lparr>sk_codec := k, sk_socket := t\<rparr>))
   | (res, k) \<Rightarrow> (res, c\<lparr>sk_codec := k\<rparr>))"

section \<open>Streams\<close>

record ('t, 'k) srpcStream =
  ss_seq :: int64
  ss_closed :: bool
  ss_request :: srequest
  ss_codec :: "('t, 'k) srpcCodec"

definition ss_Send ::
  "'t socketIf \<Rightarrow> ('k, 'x) serverIf \<Rightarrow> 'x option \<Rightarrow> ('t, 'k) srpcStream \<Rightarrow> unit outcome \<times> ('t, 'k) srpcStream" where
  "ss_Send S C msg r = (case WriteResponse S C \<lparr>sp_Service = sq_Service (ss_request r), sp_Method = sq_Method (ss_request r),
       sp_Seq = ss_seq r, sp_Error = []\<rparr> msg (ss_codec r) of (res, c) \<Rightarrow> (res, r\<lparr>ss_codec := c\<rparr>))"

definition ss_Recv ::
  "'t socketIf \<Rightarrow> ('k, 'x) serverIf \<Rightarrow> 'x option \<Rightarrow> ('t, 'k) srpcStream \<Rightarrow> 'x option outcome \<times> ('t, 'k) srpcStream" where
  "ss_Recv S C msg r = (case ReadRequestHeader S C srequest0 False (ss_codec r) of
     (Ok _, req, c) \<Rightarrow>
       (case ReadRequestBody C msg c of
          (None, v, c) \<Rightarrow> (Ok v, r\<lparr>ss_seq := sq_Seq req, ss_codec := c\<rparr>)
        | (Some e, v, c) \<Rightarrow> (Err e, r\<lparr>ss_seq := sq_Seq req, ss_codec := c\<rparr>))
   | (Err e, req, c) \<Rightarrow> (case ReadRequestBody C None c of (_, _, c) \<Rightarrow> (Err e, r\<lparr>ss_codec := c\<rparr>))
   | (Panic, req, c) \<Rightarrow> (Panic, r) | (NoFuel, req, c) \<Rightarrow> (NoFuel, r))"

section \<open>The server\<close>

record rpcServer =
  rs_serviceMap :: "string \<rightharpoonup> service"
  rs_freeReq :: "srequest list"
  rs_freeRsp :: "sresponse list"

abbreviation (input) FREE_LIST_SIZE :: nat where "FREE_LIST_SIZE \<equiv> 4 * 1024"

definition initServer :: rpcServer where
  "initServer = \<lparr>rs_serviceMap = Map.empty, rs_freeReq = [], rs_freeRsp = []\<rparr>"

text \<open>The free lists: a value that is taken out is cleared, one that does not fit is dropped.\<close>

definition getRequest :: "rpcServer \<Rightarrow> srequest \<times> rpcServer" where
  "getRequest s = (case rs_freeReq s of
     req # rest \<Rightarrow> (srequest0, s\<lparr>rs_freeReq := rest\<rparr>)
   | [] \<Rightarrow> (srequest0, s))"

definition freeRequest :: "srequest option \<Rightarrow> rpcServer \<Rightarrow> rpcServer" where
  "freeRequest ro s = (case ro of None \<Rightarrow> s
   | Some req \<Rightarrow> if length (rs_freeReq s) < FREE_LIST_SIZE then s\<lparr>rs_freeReq := rs_freeReq s @ [req]\<rparr> else s)"

definition getResponse :: "rpcServer \<Rightarrow> sresponse \<times> rpcServer" where
  "getResponse s = (case rs_freeRsp s of
     rsp # rest \<Rightarrow> (sresponse0, s\<lparr>rs_freeRsp := rest\<rparr>)
   | [] \<Rightarrow> (sresponse0, s))"

definition freeRsponse :: "sresponse option \<Rightarrow> rpcServer \<Rightarrow> rpcServer" where
  "freeRsponse ro s = (case ro of None \<Rightarrow> s
   | Some rsp \<Rightarrow> if length (rs_freeRsp s) < FREE_LIST_SIZE then s\<lparr>rs_freeRsp := rs_freeRsp s @ [rsp]\<rparr> else s)"

definition sendResponse ::
  "'t socketIf \<Rightarrow> ('k, 'x) serverIf \<Rightarrow> 'x goenv \<Rightarrow> srequest \<Rightarrow> 'x option \<Rightarrow> string \<Rightarrow> rpcServer \<Rightarrow> ('t, 'k) srpcCodec
   \<Rightarrow> unit outcome \<times> rpcServer \<times> ('t, 'k) srpcCodec" where
  "sendResponse S C E req reply errmsg s c = (case getResponse s of (resp, s) \<Rightarrow>
     (let resp = resp\<lparr>sp_Service := sq_Service req, sp_Method := sq_Method req\<rparr>;
          resp = (if errmsg \<noteq> [] then resp\<lparr>sp_Error := errmsg\<rparr> else resp);
          reply = (if errmsg \<noteq> [] then Some (ge_invalid E) else reply);
          resp = resp\<lparr>sp_Seq := sq_Seq req\<rparr>
      in case WriteResponse S C resp reply c of
           (Panic, c) \<Rightarrow> (Panic, s, c) | (NoFuel, c) \<Rightarrow> (NoFuel, s, c)
         | (res, c) \<Rightarrow> (res, freeRsponse (Some resp) s, c)))"

text \<open>The header of a request, and the service and the method it names.\<close>

definition readRequestHeader ::
  "'t socketIf \<Rightarrow> ('k, 'x) serverIf \<Rightarrow> rpcServer \<Rightarrow> ('t, 'k) srpcCodec
   \<Rightarrow> (service \<times> methodType) outcome \<times> srequest option \<times> bool \<times> rpcServer \<times> ('t, 'k) srpcCodec" where
  "readRequestHeader S C s c = (case getRequest s of (req, s) \<Rightarrow>
     (case ReadRequestHeader S C req True c of
        (Err e, req, c) \<Rightarrow>
          (Err (if e = EOF \<or> e = ErrUnexpectedEOF then e else Errorf (''rpc: server cannot decode request: '' @ err_text e)), None, False, s, c)
      | (Panic, req, c) \<Rightarrow> (Panic, None, False, s, c) | (NoFuel, req, c) \<Rightarrow> (NoFuel, None, False, s, c)
      | (Ok _, req, c) \<Rightarrow>
          ((if sq_Service req = [] \<or> sq_Method req = [] then
              Err (Errorf (''rpc: service/method request ill-formed: '' @ sq_Service req @ ''/'' @ sq_Method req))
            else (case rs_serviceMap s (sq_Service req) of
              None \<Rightarrow> Err (Errorf (''rpc: can't find service '' @ sq_Service req))
            | Some service \<Rightarrow> (case svc_method service (sq_Method req) of
              None \<Rightarrow> Err (Errorf (''rpc: can't find method '' @ sq_Method req @ '' of service '' @ sq_Service req))
            | Some mtype \<Rightarrow> Ok (service, mtype)))), Some req, True, s, c)))"

text \<open>
  The argument: a value of the type of the parameter, or of the type it points to. The flag of the result tells that the
  argument is to be passed without a pointer; the type of the value that is passed comes with it.
\<close>

record 'x rvalue =
  va_Type :: rtype
  va_Val :: 'x

definition arg_type :: "rtype \<Rightarrow> rtype" where
  "arg_type t = (if rt_Kind t = KPtr then (case rt_Elem t of None \<Rightarrow> t | Some u \<Rightarrow> rt_ptr u) else t)"

definition readRequest ::
  "'t socketIf \<Rightarrow> ('k, 'x) serverIf \<Rightarrow> 'x goenv \<Rightarrow> rpcServer \<Rightarrow> ('t, 'k) srpcCodec
   \<Rightarrow> (service \<times> methodType \<times> 'x rvalue option \<times> 'x rvalue option) outcome \<times> srequest option \<times> bool \<times> rpcServer \<times> ('t, 'k) srpcCodec" where
  "readRequest S C E s c = (case readRequestHeader S C s c of
     (Err e, req, keep, s, c) \<Rightarrow>
       (if \<not> keep then (Err e, req, keep, s, c)
        else (case ReadRequestBody C None c of (_, _, c) \<Rightarrow> (Err e, req, keep, s, c)))
   | (Panic, req, keep, s, c) \<Rightarrow> (Panic, req, keep, s, c) | (NoFuel, req, keep, s, c) \<Rightarrow> (NoFuel, req, keep, s, c)
   | (Ok (service, mtype), req, keep, s, c) \<Rightarrow>
       (if mt_stream mtype then
          (case ReadRequestBody C None c of (_, _, c) \<Rightarrow> (Ok (service, mtype, None, None), req, keep, s, c))
        else
          (let t = mt_ArgType mtype; u = (if rt_Kind t = KPtr then (case rt_Elem t of None \<Rightarrow> t | Some u \<Rightarrow> u) else t) in
           case ReadRequestBody C (Some (ge_New E u)) c of
             (Some e, v, c) \<Rightarrow> (Err e, req, keep, s, c)
           | (None, v, c) \<Rightarrow>
               (let argv = \<lparr>va_Type = arg_type t, va_Val = (case v of Some v \<Rightarrow> v | None \<Rightarrow> ge_New E u)\<rparr> in
                case mt_ReplyType mtype of
                  None \<Rightarrow> (Panic, req, keep, s, c)
                | Some rt \<Rightarrow> (case rt_Elem rt of
                    None \<Rightarrow> (Panic, req, keep, s, c)
                  | Some ru \<Rightarrow> (Ok (service, mtype, Some argv, Some \<lparr>va_Type = rt_ptr ru, va_Val = ge_New E ru\<rparr>), req, keep, s, c))))))"

section \<open>Calling a method\<close>

text \<open>
  \<^verbatim>\<open>function.Call\<close> panics unless the values can be assigned to the parameters. The value in a parameter of an interface
  type is passed with its dynamic type, and a nil interface is no value.
\<close>

definition assignable :: "'x goenv \<Rightarrow> rtype \<Rightarrow> rtype \<Rightarrow> bool" where
  "assignable E v t \<longleftrightarrow> v = t \<or>
     rt_Kind v = KPtr \<and> rt_Kind t = KPtr \<and> rt_Elem v = rt_Elem t \<and> (rt_Name v = [] \<or> rt_Name t = []) \<or>
     rt_Kind t = KInterface \<and> ge_impl E v t"

definition dyn_type :: "'x goenv \<Rightarrow> 'x rvalue \<Rightarrow> rtype option" where
  "dyn_type E v = (if rt_Kind (va_Type v) = KInterface then ge_Dyn E (va_Val v) else Some (va_Type v))"

text \<open>The types of the values for the parameters after the receiver, which has the type of the handler.\<close>

fun args_fit :: "'x goenv \<Rightarrow> rtype option list \<Rightarrow> rtype list \<Rightarrow> bool" where
  "args_fit E [] [] = True"
| "args_fit E (v # vs) (t # ts) = ((case v of None \<Rightarrow> False | Some v \<Rightarrow> assignable E v t) \<and> args_fit E vs ts)"
| "args_fit E _ _ = False"

definition call_unary ::
  "'x goenv \<Rightarrow> methodType \<Rightarrow> sctx \<Rightarrow> 'x rvalue \<Rightarrow> 'x rvalue \<Rightarrow> (goerr option \<times> 'x) outcome" where
  "call_unary E mtype ctx argv replyv =
     (if args_fit E [Some (ge_ctx E), dyn_type E argv, Some (va_Type replyv)] (tl (rm_In (mt_method mtype)))
      then ge_Method E (mt_method mtype) ctx (va_Val argv) (va_Val replyv) else Panic)"

definition lastStreamResponseError :: string where
  "lastStreamResponseError = ''EOS''"

definition count_call :: "service \<Rightarrow> methodType \<Rightarrow> rpcServer \<Rightarrow> rpcServer" where
  "count_call service mtype s = s\<lparr>rs_serviceMap := (rs_serviceMap s)(svc_name service \<mapsto>
     service\<lparr>svc_method := (svc_method service)(rm_Name (mt_method mtype) \<mapsto> mtype\<lparr>mt_numCalls := mt_numCalls mtype + 1\<rparr>)\<rparr>)\<rparr>"

text \<open>
  \<^verbatim>\<open>call\<close>. \<open>SF\<close> is what a streaming method does with its stream. A streaming method that returns no error is
  answered with the error that ends the stream.
\<close>

definition call ::
  "'t socketIf \<Rightarrow> ('k, 'x) serverIf \<Rightarrow> 'x goenv
   \<Rightarrow> (rmethod \<Rightarrow> sctx \<Rightarrow> ('t, 'k) srpcStream \<Rightarrow> goerr option outcome \<times> ('t, 'k) srpcStream)
   \<Rightarrow> sctx \<Rightarrow> service \<Rightarrow> methodType \<Rightarrow> srequest \<Rightarrow> 'x rvalue option \<Rightarrow> 'x rvalue option \<Rightarrow> rpcServer \<Rightarrow> ('t, 'k) srpcCodec
   \<Rightarrow> unit outcome \<times> rpcServer \<times> ('t, 'k) srpcCodec" where
  "call S C E SF ctx service mtype req argv replyv s c = (let s = count_call service mtype s in
     if \<not> mt_stream mtype then
       (case (argv, replyv) of
          (Some argv, Some replyv) \<Rightarrow>
            (case call_unary E mtype ctx argv replyv of
               Ok (err, reply) \<Rightarrow>
                 (case sendResponse S C E req (Some reply) (case err of None \<Rightarrow> [] | Some e \<Rightarrow> err_text e) s c of
                    (Panic, s, c) \<Rightarrow> (Panic, s, c) | (NoFuel, s, c) \<Rightarrow> (NoFuel, s, c)
                  | (_, s, c) \<Rightarrow> (Ok (), freeRequest (Some req) s, c))
             | _ \<Rightarrow> (Panic, s, c))
        | _ \<Rightarrow> (Panic, s, c))
     else
       (if \<not> args_fit E [Some (ge_ctx E), Some (ge_streamType E)] (tl (rm_In (mt_method mtype))) then (Panic, s, c)
        else (case SF (mt_method mtype) ctx \<lparr>ss_seq = sq_Seq req, ss_closed = False, ss_request = req, ss_codec = c\<rparr> of
          (Ok err, st) \<Rightarrow>
            (case sendResponse S C E req None (case err of None \<Rightarrow> lastStreamResponseError | Some e \<Rightarrow> err_text e) s (ss_codec st) of
               (Panic, s, c) \<Rightarrow> (Panic, s, c) | (NoFuel, s, c) \<Rightarrow> (NoFuel, s, c)
             | (_, s, c) \<Rightarrow> (Ok (), freeRequest (Some req) s, c))
        | (_, st) \<Rightarrow> (Panic, s, ss_codec st))))"

definition serveRequest ::
  "'t socketIf \<Rightarrow> ('k, 'x) serverIf \<Rightarrow> 'x goenv
   \<Rightarrow> (rmethod \<Rightarrow> sctx \<Rightarrow> ('t, 'k) srpcStream \<Rightarrow> goerr option outcome \<times> ('t, 'k) srpcStream)
   \<Rightarrow> sctx \<Rightarrow> rpcServer \<Rightarrow> ('t, 'k) srpcCodec \<Rightarrow> unit outcome \<times> rpcServer \<times> ('t, 'k) srpcCodec" where
  "serveRequest S C E SF ctx s c = (case readRequest S C E s c of
     (Err e, req, keep, s, c) \<Rightarrow>
       (if \<not> keep then (Err e, freeRequest req s, c)
        else (case req of
          None \<Rightarrow> (Err e, s, c)
        | Some r \<Rightarrow>
            (case sendResponse S C E r (Some (ge_invalid E)) (err_text e) s c of
               (Panic, s, c) \<Rightarrow> (Panic, s, c) | (NoFuel, s, c) \<Rightarrow> (NoFuel, s, c)
             | (_, s, c) \<Rightarrow> (Err e, freeRequest req s, c))))
   | (Panic, req, keep, s, c) \<Rightarrow> (Panic, s, c) | (NoFuel, req, keep, s, c) \<Rightarrow> (NoFuel, s, c)
   | (Ok (service, mtype, argv, replyv), req, keep, s, c) \<Rightarrow>
       (case req of None \<Rightarrow> (Panic, s, c) | Some r \<Rightarrow> call S C E SF ctx service mtype r argv replyv s c))"

section \<open>The types of the registered methods\<close>

text \<open>What is known of a method in the table: the shape of its signature and the types that were taken from it.\<close>

definition method_typed :: "(nat \<Rightarrow> bool) \<Rightarrow> methodType \<Rightarrow> bool" where
  "method_typed up mt \<longleftrightarrow> (let ins = rm_In (mt_method mt) in
     rm_Out (mt_method mt) = [typeOfError] \<and>
     (if mt_stream mt then length ins = 3 \<and> mt_ContextType mt = ins ! 1 \<and> mt_ArgType mt = ins ! 2 \<and> rt_Streamer (ins ! 2) \<and> mt_ReplyType mt = None
      else length ins = 4 \<and> mt_ContextType mt = ins ! 1 \<and> mt_ArgType mt = ins ! 2 \<and> mt_ReplyType mt = Some (ins ! 3) \<and> rt_Kind (ins ! 3) = KPtr \<and>
        isExportedOrBuiltinType up (ins ! 2) \<and> isExportedOrBuiltinType up (ins ! 3)))"

definition methods_typed :: "(nat \<Rightarrow> bool) \<Rightarrow> (string \<rightharpoonup> methodType) \<Rightarrow> bool" where
  "methods_typed up tab \<longleftrightarrow> (\<forall>mn mt. tab mn = Some mt \<longrightarrow> method_typed up mt \<and> rm_Name (mt_method mt) = mn)"

definition table_typed :: "(nat \<Rightarrow> bool) \<Rightarrow> (string \<rightharpoonup> service) \<Rightarrow> bool" where
  "table_typed up tab \<longleftrightarrow> (\<forall>sn svc. tab sn = Some svc \<longrightarrow> methods_typed up (svc_method svc))"

lemma singleton_list: "length xs = 1 \<Longrightarrow> xs ! 0 = x \<Longrightarrow> xs = [x]"
  by (cases xs) auto

lemma prepare_out_Some:
  assumes "prepare_out m a r c st = Some mt"
  shows "rm_Out m = [typeOfError]" "mt = \<lparr>mt_method = m, mt_ArgType = a, mt_ReplyType = r, mt_ContextType = c, mt_stream = st, mt_numCalls = 0\<rparr>"
  using assms singleton_list [of "rm_Out m" typeOfError] by (simp_all add: prepare_out_def split: if_splits)

lemma prepareMethod_typed:
  assumes "prepareMethod up m = Some mt"
  shows "method_typed up mt \<and> mt_method mt = m"
proof (cases "length (rm_In m) = 3")
  case True
  then have st: "rt_Streamer (rm_In m ! 2)" and po: "prepare_out m (rm_In m ! 2) None (rm_In m ! 1) True = Some mt"
    using assms by (simp_all add: prepareMethod_def Let_def split: if_splits)
  from prepare_out_Some [OF po] st True show ?thesis by (simp add: method_typed_def)
next
  case False
  then have l: "length (rm_In m) = 4" and k: "rt_Kind (rm_In m ! 3) = KPtr" "isExportedOrBuiltinType up (rm_In m ! 2)"
      "isExportedOrBuiltinType up (rm_In m ! 3)"
    and po: "prepare_out m (rm_In m ! 2) (Some (rm_In m ! 3)) (rm_In m ! 1) False = Some mt"
    using assms by (simp_all add: prepareMethod_def Let_def split: if_splits)
  from prepare_out_Some [OF po] l k show ?thesis by (simp add: method_typed_def)
qed

lemma install_methods_typed: "methods_typed up tab \<Longrightarrow> methods_typed up (fst (install_methods up ms tab ns))"
proof (induction ms arbitrary: tab ns)
  case (Cons m ms)
  show ?case
  proof (cases "prepareMethod up m")
    case (Some mt)
    then have "methods_typed up (tab(rm_Name m \<mapsto> mt))"
      using Cons.prems prepareMethod_typed [OF Some] by (auto simp: methods_typed_def)
    then show ?thesis using Cons.IH Some by simp
  qed (use Cons in simp)
qed simp

lemma register_typed:
  assumes "table_typed up tab"
  shows "table_typed up (snd (register up h tab))"
proof -
  obtain t ns where i: "install_methods up (hd_Methods h) Map.empty [] = (t, ns)" by fastforce
  have "methods_typed up t" using install_methods_typed [of up Map.empty "hd_Methods h" "[]"] i by (simp add: methods_typed_def)
  then show ?thesis using assms by (simp add: table_typed_def register_def Let_def i)
qed

text \<open>The table after a sequence of registrations.\<close>

definition registered :: "(nat \<Rightarrow> bool) \<Rightarrow> handler list \<Rightarrow> string \<rightharpoonup> service" where
  "registered up hs = foldl (\<lambda>tab h. snd (register up h tab)) Map.empty hs"

lemma getRequest_simps: "rs_serviceMap (snd (getRequest s)) = rs_serviceMap s" "fst (getRequest s) = srequest0"
  by (simp_all add: getRequest_def split: list.splits)

lemma readRequestHeader_Ok:
  assumes "readRequestHeader S C s c = (Ok (svc, mt), req, keep, s', c')"
  obtains r where "req = Some r" "keep" "rs_serviceMap s (sq_Service r) = Some svc" "svc_method svc (sq_Method r) = Some mt"
    "rs_serviceMap s' = rs_serviceMap s"
  using assms getRequest_simps [of s]
  by (auto simp: readRequestHeader_def split: prod.splits outcome.splits option.splits if_splits)

lemma readRequest_unary:
  assumes "readRequest S C E s c = (Ok (svc, mt, Some argv, Some replyv), req, keep, s', c')"
  obtains r ru where "req = Some r" "rs_serviceMap s (sq_Service r) = Some svc" "svc_method svc (sq_Method r) = Some mt"
    "rs_serviceMap s' = rs_serviceMap s" "\<not> mt_stream mt" "va_Type argv = arg_type (mt_ArgType mt)"
    "map_option rt_Elem (mt_ReplyType mt) = Some (Some ru)" "va_Type replyv = rt_ptr ru"
proof -
  obtain res req1 keep1 s1 c1 where h: "readRequestHeader S C s c = (res, req1, keep1, s1, c1)" by (metis surj_pair)
  show ?thesis
  proof (cases res)
    case (Ok a)
    then obtain svc1 mt1 where a: "res = Ok (svc1, mt1)" by (cases a) auto
    obtain r where r: "req1 = Some r" "rs_serviceMap s (sq_Service r) = Some svc1" "svc_method svc1 (sq_Method r) = Some mt1"
      "rs_serviceMap s1 = rs_serviceMap s" using readRequestHeader_Ok [OF h [unfolded a]] by metis
    show ?thesis using assms r that
      by (auto simp: readRequest_def h a Let_def split: if_splits prod.splits option.splits)
  qed (use assms in \<open>auto simp: readRequest_def h split: if_splits prod.splits\<close>)
qed

section \<open>The free lists\<close>

definition lists_bounded :: "rpcServer \<Rightarrow> bool" where
  "lists_bounded s \<longleftrightarrow> length (rs_freeReq s) \<le> FREE_LIST_SIZE \<and> length (rs_freeRsp s) \<le> FREE_LIST_SIZE"

lemma free_bounded [simp]:
  "lists_bounded s \<Longrightarrow> lists_bounded (freeRequest ro s)" "lists_bounded s \<Longrightarrow> lists_bounded (freeRsponse rso s)"
  "lists_bounded s \<Longrightarrow> lists_bounded (snd (getRequest s))" "lists_bounded s \<Longrightarrow> lists_bounded (snd (getResponse s))"
  "lists_bounded (count_call svc mt s) = lists_bounded s"
  by (auto simp: lists_bounded_def freeRequest_def freeRsponse_def getRequest_def getResponse_def count_call_def split: option.splits list.splits)

lemma sendResponse_bounded:
  assumes "lists_bounded s" "sendResponse S C E req reply e s c = (res, s', c')"
  shows "lists_bounded s'"
proof -
  obtain resp s1 where g: "getResponse s = (resp, s1)" by fastforce
  have "lists_bounded s1" using free_bounded(4) [OF assms(1)] g by simp
  then show ?thesis using assms(2) by (auto simp: sendResponse_def g Let_def split: prod.splits outcome.splits)
qed

lemma readRequest_state:
  assumes "readRequest S C E s c = (res, req, keep, s', c')"
  shows "s' = snd (getRequest s)"
proof -
  obtain res1 req1 keep1 s1 c1 where h: "readRequestHeader S C s c = (res1, req1, keep1, s1, c1)" by (metis surj_pair)
  then have "s1 = snd (getRequest s)" by (auto simp: readRequestHeader_def split: prod.splits outcome.splits)
  then show ?thesis using assms
    by (auto simp: readRequest_def h Let_def split: outcome.splits if_splits prod.splits option.splits)
qed

lemma serveRequest_bounded:
  assumes "lists_bounded s" "serveRequest S C E SF ctx s c = (res, s', c')"
  shows "lists_bounded s'"
proof -
  obtain r1 req keep s1 c1 where 1: "readRequest S C E s c = (r1, req, keep, s1, c1)" by (metis surj_pair)
  have b: "lists_bounded s1" using readRequest_state [OF 1] assms(1) by simp
  have call: "lists_bounded s2" if c: "call S C E SF ctx svc mt r a v s1 c1 = (res, s2, c2)" for svc mt r a v s2 c2
  proof -
    have b2: "lists_bounded (count_call svc mt s1)" using b by simp
    from c show ?thesis
      by (auto simp: call_def Let_def b b2 dest!: sendResponse_bounded [OF b2] split: if_splits prod.splits outcome.splits option.splits)
  qed
  show ?thesis using assms(2) b
    by (auto simp: serveRequest_def 1 dest!: call sendResponse_bounded [OF b] split: outcome.splits if_splits prod.splits option.splits)
qed

section \<open>The states of a server\<close>

text \<open>
  The states a server can be in: at first it has no services; handlers are registered, and requests are served, in any
  order and with any codec, whatever the requests are and however serving them ends.
\<close>

inductive rpc_reachable ::
  "(nat \<Rightarrow> bool) \<Rightarrow> 't socketIf \<Rightarrow> 'x goenv
   \<Rightarrow> (rmethod \<Rightarrow> sctx \<Rightarrow> ('t, 'k) srpcStream \<Rightarrow> goerr option outcome \<times> ('t, 'k) srpcStream) \<Rightarrow> rpcServer \<Rightarrow> bool"
  for up S E SF where
  init: "rpc_reachable up S E SF initServer"
| register: "rpc_reachable up S E SF s \<Longrightarrow> rpc_reachable up S E SF (s\<lparr>rs_serviceMap := snd (register up h (rs_serviceMap s))\<rparr>)"
| serve: "rpc_reachable up S E SF s \<Longrightarrow> serveRequest S C E SF ctx s c = (res, s', c') \<Longrightarrow> rpc_reachable up S E SF s'"

lemma count_call_typed:
  assumes "table_typed up (rs_serviceMap s)" "rs_serviceMap s sn = Some svc" "svc_method svc mn = Some mt"
  shows "table_typed up (rs_serviceMap (count_call svc mt s))"
proof -
  have m: "methods_typed up (svc_method svc)" using assms(1,2) by (simp add: table_typed_def)
  then have "method_typed up mt" using assms(3) by (simp add: methods_typed_def)
  then have "method_typed up (mt\<lparr>mt_numCalls := mt_numCalls mt + 1\<rparr>)" by (simp add: method_typed_def Let_def)
  then have "methods_typed up ((svc_method svc)(rm_Name (mt_method mt) \<mapsto> mt\<lparr>mt_numCalls := mt_numCalls mt + 1\<rparr>))"
    using m by (simp add: methods_typed_def)
  then show ?thesis using assms(1) by (simp add: table_typed_def count_call_def)
qed

lemma free_serviceMap [simp]:
  "rs_serviceMap (freeRequest ro s) = rs_serviceMap s" "rs_serviceMap (freeRsponse rso s) = rs_serviceMap s"
  "rs_serviceMap (snd (getResponse s)) = rs_serviceMap s"
  by (simp_all add: freeRequest_def freeRsponse_def getResponse_def split: option.splits list.splits)

lemma sendResponse_serviceMap:
  assumes "sendResponse S C E req reply e s c = (res, s', c')"
  shows "rs_serviceMap s' = rs_serviceMap s"
proof -
  obtain resp s1 where g: "getResponse s = (resp, s1)" by fastforce
  then have "rs_serviceMap s1 = rs_serviceMap s" using free_serviceMap(3) [of s] by simp
  then show ?thesis using assms by (auto simp: sendResponse_def g Let_def split: prod.splits outcome.splits)
qed

lemma call_serviceMap:
  assumes "call S C E SF ctx svc mt r a v s c = (res, s', c')"
  shows "rs_serviceMap s' = rs_serviceMap (count_call svc mt s)"
  using assms
  by (auto simp: call_def Let_def dest!: sendResponse_serviceMap split: if_splits prod.splits outcome.splits option.splits)

lemma readRequest_Ok:
  assumes "readRequest S C E s c = (Ok (svc, mt, av, rv), req, keep, s', c')"
  obtains sn mn where "rs_serviceMap s sn = Some svc" "svc_method svc mn = Some mt"
proof -
  obtain res req1 keep1 s1 c1 where h: "readRequestHeader S C s c = (res, req1, keep1, s1, c1)" by (metis surj_pair)
  obtain svc1 mt1 where a: "res = Ok (svc1, mt1)" "svc1 = svc" "mt1 = mt"
    using assms by (cases res) (auto simp: readRequest_def h Let_def split: if_splits prod.splits option.splits)
  show ?thesis using readRequestHeader_Ok [OF h [unfolded a]] that by metis
qed

lemma serveRequest_typed:
  assumes "table_typed up (rs_serviceMap s)" "serveRequest S C E SF ctx s c = (res, s', c')"
  shows "table_typed up (rs_serviceMap s')"
proof -
  obtain r1 req keep s1 c1 where 1: "readRequest S C E s c = (r1, req, keep, s1, c1)" by (metis surj_pair)
  have m: "rs_serviceMap s1 = rs_serviceMap s" using readRequest_state [OF 1] getRequest_simps by simp
  have cnt: "table_typed up (rs_serviceMap (count_call svc mt s1))" if "r1 = Ok (svc, mt, a, v)" for svc mt a v
    using readRequest_Ok [OF 1 [unfolded that]] count_call_typed assms(1) m by metis
  show ?thesis using assms m cnt
    by (auto simp: serveRequest_def 1 dest!: call_serviceMap sendResponse_serviceMap split: outcome.splits if_splits prod.splits option.splits)
qed

lemma reachable_ok:
  assumes "rpc_reachable up S E SF s"
  shows "table_typed up (rs_serviceMap s) \<and> lists_bounded s"
  using assms
proof induction
  case init
  then show ?case by (simp add: initServer_def table_typed_def lists_bounded_def)
next
  case (register s h)
  then show ?case using register_typed by (auto simp: lists_bounded_def)
next
  case (serve s C ctx c res s' c')
  then show ?case using serveRequest_typed serveRequest_bounded by metis
qed



section \<open>One response for every request\<close>

text \<open>The error for a request whose service or method cannot be found.\<close>

definition lookup_error :: "(string \<rightharpoonup> service) \<Rightarrow> srequest \<Rightarrow> string option" where
  "lookup_error tab r =
     (if sq_Service r = [] \<or> sq_Method r = [] then Some (''rpc: service/method request ill-formed: '' @ sq_Service r @ ''/'' @ sq_Method r)
      else (case tab (sq_Service r) of
        None \<Rightarrow> Some (''rpc: can't find service '' @ sq_Service r)
      | Some svc \<Rightarrow> (case svc_method svc (sq_Method r) of
        None \<Rightarrow> Some (''rpc: can't find method '' @ sq_Method r @ '' of service '' @ sq_Service r)
      | Some mt \<Rightarrow> None)))"

definition lookup_method :: "(string \<rightharpoonup> service) \<Rightarrow> srequest \<Rightarrow> methodType option" where
  "lookup_method tab r = (case tab (sq_Service r) of None \<Rightarrow> None | Some svc \<Rightarrow> svc_method svc (sq_Method r))"

lemma readRequestHeader_read:
  assumes "ReadRequestHeader S C srequest0 True c = (Ok (), r, c1)"
  shows "readRequestHeader S C s c = (case lookup_error (rs_serviceMap s) r of
     Some e \<Rightarrow> (Err (Errorf e), Some r, True, snd (getRequest s), c1)
   | None \<Rightarrow> (case rs_serviceMap s (sq_Service r) of
       Some svc \<Rightarrow> (case svc_method svc (sq_Method r) of
         Some mt \<Rightarrow> (Ok (svc, mt), Some r, True, snd (getRequest s), c1) | None \<Rightarrow> undefined)
     | None \<Rightarrow> undefined))"
  using assms getRequest_simps [of s] by (cases "getRequest s") (auto simp: readRequestHeader_def lookup_error_def split: option.splits)

lemma ReadRequestBody_socket: "ReadRequestBody C b c = (e, v, c') \<Longrightarrow> sk_socket c' = sk_socket c"
  by (auto simp: ReadRequestBody_def split: prod.splits)

lemma sendResponse_write:
  assumes "sendResponse S C E req reply e s c = (res, s', c')"
  shows "WriteResponse S C \<lparr>sp_Service = sq_Service req, sp_Method = sq_Method req, sp_Seq = sq_Seq req, sp_Error = e\<rparr>
     (if e \<noteq> [] then Some (ge_invalid E) else reply) c = (res, c')"
proof -
  obtain s1 where g: "getResponse s = (sresponse0, s1)" by (cases "rs_freeRsp s") (simp_all add: getResponse_def)
  show ?thesis using assms by (auto simp: sendResponse_def g Let_def sresponse0_def split: prod.splits outcome.splits if_splits)
qed

lemma refused_answered:
  assumes "readRequest S C E s c = (Err e, Some r, True, s1, c1)" "serveRequest S C E SF ctx s c = (res, s', c')" "res \<noteq> Panic" "res \<noteq> NoFuel"
  obtains w where "res = Err e"
    "WriteResponse S C \<lparr>sp_Service = sq_Service r, sp_Method = sq_Method r, sp_Seq = sq_Seq r, sp_Error = err_text e\<rparr> (Some (ge_invalid E)) c1 = (w, c')"
proof -
  obtain w s2 where "sendResponse S C E r (Some (ge_invalid E)) (err_text e) s1 c1 = (w, s2, c')" "res = Err e"
    using assms by (auto simp: serveRequest_def split: prod.splits outcome.splits)
  with sendResponse_write [OF this(1)] that show ?thesis by simp
qed

lemma call_answered:
  assumes "call S C E SF ctx svc mt r (Some a) (Some p) s c = (res, s', c')" "\<not> mt_stream mt" "res \<noteq> Panic" "res \<noteq> NoFuel"
  obtains err v e w where "call_unary E mt ctx a p = Ok (err, v)" "e = (case err of None \<Rightarrow> [] | Some err \<Rightarrow> err_text err)"
    "WriteResponse S C \<lparr>sp_Service = sq_Service r, sp_Method = sq_Method r, sp_Seq = sq_Seq r, sp_Error = e\<rparr>
       (if e \<noteq> [] then Some (ge_invalid E) else Some v) c = (w, c')"
proof -
  obtain err v where u: "call_unary E mt ctx a p = Ok (err, v)"
    using assms by (auto simp: call_def Let_def split: outcome.splits)
  define e where "e = (case err of None \<Rightarrow> [] | Some err \<Rightarrow> err_text err)"
  obtain w s2 where "sendResponse S C E r (Some v) e (count_call svc mt s) c = (w, s2, c')"
    using assms u by (auto simp: call_def Let_def e_def split: outcome.splits prod.splits)
  then show ?thesis by (rule that [OF u e_def sendResponse_write])
qed

text \<open>Reading a request for a unary method that is there leaves the socket alone, and gives the error of its body or the arguments of the call.\<close>

lemma unary_read:
  assumes "readRequestHeader S C s c = (Ok (svc, mt), Some r, True, s1, c1)" "\<not> mt_stream mt"
  obtains rd c2 where "readRequest S C E s c = (rd, Some r, True, s1, c2)" "sk_socket c2 = sk_socket c1"
    "rd = Panic \<or> (\<exists>e. rd = Err e) \<or> (\<exists>a p. rd = Ok (svc, mt, Some a, Some p))"
proof -
  let ?t = "mt_ArgType mt"
  define u where "u = (if rt_Kind ?t = KPtr then (case rt_Elem ?t of None \<Rightarrow> ?t | Some u \<Rightarrow> u) else ?t)"
  obtain eo v c2 where b: "ReadRequestBody C (Some (ge_New E u)) c1 = (eo, v, c2)" by (metis surj_pair)
  have "\<exists>rd. readRequest S C E s c = (rd, Some r, True, s1, c2) \<and> (rd = Panic \<or> (\<exists>e. rd = Err e) \<or> (\<exists>a p. rd = Ok (svc, mt, Some a, Some p)))"
    using assms(2) b by (simp add: readRequest_def assms(1) Let_def u_def [symmetric] split: option.split)
  then show ?thesis using that ReadRequestBody_socket [OF b] by blast
qed


section \<open>An instance\<close>

text \<open>A handler with one method, which copies its argument to its reply. Values are JSON texts.\<close>

definition string_type :: rtype where
  "string_type = RType KString ''string'' [] None None False"

definition context_type :: rtype where
  "context_type = RType KInterface ''Context'' ''context'' None None False"

definition method1 :: rmethod where
  "method1 = \<lparr>rm_Name = ''m'', rm_PkgPath = [], rm_In = [string_type, context_type, string_type, rt_ptr string_type], rm_Out = [typeOfError]\<rparr>"

definition handler1 :: handler where
  "handler1 = \<lparr>hd_Service = ''s'', hd_Version = [], hd_TypeName = ''S'', hd_Methods = [method1]\<rparr>"

definition env1 :: "string goenv" where
  "env1 = \<lparr>ge_New = (\<lambda>_. []), ge_Dyn = (\<lambda>_. None), ge_ctx = context_type, ge_streamType = context_type, ge_impl = (\<lambda>_ _. True), ge_invalid = ''{}'',
     ge_Method = (\<lambda>m ctx a r. Ok (None, a))\<rparr>"

definition marshal1 :: "string \<Rightarrow> goarg" where
  "marshal1 v = \<lparr>ga_Type = string_type, ga_IsNil = False, ga_ElemIsNil = None, ga_Marshal = Ok v\<rparr>"

definition rpc1 :: rpcServer where
  "rpc1 = initServer\<lparr>rs_serviceMap := registered (\<lambda>_. False) [handler1]\<rparr>"

definition sock1 :: "Package list socketIf" where
  "sock1 = \<lparr>so_Recv = (\<lambda>p t. (Err EOF, t)), so_Send = (\<lambda>p t. (Ok (), t @ [p])), so_Close = (\<lambda>t. (Ok (), t))\<rparr>"

definition mtype1 :: methodType where
  "mtype1 = \<lparr>mt_method = method1, mt_ArgType = string_type, mt_ReplyType = Some (rt_ptr string_type), mt_ContextType = context_type,
     mt_stream = False, mt_numCalls = 0\<rparr>"

lemma exported1: "isExported up ''S''"
  by (simp add: isExported_def IsUpper_def DecodeRune_def first_info_def)

lemma prepare1: "prepareMethod up method1 = Some mtype1"
  by (simp add: prepareMethod_def method1_def prepare_out_def isExportedOrBuiltinType_def string_type_def rt_ptr_def mtype1_def Let_def)

lemma registered1: "registered up [handler1] = [''s'' \<mapsto> \<lparr>svc_name = ''s'', svc_rcvr = handler1, svc_method = [''m'' \<mapsto> mtype1]\<rparr>]"
  by (simp add: registered_def register_def handler1_def exported1 Let_def prepare1) (simp add: method1_def)

lemma call1: "call_unary env1 mtype1 ctx \<lparr>va_Type = string_type, va_Val = a\<rparr> \<lparr>va_Type = rt_ptr string_type, va_Val = r\<rparr> = Ok (None, a)"
  by (simp add: call_unary_def env1_def mtype1_def method1_def assignable_def dyn_type_def string_type_def)


definition codec1 :: "(unit, string) serverIf" where
  "codec1 = \<lparr>si_New = (\<lambda>body k. k), si_ReadHeader = (\<lambda>m k. (Ok (), m\<lparr>m_Target := str ''s'', m_Method := str ''m'', m_ID := 7\<rparr>, k)),
     si_ReadBody = (\<lambda>b k. (None, map_option (\<lambda>_. ''[1]'') b, k)), si_Write = (\<lambda>m x k. (Ok (), k)), si_wreset = id,
     si_wbytes = (\<lambda>k. str ''{}''), si_feed = (\<lambda>body k. k)\<rparr>"

definition sreq1 :: srequest where
  "sreq1 = \<lparr>sq_Service = ''s'', sq_Method = ''m'', sq_Seq = 7\<rparr>"

definition service1 :: service where
  "service1 = \<lparr>svc_name = ''s'', svc_rcvr = handler1, svc_method = [''m'' \<mapsto> mtype1]\<rparr>"

definition srpc1 :: "(Package list, unit) srpcCodec" where
  "srpc1 = snewRPCCodec codec1 empty_package [] ()"

lemma header1: "ReadRequestHeader sock1 codec1 srequest0 True srpc1 = (Ok (), sreq1, srpc1)"
  by (simp add: ReadRequestHeader_def read_header_def codec1_def sreq1_def srpc1_def snewRPCCodec_def Message0_def del: str_simps)

lemma lookup1: "lookup_error (rs_serviceMap rpc1) sreq1 = None" "lookup_method (rs_serviceMap rpc1) sreq1 = Some mtype1"
  "rs_serviceMap rpc1 = [''s'' \<mapsto> service1]"
  by (simp_all add: lookup_error_def lookup_method_def rpc1_def initServer_def registered1 sreq1_def service1_def)

lemma get1: "getRequest rpc1 = (srequest0, rpc1)"
  by (simp add: getRequest_def rpc1_def initServer_def)

lemma read1: "readRequest sock1 codec1 env1 rpc1 srpc1 =
  (Ok (service1, mtype1, Some \<lparr>va_Type = string_type, va_Val = ''[1]''\<rparr>, Some \<lparr>va_Type = rt_ptr string_type, va_Val = []\<rparr>), Some sreq1, True, rpc1, srpc1)"
proof -
  have l: "rs_serviceMap rpc1 (sq_Service sreq1) = Some service1" "svc_method service1 (sq_Method sreq1) = Some mtype1"
    by (simp_all add: lookup1 sreq1_def service1_def)
  have h: "readRequestHeader sock1 codec1 rpc1 srpc1 = (Ok (service1, mtype1), Some sreq1, True, rpc1, srpc1)"
    using readRequestHeader_read [OF header1, of rpc1] by (simp add: lookup1(1) l get1)
  have t: "\<not> mt_stream mtype1" "mt_ArgType mtype1 = string_type" "mt_ReplyType mtype1 = Some (rt_ptr string_type)" "rt_Kind string_type = KString"
    "rt_Elem (rt_ptr string_type) = Some string_type" by (simp_all add: mtype1_def string_type_def rt_ptr_def)
  show ?thesis unfolding readRequest_def h
    by (simp add: t arg_type_def ReadRequestBody_def codec1_def srpc1_def snewRPCCodec_def env1_def Let_def)
qed

lemma reachable1: "rpc_reachable (\<lambda>_. False) sock1 env1 SF rpc1"
  using rpc_reachable.register [OF rpc_reachable.init, of "\<lambda>_. False" sock1 env1 SF handler1]
  by (simp add: rpc1_def registered_def initServer_def)

lemma serve1: "serveRequest sock1 codec1 env1 SF ctx rpc1 srpc1 = (Ok (),
   (count_call service1 mtype1 rpc1)\<lparr>rs_freeReq := [sreq1], rs_freeRsp := [\<lparr>sp_Service = ''s'', sp_Method = ''m'', sp_Seq = 7, sp_Error = []\<rparr>]\<rparr>,
   srpc1\<lparr>sk_socket := [\<lparr>pk_Header = Some [''Content-Type'' \<mapsto> []], pk_Body = str ''{}''\<rparr>]\<rparr>)"
proof -
  have c: "call_unary env1 mtype1 ctx \<lparr>va_Type = string_type, va_Val = ''[1]''\<rparr> \<lparr>va_Type = rt_ptr string_type, va_Val = []\<rparr> = Ok (None, ''[1]'')"
    "\<not> mt_stream mtype1" using call1 by (simp_all add: mtype1_def)
  show ?thesis
    by (simp add: serveRequest_def read1 call_def c)
      (simp add: sendResponse_def getResponse_def WriteResponse_def count_call_def rpc1_def initServer_def codec1_def srpc1_def snewRPCCodec_def
        sresponse0_def sock1_def freeRequest_def freeRsponse_def sreq1_def pkg_get_def empty_package_def)
qed




end
