(* ===== verification/Server.thy ===== *)
theory Server
  imports Server_Rpc Registry_Url
begin

text \<open>
  The server, \<^verbatim>\<open>server/server.go\<close> and \<^verbatim>\<open>server/options.go\<close>: the options, the loop that serves the packages of a
  connection, the registration of a handler at every matching address and in the registry, and starting
  and stopping. A codec constructor is the record of the functions of its codec; the registry and the
  transport are the functions of their interfaces that the server calls.
\<close>

section \<open>Data\<close>

record ServerConfig =
  cf_Protocol :: string
  cf_IP :: string
  cf_Port :: int

text \<open>\<^verbatim>\<open>gxnet.HostAddress\<close> of the package goext makes the address.\<close>

definition sc_Address :: "(string \<Rightarrow> int \<Rightarrow> string) \<Rightarrow> ServerConfig \<Rightarrow> string" where
  "sc_Address hostAddress c = hostAddress (cf_IP c) (cf_Port c)"

record ('k, 'x, 'g, 'tr) sOptions =
  op_Codecs :: "string \<rightharpoonup> ('k, 'x) serverIf"
  op_Registry :: "'g option"
  op_Transport :: "'tr option"
  op_ConfList :: "ServerConfig list"
  op_ServiceConfList :: "ServiceConfig list"

record ('k, 'x, 'g, 'tr) server =
  sr_rpc :: "rpcServer list"
  sr_done :: bool
  sr_once :: bool
  sr_opts :: "('k, 'x, 'g, 'tr) sOptions"
  sr_handlers :: "string \<rightharpoonup> handler"

section \<open>Options\<close>

definition opt_Codec :: "(string \<rightharpoonup> ('k, 'x) serverIf) \<Rightarrow> ('k, 'x, 'g, 'tr) sOptions \<Rightarrow> ('k, 'x, 'g, 'tr) sOptions" where
  "opt_Codec codecs o' = o'\<lparr>op_Codecs := codecs\<rparr>"

definition opt_Registry :: "'g \<Rightarrow> ('k, 'x, 'g, 'tr) sOptions \<Rightarrow> ('k, 'x, 'g, 'tr) sOptions" where
  "opt_Registry r o' = o'\<lparr>op_Registry := Some r\<rparr>"

definition opt_Transport :: "'tr \<Rightarrow> ('k, 'x, 'g, 'tr) sOptions \<Rightarrow> ('k, 'x, 'g, 'tr) sOptions" where
  "opt_Transport t o' = o'\<lparr>op_Transport := Some t\<rparr>"

text \<open>\<open>ip\<close> is \<^verbatim>\<open>common.GetLocalIP\<close>; its error is ignored, and the address is empty then.\<close>

definition opt_ConfList ::
  "(string \<Rightarrow> string outcome) \<Rightarrow> ServerConfig list \<Rightarrow> ('k, 'x, 'g, 'tr) sOptions \<Rightarrow> ('k, 'x, 'g, 'tr) sOptions" where
  "opt_ConfList ip confList o' =
     o'\<lparr>op_ConfList := map (\<lambda>c. c\<lparr>cf_IP := (case ip (cf_IP c) of Ok a \<Rightarrow> a | _ \<Rightarrow> [])\<rparr>) confList\<rparr>"

definition opt_ServiceConfList :: "ServiceConfig list \<Rightarrow> ('k, 'x, 'g, 'tr) sOptions \<Rightarrow> ('k, 'x, 'g, 'tr) sOptions" where
  "opt_ServiceConfList confList o' = o'\<lparr>op_ServiceConfList := confList\<rparr>"

definition s_newOptions ::
  "(('k, 'x, 'g, 'tr) sOptions \<Rightarrow> ('k, 'x, 'g, 'tr) sOptions) list \<Rightarrow> ('k, 'x, 'g, 'tr) sOptions outcome" where
  "s_newOptions opt = (let opts = fold (\<lambda>f. f) opt \<lparr>op_Codecs = Map.empty, op_Registry = None, op_Transport = None,
       op_ConfList = [], op_ServiceConfList = []\<rparr> in
     if op_Registry opts = None then Panic else if op_Transport opts = None then Panic else Ok opts)"

definition newServer ::
  "(('k, 'x, 'g, 'tr) sOptions \<Rightarrow> ('k, 'x, 'g, 'tr) sOptions) list \<Rightarrow> ('k, 'x, 'g, 'tr) server outcome" where
  "newServer opts = (case s_newOptions opts of
     Ok options \<Rightarrow> Ok \<lparr>sr_rpc = replicate (length (op_ConfList options)) initServer, sr_done = False, sr_once = False,
       sr_opts = options, sr_handlers = Map.empty\<rparr>
   | _ \<Rightarrow> Panic)"

section \<open>Serving a connection\<close>

text \<open>\<open>D\<close> is \<^verbatim>\<open>jsonrpc.NewCodec\<close>.\<close>

definition defaultCodecs :: "('k, 'x) serverIf \<Rightarrow> string \<rightharpoonup> ('k, 'x) serverIf" where
  "defaultCodecs D = [''application/json'' \<mapsto> D, ''application/json-rpc'' \<mapsto> D]"

definition newCodec ::
  "('k, 'x) serverIf \<Rightarrow> (string \<rightharpoonup> ('k, 'x) serverIf) \<Rightarrow> string \<Rightarrow> ('k, 'x) serverIf + goerr" where
  "newCodec D codecs contentType = (case codecs contentType of
     Some cf \<Rightarrow> Inl cf
   | None \<Rightarrow> (case defaultCodecs D contentType of
       Some cf \<Rightarrow> Inl cf
     | None \<Rightarrow> Inr (Errorf (''Unsupported Content-Type: '' @ contentType))))"

text \<open>\<^verbatim>\<open>strconv.ParseUint(s, 10, 64)\<close>, and the duration of that many nanoseconds, an \<^verbatim>\<open>int64\<close>.\<close>

definition ParseUint :: "string \<Rightarrow> nat option" where
  "ParseUint s = (if s = [] then None else (case digits_val 0 s of None \<Rightarrow> None | Some n \<Rightarrow> if n < 2 ^ 64 then Some n else None))"

definition pkg_ctx :: "Package \<Rightarrow> sctx" where
  "pkg_ctx pkg = \<lparr>cx_header = (case pk_Header pkg of None \<Rightarrow> Map.empty | Some h \<Rightarrow> h(''Content-Type'' := None, ''Timeout'' := None)),
     cx_timeout = (if pkg_get pkg ''Timeout'' \<noteq> [] then
       (case ParseUint (pkg_get pkg ''Timeout'') of None \<Rightarrow> None | Some n \<Rightarrow> Some (sint (of_nat n :: int64))) else None)\<rparr>"

text \<open>
  The loop of \<^verbatim>\<open>handlePkg\<close>. It ends when receiving fails, when there is no codec for the package, when serving fails, and
  when something panics, which is caught. The result is the state at the end, or nothing if the number
  of rounds is not enough.
\<close>

fun handlePkg_loop ::
  "'t socketIf \<Rightarrow> ('k, 'x) serverIf \<Rightarrow> (string \<rightharpoonup> ('k, 'x) serverIf) \<Rightarrow> 'x goenv
   \<Rightarrow> (rmethod \<Rightarrow> sctx \<Rightarrow> ('t, 'k) srpcStream \<Rightarrow> goerr option outcome \<times> ('t, 'k) srpcStream)
   \<Rightarrow> nat \<Rightarrow> Package \<Rightarrow> rpcServer \<Rightarrow> 't \<Rightarrow> 'k \<Rightarrow> (rpcServer \<times> 't \<times> 'k) option" where
  "handlePkg_loop S D codecs E SF 0 pkg rpc sock k = None"
| "handlePkg_loop S D codecs E SF (Suc n) pkg rpc sock k = (case so_Recv S (pk_Reset pkg) sock of
     (Ok pkg, sock) \<Rightarrow>
       (let contentType = pkg_get pkg ''Content-Type'' in
        case newCodec D codecs contentType of
          Inr err \<Rightarrow>
            Some (rpc, snd (so_Send S \<lparr>pk_Header = Some [''Content-Type'' \<mapsto> ''text/plain''], pk_Body = str (err_text err)\<rparr> sock), k)
        | Inl C \<Rightarrow>
            (case serveRequest S C E SF (pkg_ctx pkg) rpc (snewRPCCodec C pkg sock k) of
               (Ok _, rpc, c) \<Rightarrow> handlePkg_loop S D codecs E SF n pkg rpc (sk_socket c) (sk_codec c)
             | (_, rpc, c) \<Rightarrow> Some (rpc, sk_socket c, sk_codec c)))
   | (_, sock) \<Rightarrow> Some (rpc, sock, k))"

definition handlePkg ::
  "'t socketIf \<Rightarrow> ('k, 'x) serverIf \<Rightarrow> (string \<rightharpoonup> ('k, 'x) serverIf) \<Rightarrow> 'x goenv
   \<Rightarrow> (rmethod \<Rightarrow> sctx \<Rightarrow> ('t, 'k) srpcStream \<Rightarrow> goerr option outcome \<times> ('t, 'k) srpcStream)
   \<Rightarrow> nat \<Rightarrow> rpcServer \<Rightarrow> 't \<Rightarrow> 'k \<Rightarrow> (rpcServer \<times> 't \<times> 'k) option" where
  "handlePkg S D codecs E SF n rpc sock k =
     map_option (\<lambda>(rpc, sock, k). (rpc, snd (so_Close S sock), k)) (handlePkg_loop S D codecs E SF n empty_package rpc sock k)"

section \<open>Registering a handler\<close>

text \<open>
  The inner loop of \<^verbatim>\<open>Handle\<close>, over the addresses from number \<open>j\<close> on, and the outer one over the services. \<open>RG\<close> is
  \<^verbatim>\<open>Register\<close> of the registry. The flag tells whether something was registered. The tables and the
  registry keep what was done before an error.
\<close>

fun Handle_confs ::
  "(nat \<Rightarrow> bool) \<Rightarrow> (string \<Rightarrow> int \<Rightarrow> string) \<Rightarrow> (ProviderServiceConfig \<Rightarrow> 'g \<Rightarrow> unit outcome \<times> 'g) \<Rightarrow> handler \<Rightarrow> ServiceConfig
   \<Rightarrow> nat \<Rightarrow> ServerConfig list \<Rightarrow> bool \<Rightarrow> rpcServer list \<Rightarrow> 'g \<Rightarrow> bool outcome \<times> rpcServer list \<times> 'g" where
  "Handle_confs up ha RG h sc j [] flag rpcs g = (Ok flag, rpcs, g)"
| "Handle_confs up ha RG h sc j (cf # cfs) flag rpcs g =
     (if cf_Protocol cf = sc_Protocol sc then
        (case register up h (rs_serviceMap (rpcs ! j)) of
           (Ok methods, tab) \<Rightarrow>
             (let rpcs = rpcs[j := (rpcs ! j)\<lparr>rs_serviceMap := tab\<rparr>] in
              case RG \<lparr>pc_ServiceConfig = sc, pc_Path = sc_Address ha cf, pc_Methods = methods\<rparr> g of
                (Ok _, g) \<Rightarrow> Handle_confs up ha RG h sc (Suc j) cfs True rpcs g
              | (Err e, g) \<Rightarrow> (Err e, rpcs, g) | (Panic, g) \<Rightarrow> (Panic, rpcs, g) | (NoFuel, g) \<Rightarrow> (NoFuel, rpcs, g))
         | (Err e, tab) \<Rightarrow> (Err e, rpcs, g) | (Panic, tab) \<Rightarrow> (Panic, rpcs, g) | (NoFuel, tab) \<Rightarrow> (NoFuel, rpcs, g))
      else Handle_confs up ha RG h sc (Suc j) cfs flag rpcs g)"

fun Handle_services ::
  "(nat \<Rightarrow> bool) \<Rightarrow> (string \<Rightarrow> int \<Rightarrow> string) \<Rightarrow> (ProviderServiceConfig \<Rightarrow> 'g \<Rightarrow> unit outcome \<times> 'g) \<Rightarrow> handler
   \<Rightarrow> ServerConfig list \<Rightarrow> ServiceConfig list \<Rightarrow> bool \<Rightarrow> rpcServer list \<Rightarrow> 'g \<Rightarrow> bool outcome \<times> rpcServer list \<times> 'g" where
  "Handle_services up ha RG h cfs [] flag rpcs g = (Ok flag, rpcs, g)"
| "Handle_services up ha RG h cfs (sc # scs) flag rpcs g =
     (if sc_Service sc = hd_Service h \<and> sc_Version sc = hd_Version h then
        (case Handle_confs up ha RG h sc 0 cfs flag rpcs g of
           (Ok flag, rpcs, g) \<Rightarrow> Handle_services up ha RG h cfs scs flag rpcs g
         | res \<Rightarrow> res)
      else Handle_services up ha RG h cfs scs flag rpcs g)"

text \<open>After \<^verbatim>\<open>Stop\<close> there is no registry, and calling it panics if there is anything to register.\<close>

definition Handle ::
  "(nat \<Rightarrow> bool) \<Rightarrow> (string \<Rightarrow> int \<Rightarrow> string) \<Rightarrow> (ProviderServiceConfig \<Rightarrow> 'g \<Rightarrow> unit outcome \<times> 'g) \<Rightarrow> handler
   \<Rightarrow> ('k, 'x, 'g, 'tr) server \<Rightarrow> unit outcome \<times> ('k, 'x, 'g, 'tr) server" where
  "Handle up ha RG h s = (let config = sr_opts s;
       RG' = (\<lambda>c go. case go of None \<Rightarrow> (Panic, None) | Some g \<Rightarrow> (case RG c g of (res, g) \<Rightarrow> (res, Some g))) in
     case Handle_services up ha RG' h (op_ConfList config) (op_ServiceConfList config) False (sr_rpc s) (op_Registry config) of
       (res, rpcs, g) \<Rightarrow>
         (let s = s\<lparr>sr_rpc := rpcs, sr_opts := config\<lparr>op_Registry := g\<rparr>\<rparr> in
          case res of
            Ok flag \<Rightarrow>
              if \<not> flag then (Err (Errorf ''fail to register Handler{service:%s, version:%s}''), s)
              else (Ok (), s\<lparr>sr_handlers := (sr_handlers s)(hd_Service h \<mapsto> h)\<rparr>)
          | Err e \<Rightarrow> (Err e, s) | Panic \<Rightarrow> (Panic, s) | NoFuel \<Rightarrow> (NoFuel, s)))"

section \<open>Stopping\<close>

text \<open>\<^verbatim>\<open>Stop\<close>, once: the channel is closed, the goroutines end, and the registry is closed and forgotten.\<close>

definition Stop :: "('g \<Rightarrow> 'g) \<Rightarrow> ('k, 'x, 'g, 'tr) server \<Rightarrow> 'g option \<times> ('k, 'x, 'g, 'tr) server" where
  "Stop cl s = (if sr_once s then (None, s)
     else (map_option cl (op_Registry (sr_opts s)),
           s\<lparr>sr_once := True, sr_done := True, sr_opts := (sr_opts s)\<lparr>op_Registry := None\<rparr>\<rparr>))"

end
