(* ===== verification/Server_Start.thy ===== *)
theory Server_Start
  imports Server
begin

text \<open>
  Starting and stopping a server, \<^verbatim>\<open>Start\<close> and \<^verbatim>\<open>Stop\<close> of \<^verbatim>\<open>server/server.go\<close>, as steps of the goroutines that take part: the one
  that runs \<^verbatim>\<open>Start\<close>, the two that it starts for every address, and the one that runs \<^verbatim>\<open>Stop\<close>. A listener and a
  table of services have the number of their address. The variables \<^verbatim>\<open>listener\<close> and \<^verbatim>\<open>rpc\<close> of \<^verbatim>\<open>Start\<close> are shared: the
  functions that the goroutines run read them when they run.
\<close>

section \<open>States and steps\<close>

record startState =
  sa_i :: nat
  sa_listener :: nat
  sa_rpc :: nat
  sa_result :: "unit outcome option"
  sa_new :: nat
  sa_accepting :: "nat list"
  sa_closing :: "nat list"
  sa_closed :: "nat list"
  sa_wg :: nat
  sa_done :: bool
  sa_stopped :: bool

definition start0 :: startState where
  "start0 = \<lparr>sa_i = 0, sa_listener = 0, sa_rpc = 0, sa_result = None, sa_new = 0, sa_accepting = [], sa_closing = [], sa_closed = [],
     sa_wg = 0, sa_done = False, sa_stopped = False\<rparr>"

text \<open>A round of the loop of \<^verbatim>\<open>Start\<close>, and its end. \<open>L\<close> is \<^verbatim>\<open>Listen\<close> of the transport.\<close>

definition Start_round :: "(string \<Rightarrow> unit outcome) \<Rightarrow> (string \<Rightarrow> int \<Rightarrow> string) \<Rightarrow> ServerConfig list \<Rightarrow> startState \<Rightarrow> startState" where
  "Start_round L ha cfs s = (let i = sa_i s in
     if i < length cfs then
       (case L (sc_Address ha (cfs ! i)) of
          Ok _ \<Rightarrow> s\<lparr>sa_listener := i, sa_rpc := i, sa_wg := sa_wg s + 2, sa_new := sa_new s + 1, sa_closing := i # sa_closing s, sa_i := i + 1\<rparr>
        | res \<Rightarrow> s\<lparr>sa_result := Some res\<rparr>)
     else s\<lparr>sa_result := Some (Ok ())\<rparr>)"

text \<open>
  What can be observed: a connection that came to a listener is served with a table of services.
\<close>

datatype event = Internal | Served nat nat

text \<open>
  The steps: a round of \<^verbatim>\<open>Start\<close>; the first goroutine of an address begins to accept, on the listener that the variable
  holds; it serves a connection, with the table that the variable holds; it ends when its listener
  is closed; \<^verbatim>\<open>Stop\<close> closes the channel; the second goroutine of an address closes its listener;
  \<^verbatim>\<open>Stop\<close> closes the registry when all of these have ended.
\<close>

inductive start_step ::
  "(string \<Rightarrow> unit outcome) \<Rightarrow> (string \<Rightarrow> int \<Rightarrow> string) \<Rightarrow> ServerConfig list \<Rightarrow> startState \<Rightarrow> event \<Rightarrow> startState \<Rightarrow> bool"
  for L ha cfs where
  round: "sa_result s = None \<Longrightarrow> start_step L ha cfs s Internal (Start_round L ha cfs s)"
| accept: "0 < sa_new s \<Longrightarrow>
    start_step L ha cfs s Internal (s\<lparr>sa_new := sa_new s - 1, sa_accepting := sa_listener s # sa_accepting s\<rparr>)"
| serve: "l \<in> set (sa_accepting s) \<Longrightarrow> l \<notin> set (sa_closed s) \<Longrightarrow> start_step L ha cfs s (Served l (sa_rpc s)) s"
| ended: "l \<in> set (sa_accepting s) \<Longrightarrow> l \<in> set (sa_closed s) \<Longrightarrow>
    start_step L ha cfs s Internal (s\<lparr>sa_accepting := remove1 l (sa_accepting s), sa_wg := sa_wg s - 1\<rparr>)"
| stop: "\<not> sa_done s \<Longrightarrow> start_step L ha cfs s Internal (s\<lparr>sa_done := True\<rparr>)"
| close: "sa_done s \<Longrightarrow> i \<in> set (sa_closing s) \<Longrightarrow>
    start_step L ha cfs s Internal (s\<lparr>sa_closing := remove1 i (sa_closing s), sa_closed := i # sa_closed s, sa_wg := sa_wg s - 1\<rparr>)"
| finish: "sa_done s \<Longrightarrow> sa_wg s = 0 \<Longrightarrow> \<not> sa_stopped s \<Longrightarrow> start_step L ha cfs s Internal (s\<lparr>sa_stopped := True\<rparr>)"

inductive_simps start_step_served: "start_step L ha cfs s (Served l j) s'"

inductive start_reachable ::
  "(string \<Rightarrow> unit outcome) \<Rightarrow> (string \<Rightarrow> int \<Rightarrow> string) \<Rightarrow> ServerConfig list \<Rightarrow> startState \<Rightarrow> bool"
  for L ha cfs where
  start: "start_reachable L ha cfs start0"
| step: "start_reachable L ha cfs s \<Longrightarrow> start_step L ha cfs s e s' \<Longrightarrow> start_reachable L ha cfs s'"

section \<open>The invariant\<close>

text \<open>
  The variables hold the number of the last address that is listened to; the wait group counts the goroutines that have
  not ended; every listener is open with a goroutine to close it, or closed.
\<close>

definition start_inv :: "ServerConfig list \<Rightarrow> startState \<Rightarrow> bool" where
  "start_inv cfs s \<longleftrightarrow> sa_i s \<le> length cfs \<and> (0 < sa_i s \<longrightarrow> sa_listener s = sa_i s - 1 \<and> sa_rpc s = sa_i s - 1) \<and>
     sa_wg s = sa_new s + length (sa_accepting s) + length (sa_closing s) \<and>
     (0 < sa_new s \<longrightarrow> 0 < sa_i s) \<and> (\<forall>l \<in> set (sa_accepting s). l < sa_i s) \<and>
     set (sa_closing s) \<union> set (sa_closed s) = {..<sa_i s} \<and> distinct (sa_closing s @ sa_closed s) \<and>
     (sa_result s = Some (Ok ()) \<longrightarrow> sa_i s = length cfs) \<and> (sa_stopped s \<longrightarrow> sa_done s)"

lemma round_inv:
  assumes "start_inv cfs s" "sa_result s = None"
  shows "start_inv cfs (Start_round L ha cfs s)"
proof (cases "sa_i s < length cfs \<and> L (sc_Address ha (cfs ! sa_i s)) = Ok ()")
  case True
  have "{..<Suc (sa_i s)} = insert (sa_i s) {..<sa_i s}" by auto
  moreover have "sa_i s \<notin> set (sa_closing s) \<union> set (sa_closed s)" using assms(1) by (simp add: start_inv_def)
  ultimately show ?thesis using True assms by (auto simp: start_inv_def Start_round_def Let_def)
next
  case False
  then show ?thesis using assms by (auto simp: start_inv_def Start_round_def Let_def split: outcome.splits)
qed

lemma start_invD:
  assumes "start_inv cfs s"
  shows "sa_i s \<le> length cfs" "0 < sa_i s \<Longrightarrow> sa_listener s = sa_i s - 1" "0 < sa_i s \<Longrightarrow> sa_rpc s = sa_i s - 1"
    "sa_wg s = sa_new s + length (sa_accepting s) + length (sa_closing s)" "0 < sa_new s \<Longrightarrow> 0 < sa_i s"
    "\<And>l. l \<in> set (sa_accepting s) \<Longrightarrow> l < sa_i s" "set (sa_closing s) \<union> set (sa_closed s) = {..<sa_i s}"
    "distinct (sa_closing s @ sa_closed s)" "sa_result s = Some (Ok ()) \<Longrightarrow> sa_i s = length cfs" "sa_stopped s \<Longrightarrow> sa_done s"
  using assms unfolding start_inv_def by blast+

lemma remove1_length: "l \<in> set xs \<Longrightarrow> length xs = Suc (length (remove1 l xs))"
  by (induction xs) auto

lemma step_inv:
  assumes "start_step L ha cfs s e s'" "start_inv cfs s"
  shows "start_inv cfs s'"
  using assms(1)
proof cases
  case round
  then show ?thesis using round_inv assms(2) by simp
next
  case (ended l)
  have "\<forall>j \<in> set (remove1 l (sa_accepting s)). j < sa_i s" using start_invD(6) [OF assms(2)] by (meson notin_set_remove1)
  moreover have "sa_wg s - 1 = sa_new s + length (remove1 l (sa_accepting s)) + length (sa_closing s)"
    using start_invD(4) [OF assms(2)] remove1_length [OF ended(3)] by linarith
  ultimately show ?thesis using assms(2) unfolding ended(2) start_inv_def by simp
next
  case (close i)
  have d: "distinct (sa_closing s @ sa_closed s)" by (rule start_invD(8) [OF assms(2)])
  then have st: "set (remove1 i (sa_closing s)) = set (sa_closing s) - {i}" by (simp add: set_remove1_eq)
  have "sa_wg s - 1 = sa_new s + length (sa_accepting s) + length (remove1 i (sa_closing s))"
    using start_invD(4) [OF assms(2)] remove1_length [OF close(4)] by linarith
  moreover have "distinct (remove1 i (sa_closing s) @ i # sa_closed s)" using d st close(4) by auto
  moreover have "set (remove1 i (sa_closing s)) \<union> set (i # sa_closed s) = {..<sa_i s}"
    using start_invD(7) [OF assms(2)] st close(4) by auto
  ultimately show ?thesis using start_invD(1-3,5,6,9,10) [OF assms(2)] unfolding close(2) start_inv_def by auto
next
  case accept
  show ?thesis using start_invD [OF assms(2)] accept unfolding accept(2) start_inv_def by (auto simp: start_inv_def)
next
  case finish
  then show ?thesis using assms(2) unfolding start_inv_def by (simp only: finish(2)) simp
qed (use assms(2) in \<open>simp_all add: start_inv_def\<close>)

lemma reachable_inv: "start_reachable L ha cfs s \<Longrightarrow> start_inv cfs s"
proof (induction rule: start_reachable.induct)
  case start
  then show ?case by (simp add: start_inv_def start0_def)
next
  case (step s e s')
  then show ?case using step_inv by blast
qed

section \<open>Which table serves a connection\<close>

text \<open>
  With one address, a connection is accepted by the listener of that address and served with its table, at any time.
\<close>

theorem single_address_served:
  assumes "start_reachable L ha [cf] s" "start_step L ha [cf] s (Served l j) s'"
  shows "l = 0 \<and> j = 0"
proof -
  have inv: "start_inv [cf] s" by (rule reachable_inv [OF assms(1)])
  have l: "l \<in> set (sa_accepting s)" "j = sa_rpc s" using assms(2) by (simp_all add: start_step_served)
  have "l < sa_i s" using start_invD(6) [OF inv l(1)] .
  moreover have "sa_i s \<le> 1" using start_invD(1) [OF inv] by simp
  ultimately show ?thesis using start_invD(3) [OF inv] l(2) by simp
qed

text \<open>
  C34: With several addresses, every connection is served with the table of the last address once \<^verbatim>\<open>Start\<close> has returned, whichever
  address it came to.
\<close>

theorem connections_share_table:
  assumes "start_reachable L ha cfs s" "sa_result s = Some (Ok ())" "start_step L ha cfs s (Served l j) s'"
  shows "j = length cfs - 1 \<and> l < length cfs"
proof -
  have inv: "start_inv cfs s" by (rule reachable_inv [OF assms(1)])
  have l: "l \<in> set (sa_accepting s)" "j = sa_rpc s" using assms(3) by (simp_all add: start_step_served)
  have "l < sa_i s" "sa_i s = length cfs" using start_invD(6) [OF inv l(1)] start_invD(9) [OF inv assms(2)] .
  then show ?thesis using start_invD(3) [OF inv] l(2) by (cases cfs) simp_all
qed

text \<open>The steps of \<^verbatim>\<open>Start\<close> itself, one after the other, without any other goroutine.\<close>

fun Start_rounds :: "(string \<Rightarrow> unit outcome) \<Rightarrow> (string \<Rightarrow> int \<Rightarrow> string) \<Rightarrow> ServerConfig list \<Rightarrow> nat \<Rightarrow> startState \<Rightarrow> startState" where
  "Start_rounds L ha cfs 0 s = s"
| "Start_rounds L ha cfs (Suc n) s = (if sa_result s = None then Start_rounds L ha cfs n (Start_round L ha cfs s) else s)"

lemma rounds_reachable: "start_reachable L ha cfs s \<Longrightarrow> start_reachable L ha cfs (Start_rounds L ha cfs n s)"
  by (induction n arbitrary: s) (simp_all add: start_reachable.step [OF _ start_step.round])

lemma accept_reachable:
  "start_reachable L ha cfs s \<Longrightarrow> 0 < sa_new s \<Longrightarrow>
   start_reachable L ha cfs (s\<lparr>sa_new := sa_new s - 1, sa_accepting := sa_listener s # sa_accepting s\<rparr>)"
  by (rule start_reachable.step [OF _ start_step.accept])

text \<open>
  With two addresses it can happen that both goroutines accept on the listener of the second one: \<^verbatim>\<open>Start\<close> has returned without an
  error, all its goroutines run, and nobody accepts the connections to the first address.
\<close>

theorem first_listener_deserted:
  "\<exists>s. start_reachable (\<lambda>_. Ok ()) ha [cf, cf'] s \<and> sa_result s = Some (Ok ()) \<and> sa_new s = 0 \<and> sa_accepting s = [1, 1] \<and>
    (\<forall>l j s'. start_step (\<lambda>_. Ok ()) ha [cf, cf'] s (Served l j) s' \<longrightarrow> l = 1 \<and> j = 1)"
proof -
  let ?s = "Start_rounds (\<lambda>_. Ok ()) ha [cf, cf'] 3 start0"
  have s: "?s = start0\<lparr>sa_i := 2, sa_listener := 1, sa_rpc := 1, sa_result := Some (Ok ()), sa_new := 2, sa_closing := [1, 0], sa_wg := 4\<rparr>"
    by (simp add: Start_round_def start0_def eval_nat_numeral)
  have r: "start_reachable (\<lambda>_. Ok ()) ha [cf, cf'] ?s" by (rule rounds_reachable [OF start_reachable.start])
  have r1: "start_reachable (\<lambda>_. Ok ()) ha [cf, cf'] (?s\<lparr>sa_new := 1, sa_accepting := [1]\<rparr>)"
    using accept_reachable [OF r] unfolding s by (simp add: start0_def)
  have r2: "start_reachable (\<lambda>_. Ok ()) ha [cf, cf'] (?s\<lparr>sa_new := 0, sa_accepting := [1, 1]\<rparr>)"
    using accept_reachable [OF r1] unfolding s by (simp add: start0_def)
  show ?thesis by (rule exI, intro conjI, rule r2) (auto simp only: s, auto simp: start0_def start_step_served)
qed

section \<open>Stopping\<close>

text \<open>The number of internal steps that are left at most.\<close>

definition start_work :: "ServerConfig list \<Rightarrow> startState \<Rightarrow> nat" where
  "start_work cfs s = 5 * (length cfs - sa_i s) + of_bool (sa_result s = None) + 2 * sa_new s + length (sa_accepting s) +
     length (sa_closing s) + of_bool (\<not> sa_done s) + of_bool (\<not> sa_stopped s)"

lemma round_work: "sa_result s = None \<Longrightarrow> start_work cfs (Start_round L ha cfs s) < start_work cfs s"
  by (auto simp: start_work_def Start_round_def Let_def split: outcome.split)

lemma internal_work:
  assumes "start_step L ha cfs s Internal s'"
  shows "start_work cfs s' < start_work cfs s"
  using assms
proof cases
  case (ended l)
  then show ?thesis using remove1_length [OF ended(2)] unfolding start_work_def ended(1) by simp
next
  case (close i)
  then show ?thesis using remove1_length [OF close(3)] unfolding start_work_def close(1) by simp
qed (auto simp: round_work, auto simp: start_work_def)

lemma internal_progress:
  assumes "start_reachable L ha cfs s" "\<And>s'. \<not> start_step L ha cfs s Internal s'"
  shows "sa_stopped s \<and> sa_result s \<noteq> None \<and> sa_new s = 0 \<and> sa_accepting s = [] \<and> set (sa_closed s) = {..<sa_i s}"
proof -
  have inv: "start_inv cfs s" by (rule reachable_inv [OF assms(1)])
  have d: "sa_done s" "sa_result s \<noteq> None" "sa_new s = 0" using assms(2) start_step.stop start_step.round start_step.accept by blast+
  then have c: "sa_closing s = []" using assms(2) start_step.close [of s "hd (sa_closing s)"] by (metis list.set_sel(1))
  then have cl: "set (sa_closed s) = {..<sa_i s}" using start_invD(7) [OF inv] by simp
  have "l \<in> set (sa_closed s)" if "l \<in> set (sa_accepting s)" for l using start_invD(6) [OF inv that] cl by simp
  then have a: "sa_accepting s = []" using assms(2) start_step.ended by (metis list.set_sel(1))
  then have "sa_wg s = 0" using start_invD(4) [OF inv] d(3) c by simp
  then have "sa_stopped s" using assms(2) d(1) start_step.finish by blast
  then show ?thesis using d a cl by simp
qed


section \<open>Instances\<close>

definition server_conf1 :: ServerConfig where
  "server_conf1 = \<lparr>cf_Protocol = ''jsonrpc'', cf_IP = ''h'', cf_Port = 1\<rparr>"

text \<open>One and two addresses are listened to, and one goroutine accepts.\<close>

definition listening1 :: startState where
  "listening1 = start0\<lparr>sa_i := 1, sa_result := Some (Ok ()), sa_accepting := [0], sa_closing := [0], sa_wg := 2\<rparr>"

definition listening2 :: startState where
  "listening2 = start0\<lparr>sa_i := 2, sa_listener := 1, sa_rpc := 1, sa_result := Some (Ok ()), sa_new := 1, sa_accepting := [1], sa_closing := [1, 0], sa_wg := 4\<rparr>"

lemma listening1_reachable: "start_reachable (\<lambda>_. Ok ()) (\<lambda>_ _. []) [server_conf1] listening1"
proof -
  have s: "Start_rounds (\<lambda>_. Ok ()) (\<lambda>_ _. []) [server_conf1] 2 start0 = listening1\<lparr>sa_new := 1, sa_accepting := []\<rparr>"
    by (simp add: Start_round_def start0_def listening1_def eval_nat_numeral)
  have "start_reachable (\<lambda>_. Ok ()) (\<lambda>_ _. []) [server_conf1] (Start_rounds (\<lambda>_. Ok ()) (\<lambda>_ _. []) [server_conf1] 2 start0)"
    by (rule rounds_reachable [OF start_reachable.start])
  from accept_reachable [OF this [unfolded s]] show ?thesis by (simp add: listening1_def start0_def)
qed

lemma listening2_reachable: "start_reachable (\<lambda>_. Ok ()) (\<lambda>_ _. []) [server_conf1, server_conf1] listening2"
proof -
  have s: "Start_rounds (\<lambda>_. Ok ()) (\<lambda>_ _. []) [server_conf1, server_conf1] 3 start0 = listening2\<lparr>sa_new := 2, sa_accepting := []\<rparr>"
    by (simp add: Start_round_def start0_def listening2_def eval_nat_numeral)
  have "start_reachable (\<lambda>_. Ok ()) (\<lambda>_ _. []) [server_conf1, server_conf1] (Start_rounds (\<lambda>_. Ok ()) (\<lambda>_ _. []) [server_conf1, server_conf1] 3 start0)"
    by (rule rounds_reachable [OF start_reachable.start])
  from accept_reachable [OF this [unfolded s]] show ?thesis by (simp add: listening2_def start0_def)
qed

lemma listening_serves:
  "start_step (\<lambda>_. Ok ()) (\<lambda>_ _. []) [server_conf1] listening1 (Served 0 0) listening1"
  "start_step (\<lambda>_. Ok ()) (\<lambda>_ _. []) [server_conf1, server_conf1] listening2 (Served 1 1) listening2"
  by (simp_all add: start_step_served listening1_def listening2_def start0_def)

theorem single_address_served_witness:
  "\<exists>s l j s'. start_reachable (\<lambda>_. Ok ()) (\<lambda>_ _. []) [server_conf1] s \<and> start_step (\<lambda>_. Ok ()) (\<lambda>_ _. []) [server_conf1] s (Served l j) s' \<and> l = 0 \<and> j = 0"
  using single_address_served [OF listening1_reachable listening_serves(1)] listening1_reachable listening_serves(1) by blast

theorem connections_share_table_witness:
  "\<exists>s l j s'. start_reachable (\<lambda>_. Ok ()) (\<lambda>_ _. []) [server_conf1, server_conf1] s \<and> start_step (\<lambda>_. Ok ()) (\<lambda>_ _. []) [server_conf1, server_conf1] s (Served l j) s' \<and>
    j = length [server_conf1, server_conf1] - 1 \<and> l < length [server_conf1, server_conf1]"
proof -
  have ok: "sa_result listening2 = Some (Ok ())" by (simp add: listening2_def)
  from connections_share_table [OF listening2_reachable ok listening_serves(2)] show ?thesis
    using listening2_reachable listening_serves(2) by blast
qed


end
