(* ===== verification/Server_Handle.thy ===== *)
theory Server_Handle
  imports Server
begin

text \<open>
  What \<^verbatim>\<open>Handle\<close> of \<^verbatim>\<open>server/server.go\<close> does, as one list of publications: the pairs of a service configuration that fits the handler
  and an address with its protocol, in the order of the two loops. The handler is put into the table of the address, and the
  configuration is registered, for one publication after the other.
\<close>

section \<open>Publications\<close>

definition fits :: "handler \<Rightarrow> ServiceConfig \<Rightarrow> bool" where
  "fits h sc \<longleftrightarrow> sc_Service sc = hd_Service h \<and> sc_Version sc = hd_Version h"

definition pubs_at ::
  "(string \<Rightarrow> int \<Rightarrow> string) \<Rightarrow> string \<Rightarrow> ServiceConfig \<Rightarrow> (nat \<times> ServerConfig) list \<Rightarrow> (nat \<times> ProviderServiceConfig) list" where
  "pubs_at ha ms sc cfs = map (\<lambda>(j, cf). (j, \<lparr>pc_ServiceConfig = sc, pc_Path = sc_Address ha cf, pc_Methods = ms\<rparr>))
     (filter (\<lambda>(j, cf). cf_Protocol cf = sc_Protocol sc) cfs)"

definition publications ::
  "(string \<Rightarrow> int \<Rightarrow> string) \<Rightarrow> string \<Rightarrow> handler \<Rightarrow> ServerConfig list \<Rightarrow> ServiceConfig list \<Rightarrow> (nat \<times> ProviderServiceConfig) list" where
  "publications ha ms h cfs scs = concat (map (\<lambda>sc. pubs_at ha ms sc (List.enumerate 0 cfs)) (filter (fits h) scs))"

text \<open>The names of the methods that a registration reports, the service that it installs, and whether there is any.\<close>

definition method_names :: "(nat \<Rightarrow> bool) \<Rightarrow> handler \<Rightarrow> string" where
  "method_names up h = TrimSuffix (snd (install_methods up (hd_Methods h) Map.empty [])) '',''"

definition handler_service :: "(nat \<Rightarrow> bool) \<Rightarrow> handler \<Rightarrow> service" where
  "handler_service up h = \<lparr>svc_name = hd_Service h, svc_rcvr = h, svc_method = fst (install_methods up (hd_Methods h) Map.empty [])\<rparr>"

definition servable :: "(nat \<Rightarrow> bool) \<Rightarrow> handler \<Rightarrow> bool" where
  "servable up h \<longleftrightarrow> isExported up (hd_TypeName h) \<and> (\<exists>m \<in> set (hd_Methods h). prepareMethod up m \<noteq> None)"

lemma install_names: "snd (install_methods up ms tab ns) = [] \<longleftrightarrow> ns = [] \<and> (\<forall>m \<in> set ms. prepareMethod up m = None)"
  by (induction ms arbitrary: tab ns) (auto split: option.splits)

lemma register_cases:
  "register up h tab =
     (if servable up h \<and> tab (hd_Service h) = None then (Ok (method_names up h), tab(hd_Service h \<mapsto> handler_service up h))
      else (Err (if \<not> isExported up (hd_TypeName h) then Errorf (''rpc Register: type '' @ hd_TypeName h @ '' is not exported'')
        else if tab (hd_Service h) \<noteq> None then Errorf (''rpc: service already defined: '' @ hd_Service h)
        else Errorf (''rpc Register: type '' @ hd_Service h @ '' has no exported methods of suitable type'')), tab))"
proof -
  obtain t ns where i: "install_methods up (hd_Methods h) Map.empty [] = (t, ns)" by fastforce
  then have "ns = [] \<longleftrightarrow> (\<forall>m \<in> set (hd_Methods h). prepareMethod up m = None)"
    using install_names [of up "hd_Methods h" Map.empty "[]"] by simp
  then show ?thesis by (auto simp: register_def Let_def i servable_def method_names_def handler_service_def)
qed

section \<open>The two loops as one\<close>

fun publish ::
  "(nat \<Rightarrow> bool) \<Rightarrow> (ProviderServiceConfig \<Rightarrow> 'g \<Rightarrow> unit outcome \<times> 'g) \<Rightarrow> handler \<Rightarrow> (nat \<times> ProviderServiceConfig) list
   \<Rightarrow> rpcServer list \<Rightarrow> 'g \<Rightarrow> unit outcome \<times> rpcServer list \<times> 'g" where
  "publish up RG h [] rpcs g = (Ok (), rpcs, g)"
| "publish up RG h ((j, pc) # ps) rpcs g =
     (case register up h (rs_serviceMap (rpcs ! j)) of
        (Ok _, tab) \<Rightarrow>
          (let rpcs = rpcs[j := (rpcs ! j)\<lparr>rs_serviceMap := tab\<rparr>] in
           case RG pc g of (Ok _, g) \<Rightarrow> publish up RG h ps rpcs g | (res, g) \<Rightarrow> (res, rpcs, g))
      | (Err e, tab) \<Rightarrow> (Err e, rpcs, g) | (Panic, tab) \<Rightarrow> (Panic, rpcs, g) | (NoFuel, tab) \<Rightarrow> (NoFuel, rpcs, g))"

lemma publish_append:
  "publish up RG h (ps @ qs) rpcs g =
     (case publish up RG h ps rpcs g of (Ok _, rpcs, g) \<Rightarrow> publish up RG h qs rpcs g | res \<Rightarrow> res)"
  by (induction ps arbitrary: rpcs g) (auto simp: Let_def split: prod.splits outcome.splits)

lemma Handle_confs_publish:
  "Handle_confs up ha RG h sc j cfs flag rpcs g =
     (case publish up RG h (pubs_at ha (method_names up h) sc (List.enumerate j cfs)) rpcs g of
        (Ok _, rpcs, g) \<Rightarrow> (Ok (flag \<or> pubs_at ha (method_names up h) sc (List.enumerate j cfs) \<noteq> []), rpcs, g)
      | (Err e, rpcs, g) \<Rightarrow> (Err e, rpcs, g) | (Panic, rpcs, g) \<Rightarrow> (Panic, rpcs, g) | (NoFuel, rpcs, g) \<Rightarrow> (NoFuel, rpcs, g))"
proof (induction cfs arbitrary: j flag rpcs g)
  case (Cons cf cfs)
  show ?case
  proof (cases "cf_Protocol cf = sc_Protocol sc")
    case True
    have p: "pubs_at ha (method_names up h) sc (List.enumerate j (cf # cfs)) =
        (j, \<lparr>pc_ServiceConfig = sc, pc_Path = sc_Address ha cf, pc_Methods = method_names up h\<rparr>) # pubs_at ha (method_names up h) sc (List.enumerate (Suc j) cfs)"
      using True by (simp add: pubs_at_def)
    show ?thesis using True unfolding p by (auto simp: register_cases Let_def Cons.IH split: prod.splits outcome.splits)
  next
    case False
    then have p: "pubs_at ha (method_names up h) sc (List.enumerate j (cf # cfs)) = pubs_at ha (method_names up h) sc (List.enumerate (Suc j) cfs)"
      by (simp add: pubs_at_def)
    show ?thesis using False unfolding p by (simp add: Cons.IH)
  qed
qed (simp add: pubs_at_def)

lemma Handle_services_publish:
  "Handle_services up ha RG h cfs scs flag rpcs g =
     (case publish up RG h (publications ha (method_names up h) h cfs scs) rpcs g of
        (Ok _, rpcs, g) \<Rightarrow> (Ok (flag \<or> publications ha (method_names up h) h cfs scs \<noteq> []), rpcs, g)
      | (Err e, rpcs, g) \<Rightarrow> (Err e, rpcs, g) | (Panic, rpcs, g) \<Rightarrow> (Panic, rpcs, g) | (NoFuel, rpcs, g) \<Rightarrow> (NoFuel, rpcs, g))"
proof (induction scs arbitrary: flag rpcs g)
  case (Cons sc scs)
  show ?case
  proof (cases "fits h sc")
    case True
    have p: "publications ha (method_names up h) h cfs (sc # scs) =
        pubs_at ha (method_names up h) sc (List.enumerate 0 cfs) @ publications ha (method_names up h) h cfs scs"
      using True by (simp add: publications_def)
    show ?thesis using True unfolding p publish_append
      by (auto simp: fits_def Handle_confs_publish Cons.IH split: prod.splits outcome.splits)
  next
    case False
    then have p: "publications ha (method_names up h) h cfs (sc # scs) = publications ha (method_names up h) h cfs scs"
      by (simp add: publications_def)
    show ?thesis using False unfolding p by (auto simp: fits_def Cons.IH)
  qed
qed (simp add: publications_def)

section \<open>When a handler is registered\<close>

fun register_all :: "(ProviderServiceConfig \<Rightarrow> 'g \<Rightarrow> unit outcome \<times> 'g) \<Rightarrow> ProviderServiceConfig list \<Rightarrow> 'g \<Rightarrow> unit outcome \<times> 'g" where
  "register_all RG [] g = (Ok (), g)"
| "register_all RG (pc # pcs) g = (case RG pc g of (Ok _, g) \<Rightarrow> register_all RG pcs g | res \<Rightarrow> res)"

definition installed :: "(nat \<Rightarrow> bool) \<Rightarrow> handler \<Rightarrow> nat set \<Rightarrow> rpcServer list \<Rightarrow> rpcServer list" where
  "installed up h J rpcs = map (\<lambda>(j, r). if j \<in> J then r\<lparr>rs_serviceMap := (rs_serviceMap r)(hd_Service h \<mapsto> handler_service up h)\<rparr> else r)
     (List.enumerate 0 rpcs)"

lemma installed_nth:
  "length (installed up h J rpcs) = length rpcs"
  "j < length rpcs \<Longrightarrow> installed up h J rpcs ! j =
     (if j \<in> J then (rpcs ! j)\<lparr>rs_serviceMap := (rs_serviceMap (rpcs ! j))(hd_Service h \<mapsto> handler_service up h)\<rparr> else rpcs ! j)"
  by (simp_all add: installed_def nth_enumerate_eq)

lemma installed_insert:
  assumes "j < length rpcs" "j \<notin> J"
  shows "installed up h J (rpcs[j := (rpcs ! j)\<lparr>rs_serviceMap := (rs_serviceMap (rpcs ! j))(hd_Service h \<mapsto> handler_service up h)\<rparr>]) =
    installed up h (insert j J) rpcs"
proof (rule nth_equalityI)
  fix i assume "i < length (installed up h J (rpcs[j := (rpcs ! j)\<lparr>rs_serviceMap := (rs_serviceMap (rpcs ! j))(hd_Service h \<mapsto> handler_service up h)\<rparr>]))"
  then show "installed up h J (rpcs[j := (rpcs ! j)\<lparr>rs_serviceMap := (rs_serviceMap (rpcs ! j))(hd_Service h \<mapsto> handler_service up h)\<rparr>]) ! i =
      installed up h (insert j J) rpcs ! i"
    using assms by (cases "i = j") (simp_all add: installed_nth)
qed (simp add: installed_nth)

lemma publish_ok:
  assumes "\<forall>j \<in> fst ` set ps. j < length rpcs"
  shows "publish up RG h ps rpcs g = (Ok (), rpcs', g') \<longleftrightarrow>
    (ps = [] \<or> servable up h) \<and> distinct (map fst ps) \<and> (\<forall>j \<in> fst ` set ps. rs_serviceMap (rpcs ! j) (hd_Service h) = None) \<and>
    register_all RG (map snd ps) g = (Ok (), g') \<and> rpcs' = installed up h (fst ` set ps) rpcs"
  using assms
proof (induction ps arbitrary: rpcs g)
  case Nil
  have "installed up h {} rpcs = rpcs" by (rule nth_equalityI) (simp_all add: installed_nth)
  then show ?case by auto
next
  case (Cons p ps)
  obtain j pc where p: "p = (j, pc)" by fastforce
  have j: "j < length rpcs" using Cons.prems p by simp
  let ?tab = "rs_serviceMap (rpcs ! j)" and ?r = "rpcs[j := (rpcs ! j)\<lparr>rs_serviceMap := (rs_serviceMap (rpcs ! j))(hd_Service h \<mapsto> handler_service up h)\<rparr>]"
  obtain res g1 where g1: "RG pc g = (res, g1)" by fastforce
  have IH: "publish up RG h ps ?r g1 = (Ok (), rpcs', g') \<longleftrightarrow> (ps = [] \<or> servable up h) \<and> distinct (map fst ps) \<and>
      (\<forall>j \<in> fst ` set ps. rs_serviceMap (?r ! j) (hd_Service h) = None) \<and> register_all RG (map snd ps) g1 = (Ok (), g') \<and>
      rpcs' = installed up h (fst ` set ps) ?r"
    using Cons.prems by (intro Cons.IH) simp
  have abs: "(\<forall>i \<in> fst ` set ps. rs_serviceMap (?r ! i) (hd_Service h) = None) \<longleftrightarrow>
      j \<notin> fst ` set ps \<and> (\<forall>i \<in> fst ` set ps. rs_serviceMap (rpcs ! i) (hd_Service h) = None)"
    using j by (auto simp: nth_list_update)
  show ?case
  proof (cases "servable up h \<and> ?tab (hd_Service h) = None \<and> res = Ok ()")
    case True
    have e: "register up h ?tab = (Ok (method_names up h), ?tab(hd_Service h \<mapsto> handler_service up h))" using True by (simp add: register_cases)
    have step: "publish up RG h (p # ps) rpcs g = publish up RG h ps ?r g1" unfolding p using True e g1 by (simp add: Let_def)
    have "rpcs' = installed up h (fst ` set ps) ?r \<longleftrightarrow> rpcs' = installed up h (insert j (fst ` set ps)) rpcs" if "j \<notin> fst ` set ps"
      using installed_insert [OF j that] by simp
    then show ?thesis unfolding step IH abs using True g1 by (auto simp: p)
  next
    case False
    then show ?thesis unfolding p using g1 by (auto simp: register_cases Let_def split: outcome.splits)
  qed
qed

lemma publications_bound: "j \<in> fst ` set (publications ha ms h cfs scs) \<Longrightarrow> j < length cfs"
  by (auto simp: publications_def pubs_at_def in_set_enumerate_eq)

text \<open>The registry of the server can be missing, after \<^verbatim>\<open>Stop\<close>.\<close>

abbreviation opt_reg :: "(ProviderServiceConfig \<Rightarrow> 'g \<Rightarrow> unit outcome \<times> 'g) \<Rightarrow> ProviderServiceConfig \<Rightarrow> 'g option \<Rightarrow> unit outcome \<times> 'g option" where
  "opt_reg RG \<equiv> \<lambda>c go. case go of None \<Rightarrow> (Panic, None) | Some g \<Rightarrow> (case RG c g of (res, g) \<Rightarrow> (res, Some g))"

lemma register_all_opt: "register_all (opt_reg RG) pcs (Some g) = (fst (register_all RG pcs g), Some (snd (register_all RG pcs g)))"
  by (induction pcs arbitrary: g) (auto split: prod.splits outcome.splits)

lemma Handle_ok:
  "Handle up ha RG h s = (Ok (), s') \<longleftrightarrow> (\<exists>rpcs g. publish up (opt_reg RG) h
      (publications ha (method_names up h) h (op_ConfList (sr_opts s)) (op_ServiceConfList (sr_opts s))) (sr_rpc s) (op_Registry (sr_opts s)) = (Ok (), rpcs, g) \<and>
    publications ha (method_names up h) h (op_ConfList (sr_opts s)) (op_ServiceConfList (sr_opts s)) \<noteq> [] \<and>
    s' = s\<lparr>sr_rpc := rpcs, sr_opts := (sr_opts s)\<lparr>op_Registry := g\<rparr>, sr_handlers := (sr_handlers s)(hd_Service h \<mapsto> h)\<rparr>)"
  by (auto simp: Handle_def Let_def Handle_services_publish split: prod.splits outcome.splits if_splits)

text \<open>
  C7: A handler is registered exactly if its type is exported and has a method that can be called, some configuration and some
  address fit it, no address fits two configurations, none of the tables of these addresses has a service of that name, and the registry accepts
  every configuration in turn. Then the tables of these addresses have the service with the methods that can be called, the other tables
  are as before, and the handler is kept under the name of its service.
\<close>

theorem handle_registers:
  assumes "length (sr_rpc s) = length (op_ConfList (sr_opts s))" "op_Registry (sr_opts s) = Some g"
    and "ps = publications ha (method_names up h) h (op_ConfList (sr_opts s)) (op_ServiceConfList (sr_opts s))"
  shows "Handle up ha RG h s = (Ok (), s') \<longleftrightarrow> servable up h \<and> ps \<noteq> [] \<and> distinct (map fst ps) \<and>
      (\<forall>j \<in> fst ` set ps. rs_serviceMap (sr_rpc s ! j) (hd_Service h) = None) \<and> fst (register_all RG (map snd ps) g) = Ok () \<and>
      s' = s\<lparr>sr_rpc := installed up h (fst ` set ps) (sr_rpc s),
        sr_opts := (sr_opts s)\<lparr>op_Registry := Some (snd (register_all RG (map snd ps) g))\<rparr>, sr_handlers := (sr_handlers s)(hd_Service h \<mapsto> h)\<rparr>"
proof -
  have b: "\<forall>j \<in> fst ` set ps. j < length (sr_rpc s)" using publications_bound assms(1,3) by simp
  show ?thesis unfolding Handle_ok assms(3) [symmetric] assms(2) publish_ok [OF b] register_all_opt by (cases ps) auto
qed

text \<open>
  Two configurations of a service that differ in their group only cannot both be registered: whatever the registry does, \<^verbatim>\<open>Handle\<close> fails, because
  the table of an address that fits both has the service already when the second one comes. The registry has the first one by then.
\<close>

theorem two_groups_refused:
  assumes "length (sr_rpc s) = length (op_ConfList (sr_opts s))" "op_Registry (sr_opts s) = Some g"
    and "op_ServiceConfList (sr_opts s) = [sc, sc\<lparr>sc_Group := gr\<rparr>]" "fits h sc" "op_ConfList (sr_opts s) = [cf]" "cf_Protocol cf = sc_Protocol sc"
    and "servable up h" "rs_serviceMap (sr_rpc s ! 0) (hd_Service h) = None" "\<And>pc g. RG pc g = (Ok (), snd (RG pc g))"
  shows "fst (Handle up ha RG h s) = Err (Errorf (''rpc: service already defined: '' @ hd_Service h)) \<and>
    op_Registry (sr_opts (snd (Handle up ha RG h s))) =
      Some (snd (RG \<lparr>pc_ServiceConfig = sc, pc_Path = sc_Address ha cf, pc_Methods = method_names up h\<rparr> g)) \<and>
    sr_handlers (snd (Handle up ha RG h s)) = sr_handlers s"
proof -
  have f: "fits h (sc\<lparr>sc_Group := gr\<rparr>)" using assms(4) by (simp add: fits_def)
  let ?pc = "\<lambda>sc. \<lparr>pc_ServiceConfig = sc, pc_Path = sc_Address ha cf, pc_Methods = method_names up h\<rparr>"
  have ps: "publications ha (method_names up h) h [cf] [sc, sc\<lparr>sc_Group := gr\<rparr>] = [(0, ?pc sc), (0, ?pc (sc\<lparr>sc_Group := gr\<rparr>))]"
    using assms(4,6) f by (simp add: publications_def pubs_at_def)
  have ex: "isExported up (hd_TypeName h)" using assms(7) by (simp add: servable_def)
  obtain g1 where r: "RG (?pc sc) g = (Ok (), g1)" using assms(9) by metis
  have l: "0 < length (sr_rpc s)" using assms(1,5) by simp
  have "publish up (opt_reg RG) h [(0, ?pc sc), (0, ?pc (sc\<lparr>sc_Group := gr\<rparr>))] (sr_rpc s) (Some g) =
      (Err (Errorf (''rpc: service already defined: '' @ hd_Service h)),
       (sr_rpc s)[0 := (sr_rpc s ! 0)\<lparr>rs_serviceMap := (rs_serviceMap (sr_rpc s ! 0))(hd_Service h \<mapsto> handler_service up h)\<rparr>], Some g1)"
    using assms(7,8) ex r l by (simp add: register_cases)
  then show ?thesis by (simp add: Handle_def Let_def Handle_services_publish assms(2,3,5) ps r)
qed

text \<open>
  After \<^verbatim>\<open>Stop\<close> the registry is gone, and registering a handler that fits panics, with the service in the table.
\<close>

theorem handle_after_stop:
  assumes "\<not> sr_once s" "servable up h"
    and "publications ha (method_names up h) h (op_ConfList (sr_opts s)) (op_ServiceConfList (sr_opts s)) = (j, pc) # ps"
    and "rs_serviceMap (sr_rpc s ! j) (hd_Service h) = None"
  shows "fst (Handle up ha RG h (snd (Stop cl s))) = Panic \<and> fst (Stop cl (snd (Stop cl s))) = None"
  using assms by (simp add: Stop_def Handle_def Let_def Handle_services_publish register_cases)

section \<open>An instance\<close>

definition sconf1 :: ServiceConfig where
  "sconf1 = \<lparr>sc_Protocol = ''jsonrpc'', sc_Service = ''s'', sc_Group = [], sc_Version = []\<rparr>"

definition server1 :: "ServiceConfig list \<Rightarrow> (unit, string, ProviderServiceConfig list, unit) server" where
  "server1 scs = \<lparr>sr_rpc = [initServer], sr_done = False, sr_once = False,
     sr_opts = \<lparr>op_Codecs = Map.empty, op_Registry = Some [], op_Transport = Some (),
       op_ConfList = [\<lparr>cf_Protocol = ''jsonrpc'', cf_IP = ''h'', cf_Port = 1\<rparr>], op_ServiceConfList = scs\<rparr>, sr_handlers = Map.empty\<rparr>"

lemma server1_new:
  "newServer [opt_Registry [], opt_Transport (), opt_ConfList (\<lambda>ip. Ok ip) [\<lparr>cf_Protocol = ''jsonrpc'', cf_IP = ''h'', cf_Port = 1\<rparr>], opt_ServiceConfList scs] =
    Ok (server1 scs)"
  by (simp add: newServer_def s_newOptions_def opt_Registry_def opt_Transport_def opt_ConfList_def opt_ServiceConfList_def server1_def Let_def)

lemma servable1: "servable (\<lambda>_. False) handler1"
  using exported1 [of "\<lambda>_. False"] prepare1 [of "\<lambda>_. False"] by (simp add: servable_def handler1_def)

lemma fits1: "fits handler1 sconf1"
  by (simp add: fits_def handler1_def sconf1_def)

lemma publications1:
  "publications (\<lambda>ip p. ip) ms handler1 (op_ConfList (sr_opts (server1 [sconf1]))) (op_ServiceConfList (sr_opts (server1 [sconf1]))) =
    [(0, \<lparr>pc_ServiceConfig = sconf1, pc_Path = ''h'', pc_Methods = ms\<rparr>)]"
  by (simp add: publications_def pubs_at_def fits1 server1_def sc_Address_def) (simp add: sconf1_def)

theorem handle_registers_witness:
  "\<exists>s'. Handle (\<lambda>_. False) (\<lambda>ip p. ip) (\<lambda>pc g. (Ok (), g @ [pc])) handler1 (server1 [sconf1]) = (Ok (), s') \<and>
    op_Registry (sr_opts s') = Some [\<lparr>pc_ServiceConfig = sconf1, pc_Path = ''h'', pc_Methods = method_names (\<lambda>_. False) handler1\<rparr>]"
proof -
  have "length (sr_rpc (server1 [sconf1])) = length (op_ConfList (sr_opts (server1 [sconf1])))" "op_Registry (sr_opts (server1 [sconf1])) = Some []"
    by (simp_all add: server1_def)
  from handle_registers [OF this publications1 [symmetric], where RG = "\<lambda>pc g. (Ok (), g @ [pc])"] show ?thesis
    by (simp add: servable1) (simp add: server1_def initServer_def)
qed

theorem two_groups_refused_witness:
  "fst (Handle (\<lambda>_. False) (\<lambda>ip p. ip) (\<lambda>pc g. (Ok (), g @ [pc])) handler1 (server1 [sconf1, sconf1\<lparr>sc_Group := ''g''\<rparr>])) =
    Err (Errorf ''rpc: service already defined: s'')"
proof -
  have n: "hd_Service handler1 = ''s''" by (simp add: handler1_def)
  show ?thesis
    using two_groups_refused [of "server1 [sconf1, sconf1\<lparr>sc_Group := ''g''\<rparr>]" "[]" sconf1 "''g''" handler1 _ "\<lambda>_. False" "\<lambda>pc g. (Ok (), g @ [pc])" "\<lambda>ip p. ip"]
    by (simp add: fits1 servable1 server1_def n) (simp add: sconf1_def initServer_def)
qed

theorem handle_after_stop_witness:
  "fst (Handle (\<lambda>_. False) (\<lambda>ip p. ip) (\<lambda>pc g. (Ok (), g @ [pc])) handler1 (snd (Stop id (server1 [sconf1])))) = Panic"
proof -
  have "\<not> sr_once (server1 [sconf1])" "rs_serviceMap (sr_rpc (server1 [sconf1]) ! 0) (hd_Service handler1) = None" by (simp_all add: server1_def initServer_def)
  from handle_after_stop [OF this(1) servable1 publications1 this(2)] show ?thesis by simp
qed

end
