(* ===== verification/Server_Json.thy ===== *)
theory Server_Json
  imports Server
begin

text \<open>
  The server with the JSON-RPC codec: a call of a client goes through the client side of the codec, the loop and the service table of
  the server, the method of a handler, and back.
\<close>

unbundle bit_operations_syntax

section \<open>The JSON-RPC codec in the server\<close>

text \<open>
  \<^verbatim>\<open>jsonrpc.NewCodec\<close> as the codec of the server. \<open>U\<close> is \<^verbatim>\<open>json.Unmarshal\<close> into a value and \<open>M\<close> what the codec sees of a value
  that it writes.
\<close>

definition jsonIf :: "(string \<Rightarrow> 'x \<Rightarrow> goerr option \<times> 'x) \<Rightarrow> ('x \<Rightarrow> goarg) \<Rightarrow> (jsonCodec, 'x) serverIf" where
  "jsonIf U M = \<lparr>
     si_New = (\<lambda>body k. jc_NewCodec (chars body) (sv_raw (jc_s k))),
     si_ReadHeader = (\<lambda>m k. jc_ReadHeader id m Request k),
     si_ReadBody = (\<lambda>b k. case jc_ReadBody U b k of (e, b) \<Rightarrow> (e, b, k)),
     si_Write = (\<lambda>m x k. jc_Write m (map_option M x) k),
     si_wreset = (\<lambda>k. k\<lparr>jc_s := (jc_s k)\<lparr>sv_out := []\<rparr>\<rparr>),
     si_wbytes = (\<lambda>k. str (sv_out (jc_s k))),
     si_feed = (\<lambda>body k. k\<lparr>jc_s := (jc_s k)\<lparr>sv_dec := (sv_dec (jc_s k))\<lparr>jd_in := jd_in (sv_dec (jc_s k)) @ chars body\<rparr>\<rparr>\<rparr>)\<rparr>"

lemma header_get_msg: "header_get (msg_header (Some h)) k = (case h k of None \<Rightarrow> [] | Some v \<Rightarrow> str v)"
  by (auto simp: header_get_def msg_header_def split: option.splits)

lemma sendResponse_ok:
  assumes "WriteResponse S C \<lparr>sp_Service = sq_Service req, sp_Method = sq_Method req, sp_Seq = sq_Seq req, sp_Error = []\<rparr> reply c = (Ok (), c')"
  shows "\<exists>s'. sendResponse S C E req reply [] s c = (Ok (), s', c')"
proof -
  obtain s1 where g: "getResponse s = (sresponse0, s1)" by (cases "rs_freeRsp s") (simp_all add: getResponse_def)
  show ?thesis using assms by (simp add: sendResponse_def g Let_def sresponse0_def)
qed

text \<open>
  A call from the client to the method of a handler and back, over JSON-RPC. A request that the client writes, arriving with a POST
  for a registered service, is decoded into the argument of the method; the method is called, and the
  server sends one package, from which the client reads what the method left in its reply, as the response to its
  request.
\<close>

theorem json_call_served:
  assumes c: "cc_out c = []" and k: "sv_raw (jc_s k) \<noteq> []" "sv_raw (jc_s k) ! null_ptr = ''null''"
    and m: "m_Method m = str meth" "meth \<noteq> []" "utf8_text meth" "check_param (Some p) = Ok (Some p)" "ga_Marshal p = Ok pt" "json_text pt"
      "hd pt = CHR ''['' \<or> hd pt = CHR ''{''"
    and h: "h ''HttpMethod'' = Some ''POST''" "h ''Path'' = Some sname" "sname \<noteq> []"
    and s: "rs_serviceMap s sname = Some svc" "svc_method svc meth = Some mt" "\<not> mt_stream mt"
      "rt_Kind (mt_ArgType mt) \<noteq> KPtr" "mt_ReplyType mt = Some rt" "rt_Elem rt = Some ru"
    and e: "U pt (ge_New E (mt_ArgType mt)) = (None, a)"
      "call_unary E mt ctx \<lparr>va_Type = mt_ArgType mt, va_Val = a\<rparr> \<lparr>va_Type = rt_ptr ru, va_Val = ge_New E ru\<rparr> = Ok (None, v)"
      "ga_Marshal (M v) = Ok rtext" "json_text rtext" "\<not> is_null rtext"
    and so: "\<And>b. fst (so_Send S \<lparr>pk_Header = Some [''Content-Type'' \<mapsto> (case h ''Content-Type'' of None \<Rightarrow> [] | Some t \<Rightarrow> t)], pk_Body = b\<rparr> sock) = Ok ()"
  shows "\<exists>c1 s' c' body m2 c2. cc_Write m (Some p) c = (Ok (), c1) \<and>
    serveRequest S (jsonIf U M) E SF ctx s (snewRPCCodec (jsonIf U M) \<lparr>pk_Header = Some h, pk_Body = str (cc_out c1)\<rparr> sock k) = (Ok (), s', c') \<and>
    sk_socket c' = snd (so_Send S \<lparr>pk_Header = Some [''Content-Type'' \<mapsto> (case h ''Content-Type'' of None \<Rightarrow> [] | Some t \<Rightarrow> t)], pk_Body = body\<rparr> sock) \<and>
    cc_ReadHeader norm m' (c1\<lparr>cc_dec := on_wire (chars body)\<rparr>) = (Ok (), m2, c2) \<and>
    m_Method m2 = m_Method m \<and> m_ID m2 = m_ID m AND MAX_JSONRPC_ID \<and> m_Error m2 = [] \<and> cp_Result (cc_resp c2) = Some rtext"
proof -
  let ?i = "m_ID m AND MAX_JSONRPC_ID" and ?C = "jsonIf U M"
  have i: "0 \<le> sint ?i" by (rule masked_id)
  obtain c1 where c1: "cc_Write m (Some p) c = (Ok (), c1)" "cc_out c1 = object_text (request_members meth pt ?i) @ [CHR 0x0A]"
      "cc_pending c1 = (cc_pending c)(?i \<mapsto> meth)"
    using cc_Write_text [OF m(4), of pt m c] m(1,5) c by auto
  let ?pkg = "\<lparr>pk_Header = Some h, pk_Body = str (cc_out c1)\<rparr>"
  let ?k = "jc_NewCodec (cc_out c1) (sv_raw (jc_s k))" and ?m0 = "Message0\<lparr>m_Header := msg_header (Some h)\<rparr>"
  let ?c0 = "snewRPCCodec ?C ?pkg sock k"
  have c0: "sk_codec ?c0 = ?k" "sk_socket ?c0 = sock" "sk_pkg ?c0 = ?pkg" by (simp_all add: snewRPCCodec_def jsonIf_def)
  have ok: "codec_ok (jc_s ?k)" "sv_dec (jc_s ?k) = on_wire (object_text (request_members meth pt ?i) @ [CHR 0x0A])"
    using codec_ok_new [OF k] by (simp_all add: jc_NewCodec_def newServerCodec_def on_wire_def c1)
  have post: "header_get (m_Header ?m0) ''HttpMethod'' = str ''POST''" "header_get (m_Header ?m0) ''Path'' = str sname"
    using h by (simp_all add: header_get_msg)
  obtain s1 pi q where s1: "sv_ReadHeader ?m0 (jc_s ?k) =
      (Ok (), ?m0\<lparr>m_Method := str meth, m_Target := header_get (m_Header ?m0) ''Path'', m_ID := sv_seq (jc_s ?k) + 1\<rparr>, s1)"
      "sv_pending s1 (sv_seq (jc_s ?k) + 1) = Some (Some pi)" "sv_raw s1 ! pi = itoa (sint ?i)"
      "sr_Params (sv_req s1) = Some q" "sv_raw s1 ! q = pt" "sv_out s1 = sv_out (jc_s ?k)"
    by (rule server_reads [OF ok m(3,6,7) post(1) i])
  let ?r = "\<lparr>sq_Service = sname, sq_Method = meth, sq_Seq = sv_seq (jc_s ?k) + 1\<rparr>"
  let ?k1 = "?k\<lparr>jc_mt := Request, jc_s := s1\<rparr>"
  let ?c1 = "?c0\<lparr>sk_codec := ?k1\<rparr>"
  have rh: "ReadRequestHeader S ?C srequest0 True ?c0 = (Ok (), ?r, ?c1)"
    using s1(1) post(2) by (simp add: ReadRequestHeader_def c0 read_header_def jc_ReadHeader_def jsonIf_def snewRPCCodec_def Let_def)
  have rb: "ReadRequestBody ?C (Some (ge_New E (mt_ArgType mt))) ?c1 = (None, Some a, ?c1)"
    using s1(4,5) e(1) checkValid_json_text [OF m(6)]
    by (simp add: ReadRequestBody_def jsonIf_def jc_ReadBody_def sv_ReadBody_def Let_def snewRPCCodec_def)
  have le: "lookup_error (rs_serviceMap s) ?r = None" using h(3) m(2) s(1,2) by (simp add: lookup_error_def)
  let ?s = "snd (getRequest s)" and ?av = "\<lparr>va_Type = mt_ArgType mt, va_Val = a\<rparr>" and ?rv = "\<lparr>va_Type = rt_ptr ru, va_Val = ge_New E ru\<rparr>"
  have hdr: "readRequestHeader S ?C s ?c0 = (Ok (svc, mt), Some ?r, True, ?s, ?c1)"
    using readRequestHeader_read [OF rh, of s] le s(1,2) by simp
  have rd: "readRequest S ?C E s ?c0 = (Ok (svc, mt, Some ?av, Some ?rv), Some ?r, True, ?s, ?c1)"
    unfolding readRequest_def hdr using s(3-6) rb by (simp add: arg_type_def Let_def)
  let ?resp = "\<lparr>sp_Service = sname, sp_Method = meth, sp_Seq = sv_seq (jc_s ?k) + 1, sp_Error = []\<rparr>"
  have out: "sv_out (s1\<lparr>sv_out := []\<rparr>) = []" by simp
  have pend: "sv_pending (s1\<lparr>sv_out := []\<rparr>) (m_ID (response_message ?resp)) = Some (Some pi)"
    "sv_raw (s1\<lparr>sv_out := []\<rparr>) ! pi = itoa (sint ?i)" "m_Error (response_message ?resp) = []"
    using s1(2,3) by (simp_all add: response_message_def Message0_def)
  obtain s2 where s2: "sv_Write (response_message ?resp) (Some (Ok rtext)) (s1\<lparr>sv_out := []\<rparr>) = (Ok (), s2)"
      "sv_raw s2 = sv_raw (s1\<lparr>sv_out := []\<rparr>)"
      "sv_out s2 = sv_out (s1\<lparr>sv_out := []\<rparr>) @ object_text [(''jsonrpc'', quote Version), (''id'', itoa (sint ?i)), (''result'', rtext)] @ [CHR 0x0A]"
    by (rule server_writes [OF pend(1,2) i pend(3)])
  let ?body = "str (sv_out s2)"
  let ?reply = "\<lparr>pk_Header = Some [''Content-Type'' \<mapsto> (case h ''Content-Type'' of None \<Rightarrow> [] | Some t \<Rightarrow> t)], pk_Body = ?body\<rparr>"
  obtain t where t: "so_Send S ?reply sock = (Ok (), t)" using so [of ?body] by (metis prod.collapse)
  let ?c2 = "?c1\<lparr>sk_codec := ?k1\<lparr>jc_s := s2\<rparr>, sk_socket := t\<rparr>"
  have wr: "WriteResponse S ?C ?resp (Some v) ?c1 = (Ok (), ?c2)"
    using s2(1) t e(3)
    by (simp add: WriteResponse_def jsonIf_def jc_Write_def response_message_def Message0_def snewRPCCodec_def pkg_get_def)
  then obtain s3 where sr: "sendResponse S ?C E ?r (Some v) [] (count_call svc mt ?s) ?c1 = (Ok (), s3, ?c2)"
    using sendResponse_ok [of S ?C ?r "Some v" ?c1 ?c2] by auto
  have serve: "serveRequest S ?C E SF ctx s ?c0 = (Ok (), freeRequest (Some ?r) s3, ?c2)"
    using s(3) e(2) sr by (simp add: serveRequest_def rd call_def Let_def)
  have w: "cc_dec (c1\<lparr>cc_dec := on_wire (sv_out s2)\<rparr>) =
      on_wire (object_text [(''jsonrpc'', quote Version), (''id'', itoa (sint ?i)), (''result'', rtext)] @ [CHR 0x0A])"
    "cc_pending (c1\<lparr>cc_dec := on_wire (sv_out s2)\<rparr>) ?i = Some meth" using s2(3) c1(3) by simp_all
  obtain c2 where c2: "cc_ReadHeader norm m' (c1\<lparr>cc_dec := on_wire (sv_out s2)\<rparr>) =
      (Ok (), m'\<lparr>m_Method := str meth, m_ID := ?i, m_Error := []\<rparr>, c2)" "cp_Result (cc_resp c2) = Some rtext"
    "cc_pending c2 = (cc_pending (c1\<lparr>cc_dec := on_wire (sv_out s2)\<rparr>))(?i := None)"
    by (rule cc_ReadHeader_result [OF w(1) i e(4,5) w(2)])
  show ?thesis
    by (intro exI [of _ c1] exI [of _ "freeRequest (Some ?r) s3"] exI [of _ ?c2] exI [of _ ?body]
        exI [of _ "m'\<lparr>m_Method := str meth, m_ID := ?i, m_Error := []\<rparr>"] exI [of _ c2])
      (use c1(1) serve t c2 m(1) in simp)
qed


text \<open>The facts of the instance: the codecs, the service and its method, and the call.\<close>

lemma codecs1: "cc_out (newClientCodec []) = []" "sv_raw (jc_s (jc_NewCodec [] raw0)) \<noteq> []" "sv_raw (jc_s (jc_NewCodec [] raw0)) ! null_ptr = ''null''"
  by (simp_all add: newClientCodec_def jc_NewCodec_def newServerCodec_def raw0_def)

lemma service1: "rs_serviceMap rpc1 ''s'' = Some \<lparr>svc_name = ''s'', svc_rcvr = handler1, svc_method = [''m'' \<mapsto> mtype1]\<rparr>"
    "svc_method \<lparr>svc_name = ''s'', svc_rcvr = handler1, svc_method = [''m'' \<mapsto> mtype1]\<rparr> ''m'' = Some mtype1"
    "\<not> mt_stream mtype1" "rt_Kind (mt_ArgType mtype1) \<noteq> KPtr" "mt_ReplyType mtype1 = Some (rt_ptr string_type)"
    "rt_Elem (rt_ptr string_type) = Some string_type"
  by (simp_all add: rpc1_def initServer_def registered1 mtype1_def string_type_def rt_ptr_def)

lemma values1: "call_unary env1 mtype1 ctx \<lparr>va_Type = mt_ArgType mtype1, va_Val = ''[1]''\<rparr> \<lparr>va_Type = rt_ptr string_type, va_Val = r\<rparr> = Ok (None, ''[1]'')"
    "ga_Marshal (marshal1 ''[1]'') = Ok ''[1]''" "\<not> is_null ''[1]''" "hd ''[1]'' = CHR ''['' \<or> hd ''[1]'' = CHR ''{''" "''m'' \<noteq> []" "''s'' \<noteq> []"
  using call1 by (simp_all add: mtype1_def marshal1_def is_null_def)

theorem json_call_served_witness:
  "\<exists>c1 s' c' body m2 c2. cc_Write post_message (Some arg1) (newClientCodec []) = (Ok (), c1) \<and>
    serveRequest sock1 (jsonIf (\<lambda>s x. (None, s)) marshal1) env1 (\<lambda>_ _ st. (Ok None, st)) (pkg_ctx empty_package) rpc1
      (snewRPCCodec (jsonIf (\<lambda>s x. (None, s)) marshal1) \<lparr>pk_Header = Some [''HttpMethod'' \<mapsto> ''POST'', ''Path'' \<mapsto> ''s''], pk_Body = str (cc_out c1)\<rparr> []
         (jc_NewCodec [] raw0)) = (Ok (), s', c') \<and>
    sk_socket c' = [\<lparr>pk_Header = Some [''Content-Type'' \<mapsto> []], pk_Body = body\<rparr>] \<and>
    cc_ReadHeader id Message0 (c1\<lparr>cc_dec := on_wire (chars body)\<rparr>) = (Ok (), m2, c2) \<and> cp_Result (cc_resp c2) = Some ''[1]''"
proof -
  have h: "[''HttpMethod'' \<mapsto> ''POST'', ''Path'' \<mapsto> ''s''] ''HttpMethod'' = Some ''POST''"
    "[''HttpMethod'' \<mapsto> ''POST'', ''Path'' \<mapsto> ''s''] ''Path'' = Some ''s''" by simp_all
  have sk: "snd (so_Send sock1 q []) = [q]" for q by (simp add: sock1_def)
  have so: "fst (so_Send sock1 q []) = Ok ()" for q by (simp add: sock1_def)
  have ct: "(case [''HttpMethod'' \<mapsto> ''POST'', ''Path'' \<mapsto> ''s''] ''Content-Type'' of None \<Rightarrow> [] | Some t \<Rightarrow> t) = []" by simp
  note served = json_call_served [where U = "\<lambda>s x. (None, s)" and a = "''[1]''" and v = "''[1]''" and E = env1 and M = marshal1 and sock = "[]"
      and norm = id and m' = Message0 and SF = "\<lambda>_ _ st. (Ok None, st)" and ctx = "pkg_ctx empty_package",
      OF codecs1 post_message_simps(1) values1(5) utf8_m arg1_simps values1(4) h values1(6) service1 refl values1(1,2) arg1_simps(3) values1(3) so]
  then show ?thesis unfolding sk ct by blast
qed

end
