(* ===== verification/Go_Http.thy ===== *)
theory Go_Http
  imports Go_Strings "HOL-Library.List_Lexorder" "HOL-Library.Char_ord"
begin

text \<open>
  What the http transport uses of \<^verbatim>\<open>net/http\<close>: headers, requests and responses, and writing and reading them. The functions
  that write and read are a record, with what is relied on of them as a locale; the plain text form of HTTP 1.1, with the length of
  a body in its header, is an instance.
\<close>

section \<open>Headers\<close>

type_synonym httpHeader = "(string \<times> string list) list"

text \<open>
  \<^verbatim>\<open>CanonicalHeaderKey\<close>: a key of token characters has its first letter and those behind a hyphen in upper case and the others in lower
  case; any other key stays as it is.
\<close>

definition char_in :: "nat \<Rightarrow> nat \<Rightarrow> char \<Rightarrow> bool" where
  "char_in a b c \<longleftrightarrow> a \<le> of_char c \<and> of_char c \<le> b"

definition alnum :: "char \<Rightarrow> bool" where
  "alnum c \<longleftrightarrow> char_in 48 57 c \<or> char_in 65 90 c \<or> char_in 97 122 c"

definition token_char :: "char \<Rightarrow> bool" where
  "token_char c \<longleftrightarrow> alnum c \<or> c \<in> set ''!#$%&*+-.^_`|~'' \<or> c = CHR 0x27"

fun capitals :: "bool \<Rightarrow> string \<Rightarrow> string" where
  "capitals up [] = []"
| "capitals up (c # cs) =
     (if up \<and> char_in 97 122 c then char_of (of_char c - 32 :: nat) else if \<not> up \<and> char_in 65 90 c then char_of (of_char c + 32 :: nat) else c)
       # capitals (c = CHR ''-'') cs"

definition canonical :: "string \<Rightarrow> string" where
  "canonical k = (if list_all token_char k then capitals True k else k)"

text \<open>\<^verbatim>\<open>Header.Set\<close>, and \<^verbatim>\<open>Header.Add\<close> for a key in canonical form.\<close>

definition hset :: "string \<Rightarrow> string \<Rightarrow> httpHeader \<Rightarrow> httpHeader" where
  "hset k v h = (canonical k, [v]) # filter (\<lambda>(k', _). k' \<noteq> canonical k) h"

fun hadd :: "string \<Rightarrow> string \<Rightarrow> httpHeader \<Rightarrow> httpHeader" where
  "hadd k v [] = [(k, [v])]"
| "hadd k v ((k', vs) # h) = (if k = k' then (k', vs @ [v]) # h else (k', vs) # hadd k v h)"

lemma map_of_filter_neq: "map_of (filter (\<lambda>(k', _). k' \<noteq> k) h) = (map_of h)(k := None)"
  by (induction h) (auto simp: fun_eq_iff)

lemma map_of_hset: "map_of (hset k v h) = (map_of h)(canonical k \<mapsto> [v])"
  by (simp add: hset_def map_of_filter_neq)

text \<open>The entries of a package header, in the order in which the loop over the map visits them.\<close>

definition hset_all :: "(string \<rightharpoonup> string) \<Rightarrow> string list \<Rightarrow> httpHeader \<Rightarrow> httpHeader" where
  "hset_all m ks h = fold (\<lambda>k h. case m k of None \<Rightarrow> h | Some v \<Rightarrow> hset k v h) ks h"

section \<open>Requests and responses\<close>

record httpRequest =
  rq_Method :: string
  rq_Path :: string
  rq_Host :: string
  rq_Header :: httpHeader
  rq_Body :: "byte list"

record httpResponse =
  rp_Status :: string
  rp_StatusCode :: int
  rp_Header :: httpHeader
  rp_Body :: "byte list"

text \<open>
  The functions. Reading takes the bytes that are still to come and gives those that are left; it includes reading the body.
  \<open>hi_range\<close> is the order in which a loop visits the keys of a map, which the language leaves open.
\<close>

record httpIf =
  hi_range :: "(string \<rightharpoonup> string) \<Rightarrow> string list"
  hi_WriteRequest :: "httpRequest \<Rightarrow> byte list outcome"
  hi_ReadRequest :: "byte list \<Rightarrow> httpRequest outcome \<times> byte list"
  hi_WriteResponse :: "httpResponse \<Rightarrow> byte list outcome"
  hi_ReadResponse :: "byte list \<Rightarrow> httpResponse outcome \<times> byte list"

text \<open>Headers, requests and responses that have nothing that would have to be escaped.\<close>

definition clean :: "string \<Rightarrow> bool" where
  "clean v \<longleftrightarrow> list_all (char_in 32 126) v \<and> (v \<noteq> [] \<longrightarrow> hd v \<noteq> CHR '' '' \<and> last v \<noteq> CHR '' '')"

definition plain_key :: "string \<Rightarrow> bool" where
  "plain_key k \<longleftrightarrow> k \<noteq> [] \<and> list_all token_char k \<and> canonical k = k"

definition plain_header :: "httpHeader \<Rightarrow> bool" where
  "plain_header h \<longleftrightarrow> distinct (map fst h) \<and> (\<forall>(k, vs) \<in> set h. plain_key k \<and> vs \<noteq> [] \<and> list_all clean vs)"

definition plain_path :: "string \<Rightarrow> bool" where
  "plain_path p \<longleftrightarrow> p \<noteq> [] \<and> hd p = CHR ''/'' \<and> list_all (\<lambda>c. alnum c \<or> c \<in> set ''/-._~'') p"

definition plain_request :: "httpRequest \<Rightarrow> bool" where
  "plain_request q \<longleftrightarrow> rq_Method q = ''POST'' \<and> plain_path (rq_Path q) \<and> rq_Host q \<noteq> [] \<and> clean (rq_Host q) \<and> plain_header (rq_Header q)"

definition plain_response :: "httpResponse \<Rightarrow> bool" where
  "plain_response p \<longleftrightarrow> 100 \<le> rp_StatusCode p \<and> rp_StatusCode p < 1000 \<and>
     (\<exists>t. rp_Status p = itoa (rp_StatusCode p) @ '' '' @ t \<and> t \<noteq> [] \<and> clean t) \<and> plain_header (rp_Header p)"

definition request_keys :: "string list" where
  "request_keys = [''Host'', ''User-Agent'', ''Content-Length'', ''Transfer-Encoding'', ''Trailer'']"

definition response_keys :: "string list" where
  "response_keys = [''Content-Length'', ''Transfer-Encoding'', ''Trailer'']"

text \<open>
  What the transport relies on: a message without anything to escape can be written, and is read as what was written, but for the
  entries of the header that describe the message; the rest of the input is left. Reading takes something from the input, and does not
  give back more than there was.
\<close>

locale http_wire =
  fixes N :: httpIf
  assumes range_dom: "finite (dom m) \<Longrightarrow> set (hi_range N m) = dom m"
    and request_read: "plain_request q \<Longrightarrow> \<exists>bs q'. hi_WriteRequest N q = Ok bs \<and> (\<forall>rest. hi_ReadRequest N (bs @ rest) = (Ok q', rest)) \<and>
      rq_Method q' = rq_Method q \<and> rq_Path q' = rq_Path q \<and> rq_Body q' = rq_Body q \<and> plain_header (rq_Header q') \<and>
      (\<forall>k. k \<notin> set request_keys \<longrightarrow> map_of (rq_Header q') k = map_of (rq_Header q) k)"
    and response_read: "plain_response p \<Longrightarrow> \<exists>bs p'. hi_WriteResponse N p = Ok bs \<and> (\<forall>rest. hi_ReadResponse N (bs @ rest) = (Ok p', rest)) \<and>
      rp_Status p' = rp_Status p \<and> rp_StatusCode p' = rp_StatusCode p \<and> rp_Body p' = rp_Body p \<and>
      (\<forall>k. k \<notin> set response_keys \<longrightarrow> map_of (rp_Header p') k = map_of (rp_Header p) k)"
    and request_less: "hi_ReadRequest N bs = (Ok q, rest) \<Longrightarrow> length rest < length bs"
    and request_le: "length (snd (hi_ReadRequest N bs)) \<le> length bs"
    and request_ends: "fst (hi_ReadRequest N bs) \<noteq> NoFuel"

section \<open>The text of a message\<close>

definition CRLF :: string where
  "CRLF = [CHR 0x0D, CHR 0x0A]"

definition field_text :: "string \<times> string \<Rightarrow> string" where
  "field_text kv = fst kv @ '': '' @ snd kv @ CRLF"

definition fields :: "httpHeader \<Rightarrow> (string \<times> string) list" where
  "fields h = concat (map (\<lambda>(k, vs). map (Pair k) vs) h)"

definition message_text :: "string \<Rightarrow> (string \<times> string) list \<Rightarrow> string \<Rightarrow> string" where
  "message_text start fs body = start @ CRLF @ concat (map field_text fs) @ CRLF @ body"

text \<open>A line without its end, and what follows it.\<close>

fun read_line :: "string \<Rightarrow> (string \<times> string) option" where
  "read_line [] = None"
| "read_line (c # cs) = (if c = CHR 0x0A then Some ([], cs)
     else (case read_line cs of None \<Rightarrow> None
       | Some (l, rest) \<Rightarrow> Some (if c = CHR 0x0D \<and> l = [] then [] else c # l, rest)))"

definition trim :: "string \<Rightarrow> string" where
  "trim s = rev (dropWhile (\<lambda>c. c = CHR '' '' \<or> c = CHR 0x09) (rev (dropWhile (\<lambda>c. c = CHR '' '' \<or> c = CHR 0x09) s)))"

definition read_field :: "string \<Rightarrow> (string \<times> string) option" where
  "read_field l = (case dropWhile (\<lambda>c. c \<noteq> CHR '':'') l of
     [] \<Rightarrow> None
   | _ # v \<Rightarrow> (let k = takeWhile (\<lambda>c. c \<noteq> CHR '':'') l in if k = [] \<or> \<not> list_all token_char k then None else Some (canonical k, trim v)))"

lemma read_line_shorter: "read_line s = Some (l, rest) \<Longrightarrow> length rest < length s"
  by (induction s arbitrary: l rest) (fastforce split: if_splits option.splits prod.splits)+

function read_fields :: "string \<Rightarrow> ((string \<times> string) list \<times> string) option" where
  "read_fields s = (case read_line s of
     None \<Rightarrow> None
   | Some (l, rest) \<Rightarrow>
       if l = [] then Some ([], rest)
       else (case read_field l of None \<Rightarrow> None | Some f \<Rightarrow>
         (case read_fields rest of None \<Rightarrow> None | Some (fs, t) \<Rightarrow> Some (f # fs, t))))"
  by pat_completeness auto
termination
  by (relation "measure length") (auto dest: read_line_shorter)

declare read_fields.simps [simp del]

definition header_of :: "(string \<times> string) list \<Rightarrow> httpHeader" where
  "header_of fs = fold (\<lambda>(k, v). hadd k v) fs []"

definition body_length :: "httpHeader \<Rightarrow> nat option" where
  "body_length h = (case map_of h ''Content-Length'' of None \<Rightarrow> Some 0
   | Some vs \<Rightarrow> if hd vs = [] then None else digits_val 0 (hd vs))"

text \<open>The first line, the header, the body and the rest of the input.\<close>

definition read_message :: "string \<Rightarrow> (string \<times> httpHeader \<times> string) outcome \<times> string" where
  "read_message s = (if s = [] then (Err EOF, []) else (case read_line s of
     None \<Rightarrow> (Err ErrUnexpectedEOF, [])
   | Some (start, s) \<Rightarrow> (case read_fields s of
     None \<Rightarrow> (Err (Errorf ''malformed MIME header''), [])
   | Some (fs, s) \<Rightarrow> (let h = header_of fs in case body_length h of
     None \<Rightarrow> (Err (Errorf ''bad Content-Length''), s)
   | Some n \<Rightarrow> if length s < n then (Err ErrUnexpectedEOF, []) else (Ok (start, h, take n s), drop n s)))))"

section \<open>Reading what was written\<close>

lemma read_line_text: "list_all (char_in 32 126) l \<Longrightarrow> read_line (l @ CRLF @ rest) = Some (l, rest)"
proof (induction l)
  case (Cons c l)
  then show ?case by (auto simp: char_in_def split: option.splits)
qed (simp add: CRLF_def)

lemma trim_clean:
  assumes "clean v"
  shows "trim (CHR '' '' # v) = v"
proof -
  have t: "CHR 0x09 \<notin> set v" using assms by (auto simp: clean_def list_all_iff char_in_def)
  have d: "dropWhile (\<lambda>c. c = CHR '' '' \<or> c = CHR 0x09) w = w" if "w = [] \<or> hd w \<noteq> CHR '' '' \<and> CHR 0x09 \<notin> set w" for w
    using that by (cases w) auto
  have "dropWhile (\<lambda>c. c = CHR '' '' \<or> c = CHR 0x09) v = v" by (rule d) (use assms t in \<open>auto simp: clean_def\<close>)
  moreover have "dropWhile (\<lambda>c. c = CHR '' '' \<or> c = CHR 0x09) (rev v) = rev v"
    by (rule d) (use assms t in \<open>auto simp: clean_def hd_rev\<close>)
  ultimately show ?thesis by (simp add: trim_def)
qed

lemma token_not_colon: "list_all token_char k \<Longrightarrow> CHR '':'' \<notin> set k"
  by (induction k) (auto simp: token_char_def alnum_def char_in_def)

lemma token_printable: "list_all token_char k \<Longrightarrow> list_all (char_in 32 126) k"
  by (induction k) (auto simp: token_char_def alnum_def char_in_def)

lemma read_field_text:
  assumes "plain_key k" "clean v"
  shows "read_field (k @ '': '' @ v) = Some (k, v)"
proof -
  have c: "CHR '':'' \<notin> set k" using assms(1) token_not_colon by (simp add: plain_key_def)
  have "dropWhile (\<lambda>c. c \<noteq> CHR '':'') (k @ '': '' @ v) = '': '' @ v" "takeWhile (\<lambda>c. c \<noteq> CHR '':'') (k @ '': '' @ v) = k"
    using c by (auto simp: dropWhile_append takeWhile_append)
  then show ?thesis using assms by (simp add: read_field_def trim_clean plain_key_def)
qed

lemma read_fields_text:
  assumes "\<forall>(k, v) \<in> set fs. plain_key k \<and> clean v"
  shows "read_fields (concat (map field_text fs) @ CRLF @ rest) = Some (fs, rest)"
  using assms
proof (induction fs)
  case Nil
  then show ?case using read_line_text [of "[]" rest] by (simp add: read_fields.simps)
next
  case (Cons f fs)
  obtain k v where f: "f = (k, v)" by fastforce
  have kv: "plain_key k" "clean v" using Cons.prems f by auto
  have p: "list_all (char_in 32 126) (k @ '': '' @ v)" "k @ '': '' @ v \<noteq> []"
    using kv token_printable by (auto simp: plain_key_def clean_def char_in_def)
  have l: "read_line (concat (map field_text (f # fs)) @ CRLF @ rest) = Some (k @ '': '' @ v, concat (map field_text fs) @ CRLF @ rest)"
    using read_line_text [OF p(1)] by (simp add: field_text_def f)
  show ?case
    by (subst read_fields.simps) (use Cons l p(2) read_field_text [OF kv] f in \<open>simp\<close>)
qed

lemma hadd_new: "k \<notin> fst ` set acc \<Longrightarrow> hadd k v acc = acc @ [(k, [v])]"
  by (induction acc) auto

lemma hadd_last: "k \<notin> fst ` set acc \<Longrightarrow> hadd k v (acc @ [(k, vs)]) = acc @ [(k, vs @ [v])]"
  by (induction acc) auto

lemma hadd_values: "k \<notin> fst ` set acc \<Longrightarrow> fold (\<lambda>(k, v). hadd k v) (map (Pair k) vs) (acc @ [(k, us)]) = acc @ [(k, us @ vs)]"
  by (induction vs arbitrary: us) (simp_all add: hadd_last)

lemma header_fields:
  assumes "distinct (map fst (acc @ h))" "\<forall>(k, vs) \<in> set h. vs \<noteq> []"
  shows "fold (\<lambda>(k, v). hadd k v) (fields h) acc = acc @ h"
  using assms
proof (induction h arbitrary: acc)
  case Nil
  then show ?case by (simp add: fields_def)
next
  case (Cons kvs h)
  obtain k v vs where e: "kvs = (k, v # vs)" using Cons.prems(2) by (cases kvs; cases "snd kvs") auto
  have n: "k \<notin> fst ` set acc" using Cons.prems(1) e by force
  have "fold (\<lambda>(k, v). hadd k v) (fields (kvs # h)) acc = fold (\<lambda>(k, v). hadd k v) (fields h) (acc @ [kvs])"
    using hadd_values [OF n, of vs "[v]"] by (simp add: fields_def e hadd_new [OF n])
  then show ?case using Cons.IH [of "acc @ [kvs]"] Cons.prems by simp
qed

lemma header_of_fields: "plain_header h \<Longrightarrow> header_of (fields h) = h"
  using header_fields [of "[]" h] by (auto simp: header_of_def plain_header_def)

lemma fields_plain: "plain_header h \<Longrightarrow> \<forall>(k, v) \<in> set (fields h). plain_key k \<and> clean v"
  by (fastforce simp: plain_header_def fields_def list_all_iff)

lemma digit_val_range: "digit_val c \<noteq> None \<Longrightarrow> char_in 48 57 c"
  by (auto simp: digit_val_def char_in_def Let_def split: if_splits)

lemma itoa_clean:
  assumes "0 \<le> n"
  shows "clean (itoa n)"
proof -
  have d: "char_in 48 57 c" if "c \<in> set (itoa n)" for c
    using that nat_str_digit [of c "nat n"] digit_val_range assms by (simp add: itoa_def)
  have "char_in 32 126 c \<and> c \<noteq> CHR '' ''" if "c \<in> set (itoa n)" for c using d [OF that] by (auto simp: char_in_def)
  moreover have "itoa n \<noteq> []" using assms by (simp add: itoa_def)
  ultimately show ?thesis by (simp add: clean_def list_all_iff)
qed

lemma read_message_text:
  assumes "list_all (char_in 32 126) start" "plain_header h" "map_of h ''Content-Length'' = Some [itoa (int (length body))]"
  shows "read_message (message_text start (fields h) body @ rest) = (Ok (start, h, body), rest)"
proof -
  have l: "read_line (message_text start (fields h) body @ rest) = Some (start, concat (map field_text (fields h)) @ CRLF @ body @ rest)"
    using read_line_text [OF assms(1)] by (simp add: message_text_def)
  have n: "message_text start (fields h) body @ rest \<noteq> []" by (simp add: message_text_def CRLF_def)
  have "body_length h = Some (length body)" using assms(3) by (simp add: body_length_def itoa_def digits_val_nat_str)
  then show ?thesis using n l read_fields_text [OF fields_plain [OF assms(2)]] header_of_fields [OF assms(2)]
    by (simp add: read_message_def Let_def)
qed

lemma read_fields_shorter: "read_fields s = Some (fs, rest) \<Longrightarrow> length rest < length s"
proof (induction s arbitrary: fs rest rule: read_fields.induct)
  case (1 s)
  then show ?case
    by (auto simp: read_fields.simps [of s] dest: read_line_shorter split: option.splits prod.splits if_splits)
      (metis less_trans read_line_shorter)
qed

lemma read_message_shorter:
  "read_message s = (Ok m, rest) \<Longrightarrow> length rest < length s" "length (snd (read_message s)) \<le> length s" "fst (read_message s) \<noteq> NoFuel" "fst (read_message s) \<noteq> Panic"
  by (auto simp: read_message_def Let_def dest!: read_line_shorter read_fields_shorter split: if_splits option.splits prod.splits)

section \<open>Plain HTTP\<close>

definition plain_WriteRequest :: "httpRequest \<Rightarrow> byte list outcome" where
  "plain_WriteRequest q =
     (if rq_Host q = [] then Err (Errorf ''http: Request.Write on Request with no Host or URL set'')
      else Ok (str (message_text (rq_Method q @ '' '' @ (if rq_Path q = [] then ''/'' else rq_Path q) @ '' HTTP/1.1'')
        (fields ([(''Host'', [rq_Host q]), (''User-Agent'', [''Go-http-client/1.1'']), (''Content-Length'', [itoa (int (length (rq_Body q)))])] @
           filter (\<lambda>(k, _). k \<notin> set request_keys) (rq_Header q))) (chars (rq_Body q)))))"

definition request_line :: "string \<Rightarrow> (string \<times> string) option" where
  "request_line l = (case Split (CHR '' '') l of
     [m, p, v] \<Rightarrow> if HasPrefix v ''HTTP/1.'' \<and> p \<noteq> [] \<and> hd p = CHR ''/'' then Some (m, p) else None
   | _ \<Rightarrow> None)"

definition plain_ReadRequest :: "byte list \<Rightarrow> httpRequest outcome \<times> byte list" where
  "plain_ReadRequest bs = (case read_message (chars bs) of
     (Ok (start, h, body), rest) \<Rightarrow> (case request_line start of
       None \<Rightarrow> (Err (Errorf ''malformed HTTP request''), str rest)
     | Some (m, p) \<Rightarrow> (Ok \<lparr>rq_Method = m, rq_Path = p, rq_Host = (case map_of h ''Host'' of Some (v # _) \<Rightarrow> v | _ \<Rightarrow> []),
         rq_Header = filter (\<lambda>(k, _). k \<noteq> ''Host'') h, rq_Body = str body\<rparr>, str rest))
   | (Err e, rest) \<Rightarrow> (Err e, str rest) | (Panic, rest) \<Rightarrow> (Panic, str rest) | (NoFuel, rest) \<Rightarrow> (NoFuel, str rest))"

definition plain_WriteResponse :: "httpResponse \<Rightarrow> byte list outcome" where
  "plain_WriteResponse p = Ok (str (message_text (''HTTP/1.1 '' @ rp_Status p)
     (fields ((''Content-Length'', [itoa (int (length (rp_Body p)))]) # filter (\<lambda>(k, _). k \<notin> set response_keys) (rp_Header p))) (chars (rp_Body p))))"

definition status_line :: "string \<Rightarrow> (string \<times> int) option" where
  "status_line l = (case Split (CHR '' '') l of
     v # c # _ \<Rightarrow> if HasPrefix v ''HTTP/1.'' then map_option (\<lambda>n. (drop (Suc (length v)) l, n)) (Atoi c) else None
   | _ \<Rightarrow> None)"

definition plain_ReadResponse :: "byte list \<Rightarrow> httpResponse outcome \<times> byte list" where
  "plain_ReadResponse bs = (case read_message (chars bs) of
     (Ok (start, h, body), rest) \<Rightarrow> (case status_line start of
       None \<Rightarrow> (Err (Errorf ''malformed HTTP response''), str rest)
     | Some (st, n) \<Rightarrow> (Ok \<lparr>rp_Status = st, rp_StatusCode = n, rp_Header = h, rp_Body = str body\<rparr>, str rest))
   | (Err e, rest) \<Rightarrow> (Err e, str rest) | (Panic, rest) \<Rightarrow> (Panic, str rest) | (NoFuel, rest) \<Rightarrow> (NoFuel, str rest))"

definition plainHttp :: httpIf where
  "plainHttp = \<lparr>hi_range = (\<lambda>m. sorted_list_of_set (dom m)), hi_WriteRequest = plain_WriteRequest, hi_ReadRequest = plain_ReadRequest,
     hi_WriteResponse = plain_WriteResponse, hi_ReadResponse = plain_ReadResponse\<rparr>"

lemma plain_header_filter: "plain_header h \<Longrightarrow> plain_header (filter P h)"
  by (auto simp: plain_header_def distinct_map intro: inj_on_subset)

lemma keys_plain: "plain_key ''Host''" "plain_key ''User-Agent''" "plain_key ''Content-Length''" "clean ''Go-http-client/1.1''"
  by code_simp+

lemma map_of_filter_keys: "map_of (filter (\<lambda>(k, _). k \<notin> set ks) h) k = (if k \<in> set ks then None else map_of h k)"
  by (induction h) auto

lemma path_printable: "plain_path p \<Longrightarrow> list_all (char_in 33 126) p"
proof -
  have "char_in 33 126 c" if "alnum c \<or> c \<in> set ''/-._~''" for c using that by (auto simp: alnum_def char_in_def)
  then show "plain_path p \<Longrightarrow> list_all (char_in 33 126) p" by (auto simp: plain_path_def list_all_iff)
qed

lemma no_space: "list_all (char_in 33 126) p \<Longrightarrow> CHR '' '' \<notin> set p"
  by (auto simp: list_all_iff char_in_def)

lemma printable_mono: "list_all (char_in 33 126) p \<Longrightarrow> list_all (char_in 32 126) p"
  by (auto simp: list_all_iff char_in_def)

lemma request_line_text:
  assumes "plain_path p"
  shows "request_line (''POST '' @ p @ '' HTTP/1.1'') = Some (''POST'', p)" "list_all (char_in 32 126) (''POST '' @ p @ '' HTTP/1.1'')"
proof -
  have "CHR '' '' \<notin> set p" using no_space path_printable assms by blast
  then have "Split (CHR '' '') (p @ '' HTTP/1.1'') = [p, ''HTTP/1.1'']" using Split_append [of "CHR '' ''" p "''HTTP/1.1''"] by simp
  then have "Split (CHR '' '') (''POST '' @ p @ '' HTTP/1.1'') = [''POST'', p, ''HTTP/1.1'']"
    using Split_append [of "CHR '' ''" "''POST''" "p @ '' HTTP/1.1''"] by simp
  then show "request_line (''POST '' @ p @ '' HTTP/1.1'') = Some (''POST'', p)"
    using assms by (simp add: request_line_def HasPrefix_def plain_path_def)
  show "list_all (char_in 32 126) (''POST '' @ p @ '' HTTP/1.1'')"
    using printable_mono [OF path_printable [OF assms]] by (simp add: char_in_def)
qed

lemma status_line_text:
  assumes "100 \<le> n" "n < 1000" "clean t"
  shows "status_line (''HTTP/1.1 '' @ itoa n @ '' '' @ t) = Some (itoa n @ '' '' @ t, n)" "list_all (char_in 32 126) (''HTTP/1.1 '' @ itoa n @ '' '' @ t)"
proof -
  have d: "char_in 48 57 c" if "c \<in> set (itoa n)" for c
    using that nat_str_digit [of c "nat n"] digit_val_range assms(1) by (simp add: itoa_def)
  then have i: "CHR '' '' \<notin> set (itoa n)" by (fastforce simp: char_in_def)
  have "Split (CHR '' '') (''HTTP/1.1 '' @ itoa n @ '' '' @ t) = ''HTTP/1.1'' # itoa n # Split (CHR '' '') t"
    using Split_append [of "CHR '' ''" "''HTTP/1.1''" "itoa n @ '' '' @ t"] Split_append [OF i, of t] by simp
  then show "status_line (''HTTP/1.1 '' @ itoa n @ '' '' @ t) = Some (itoa n @ '' '' @ t, n)"
    using assms Atoi_itoa [of n] by (simp add: status_line_def HasPrefix_def)
  show "list_all (char_in 32 126) (''HTTP/1.1 '' @ itoa n @ '' '' @ t)"
    using itoa_clean [of n] assms by (simp add: char_in_def clean_def)
qed

lemma plain_request_read:
  assumes "plain_request q"
  shows "\<exists>bs q'. plain_WriteRequest q = Ok bs \<and> (\<forall>rest. plain_ReadRequest (bs @ rest) = (Ok q', rest)) \<and>
    rq_Method q' = rq_Method q \<and> rq_Path q' = rq_Path q \<and> rq_Body q' = rq_Body q \<and> plain_header (rq_Header q') \<and>
    (\<forall>k. k \<notin> set request_keys \<longrightarrow> map_of (rq_Header q') k = map_of (rq_Header q) k)"
proof -
  let ?f = "filter (\<lambda>(k, _). k \<notin> set request_keys) (rq_Header q)" and ?n = "itoa (int (length (rq_Body q)))"
  let ?h = "[(''Host'', [rq_Host q]), (''User-Agent'', [''Go-http-client/1.1'']), (''Content-Length'', [?n])] @ ?f"
  let ?start = "''POST '' @ rq_Path q @ '' HTTP/1.1''"
  have q: "rq_Method q = ''POST''" "plain_path (rq_Path q)" "rq_Host q \<noteq> []" "clean (rq_Host q)" "plain_header (rq_Header q)"
    using assms by (auto simp: plain_request_def)
  have f: "plain_header ?f" by (rule plain_header_filter [OF q(5)])
  have nf: "k \<notin> fst ` set ?f" if "k \<in> set request_keys" for k using that by auto
  have n: "''Host'' \<notin> fst ` set ?f" "''User-Agent'' \<notin> fst ` set ?f" "''Content-Length'' \<notin> fst ` set ?f"
    by (rule nf, simp add: request_keys_def)+
  have h: "plain_header ?h" using f n q(4) keys_plain itoa_clean [of "int (length (rq_Body q))"] by (auto simp: plain_header_def)
  have m: "map_of ?h ''Content-Length'' = Some [?n]" by simp
  let ?q = "\<lparr>rq_Method = ''POST'', rq_Path = rq_Path q, rq_Host = rq_Host q, rq_Header = filter (\<lambda>(k, _). k \<noteq> ''Host'') ?h, rq_Body = rq_Body q\<rparr>"
  have rd: "plain_ReadRequest (str (message_text ?start (fields ?h) (chars (rq_Body q))) @ rest) = (Ok ?q, rest)" for rest
    using read_message_text [OF request_line_text(2) [OF q(2)] h, of "chars (rq_Body q)" "chars rest"] m request_line_text(1) [OF q(2)]
    by (simp add: plain_ReadRequest_def)
  have w: "plain_WriteRequest q = Ok (str (message_text ?start (fields ?h) (chars (rq_Body q))))"
    using q(1-3) by (simp add: plain_WriteRequest_def plain_path_def)
  have k: "map_of (rq_Header ?q) k = map_of (rq_Header q) k" if "k \<notin> set request_keys" for k
  proof -
    have "map_of (rq_Header ?q) k = ((map_of ?h)(''Host'' := None)) k" by (simp only: map_of_filter_neq httpRequest.simps)
    also have "\<dots> = map_of ?f k" using that by (simp add: request_keys_def)
    also have "\<dots> = map_of (rq_Header q) k" using that by (simp only: map_of_filter_keys if_False)
    finally show ?thesis .
  qed
  have "plain_header (rq_Header ?q)" unfolding httpRequest.simps by (rule plain_header_filter [OF h])
  then show ?thesis using rd w k q(1) by (intro exI [of _ "str (message_text ?start (fields ?h) (chars (rq_Body q)))"] exI [of _ ?q]) simp
qed

lemma plain_response_read:
  assumes "plain_response p"
  shows "\<exists>bs p'. plain_WriteResponse p = Ok bs \<and> (\<forall>rest. plain_ReadResponse (bs @ rest) = (Ok p', rest)) \<and>
    rp_Status p' = rp_Status p \<and> rp_StatusCode p' = rp_StatusCode p \<and> rp_Body p' = rp_Body p \<and>
    (\<forall>k. k \<notin> set response_keys \<longrightarrow> map_of (rp_Header p') k = map_of (rp_Header p) k)"
proof -
  let ?f = "filter (\<lambda>(k, _). k \<notin> set response_keys) (rp_Header p)" and ?n = "itoa (int (length (rp_Body p)))"
  let ?h = "(''Content-Length'', [?n]) # ?f" and ?start = "''HTTP/1.1 '' @ rp_Status p"
  obtain t where p: "100 \<le> rp_StatusCode p" "rp_StatusCode p < 1000" "rp_Status p = itoa (rp_StatusCode p) @ '' '' @ t" "clean t"
    "plain_header (rp_Header p)"
    using assms by (auto simp: plain_response_def)
  have f: "plain_header ?f" by (rule plain_header_filter [OF p(5)])
  have n: "''Content-Length'' \<notin> fst ` set ?f" by (auto simp: response_keys_def)
  have h: "plain_header ?h" using f n keys_plain itoa_clean [of "int (length (rp_Body p))"] by (auto simp: plain_header_def)
  have m: "map_of ?h ''Content-Length'' = Some [?n]" by simp
  note sl = status_line_text [OF p(1,2,4), unfolded p(3) [symmetric]]
  let ?p = "\<lparr>rp_Status = rp_Status p, rp_StatusCode = rp_StatusCode p, rp_Header = ?h, rp_Body = rp_Body p\<rparr>"
  have rd: "plain_ReadResponse (str (message_text ?start (fields ?h) (chars (rp_Body p))) @ rest) = (Ok ?p, rest)" for rest
    using read_message_text [OF sl(2) h, of "chars (rp_Body p)" "chars rest"] m sl(1) by (simp add: plain_ReadResponse_def)
  have w: "plain_WriteResponse p = Ok (str (message_text ?start (fields ?h) (chars (rp_Body p))))" by (simp add: plain_WriteResponse_def)
  have k: "map_of (rp_Header ?p) k = map_of (rp_Header p) k" if "k \<notin> set response_keys" for k
    using that by (simp add: map_of_filter_keys) (auto simp: response_keys_def)
  show ?thesis using rd w k by (intro exI [of _ "str (message_text ?start (fields ?h) (chars (rp_Body p)))"] exI [of _ ?p]) simp
qed

lemma plain_request_shorter:
  "plain_ReadRequest bs = (Ok q, rest) \<Longrightarrow> length rest < length bs" "length (snd (plain_ReadRequest bs)) \<le> length bs" "fst (plain_ReadRequest bs) \<noteq> NoFuel"
proof -
  obtain res t where m: "read_message (chars bs) = (res, t)" by fastforce
  note s = read_message_shorter [of "chars bs", unfolded m]
  show "plain_ReadRequest bs = (Ok q, rest) \<Longrightarrow> length rest < length bs"
    using s(1) m by (cases res) (auto simp: plain_ReadRequest_def split: option.splits)
  show "length (snd (plain_ReadRequest bs)) \<le> length bs" "fst (plain_ReadRequest bs) \<noteq> NoFuel"
    using s(2-4) m by (cases res; auto simp: plain_ReadRequest_def split: option.splits prod.splits)+
qed

interpretation plain: http_wire plainHttp
proof
  show "set (hi_range plainHttp m) = dom m" if "finite (dom m)" for m using that by (simp add: plainHttp_def)
qed (use plain_request_read plain_response_read plain_request_shorter in \<open>simp_all only: plainHttp_def httpIf.simps not_False_eq_True\<close>)

end
