(* ===== verification/Transport_Http.thy ===== *)
theory Transport_Http
  imports Transport_Tcp Go_Http
begin

text \<open>
  The http transport, \<^verbatim>\<open>transport/http_transport.go\<close>. A reader over a connection is the list of the bytes that are still to come; the
  queues of requests are channels of capacity one. An operation on a channel that would wait for ever is \<open>NoFuel\<close>. Timeouts, the
  locks and the addresses of a connection are left out.
\<close>

section \<open>The client\<close>

record httpTransportClient =
  hk_addr :: string
  hk_Path :: string
  hk_Stream :: bool
  hk_conn :: netConn
  hk_once :: bool
  hk_r :: "httpRequest list"
  hk_closed :: bool
  hk_bl :: "httpRequest list"
  hk_buff :: "byte list option"

definition initHTTPTransportClient :: "string \<Rightarrow> string \<Rightarrow> bool \<Rightarrow> netConn \<Rightarrow> httpTransportClient" where
  "initHTTPTransportClient addr path stream conn = \<lparr>hk_addr = addr, hk_Path = path, hk_Stream = stream, hk_conn = conn, hk_once = False,
     hk_r = [], hk_closed = False, hk_bl = [], hk_buff = Some (concat (nc_in conn))\<rparr>"

text \<open>\<^verbatim>\<open>buf.WriteTo(conn)\<close> with the tracing of its error.\<close>

definition write_conn :: "ext \<Rightarrow> byte list \<Rightarrow> netConn \<Rightarrow> unit outcome \<times> netConn" where
  "write_conn X bs c = (case conn_Write bs c of
     ((n, Some e), c) \<Rightarrow> traced X () e c
   | ((n, None), c) \<Rightarrow> if n < length bs then traced X () ErrShortWrite c else (ret () (je_Trace X None), c))"

definition pkg_entries :: "httpIf \<Rightarrow> Package \<Rightarrow> httpHeader \<Rightarrow> httpHeader" where
  "pkg_entries N p h = (case pk_Header p of None \<Rightarrow> h | Some m \<Rightarrow> hset_all m (hi_range N m) h)"

definition hk_Send :: "ext \<Rightarrow> httpIf \<Rightarrow> Package \<Rightarrow> httpTransportClient \<Rightarrow> unit outcome \<times> httpTransportClient" where
  "hk_Send X N p h =
     (let req = \<lparr>rq_Method = ''POST'', rq_Path = hk_Path h, rq_Host = hk_addr h, rq_Header = pkg_entries N p [], rq_Body = pk_Body p\<rparr>;
          bl = hk_bl h @ [req]; h = h\<lparr>hk_bl := bl\<rparr>
      in if hk_closed h then (Panic, h)
         else (let h = (if hk_r h = [] then h\<lparr>hk_r := [hd bl], hk_bl := tl bl\<rparr> else h) in
           case hi_WriteRequest N req of
             Ok bs \<Rightarrow> (case write_conn X bs (hk_conn h) of (res, c) \<Rightarrow> (res, h\<lparr>hk_conn := c\<rparr>))
           | Err e \<Rightarrow> traced X () e h
           | Panic \<Rightarrow> (Panic, h) | NoFuel \<Rightarrow> (NoFuel, h)))"

text \<open>The header of a package from that of a message: the first value of every key.\<close>

definition first_values :: "httpHeader \<Rightarrow> string \<rightharpoonup> string" where
  "first_values h = (\<lambda>k. map_option (\<lambda>v. if v \<noteq> [] then hd v else []) (map_of h k))"

definition hk_read :: "ext \<Rightarrow> httpIf \<Rightarrow> Package \<Rightarrow> httpTransportClient \<Rightarrow> Package outcome \<times> httpTransportClient" where
  "hk_read X N p h = (case hk_buff h of
     None \<Rightarrow> (Err EOF, h)
   | Some bs \<Rightarrow> (case hi_ReadResponse N bs of
       (Ok rsp, rest) \<Rightarrow> (let h = h\<lparr>hk_buff := Some rest\<rparr> in
         if rp_StatusCode rsp \<noteq> 200 then (Err (Errorf (rp_Status rsp @ '': '' @ chars (rp_Body rsp))), h)
         else (Ok \<lparr>pk_Header = Some (first_values (rp_Header rsp)), pk_Body = rp_Body rsp\<rparr>, h))
     | (Err e, rest) \<Rightarrow> traced X p e (h\<lparr>hk_buff := Some rest\<rparr>)
     | (Panic, rest) \<Rightarrow> (Panic, h) | (NoFuel, rest) \<Rightarrow> (NoFuel, h)))"

definition hk_Recv :: "ext \<Rightarrow> httpIf \<Rightarrow> Package \<Rightarrow> httpTransportClient \<Rightarrow> Package outcome \<times> httpTransportClient" where
  "hk_Recv X N p h =
     (if hk_Stream h then hk_read X N p h
      else (case hk_r h of
        rc # _ \<Rightarrow> hk_read X N p (h\<lparr>hk_r := []\<rparr>)
      | [] \<Rightarrow> if hk_closed h then (Err EOF, h) else (NoFuel, h)))"

definition hk_Close :: "ext \<Rightarrow> httpTransportClient \<Rightarrow> unit outcome \<times> httpTransportClient" where
  "hk_Close X h =
     (if hk_once h then (ret () (je_Trace X None), h)
      else (case conn_Close (hk_conn h) of
        (Ok _, c) \<Rightarrow> (ret () (je_Trace X None), h\<lparr>hk_once := True, hk_buff := None, hk_closed := True, hk_conn := c\<rparr>)
      | (Err e, c) \<Rightarrow> traced X () e (h\<lparr>hk_once := True, hk_buff := None, hk_closed := True, hk_conn := c\<rparr>)
      | (Panic, c) \<Rightarrow> (Panic, h) | (NoFuel, c) \<Rightarrow> (NoFuel, h)))"

section \<open>The socket of the server\<close>

text \<open>\<open>hs_released\<close> counts the calls of the function that frees the slot of the listener.\<close>

record httpTransportSocket =
  hs_reqQ :: "httpRequest list"
  hs_conn :: netConn
  hs_once :: bool
  hs_released :: nat
  hs_bufReader :: "byte list option"

definition initHTTPTransportSocket :: "netConn \<Rightarrow> httpTransportSocket" where
  "initHTTPTransportSocket c = \<lparr>hs_reqQ = [], hs_conn = c, hs_once = False, hs_released = 0, hs_bufReader = Some (concat (nc_in c))\<rparr>"

definition hs_Recv :: "ext \<Rightarrow> httpIf \<Rightarrow> Package option \<Rightarrow> httpTransportSocket \<Rightarrow> Package outcome \<times> httpTransportSocket" where
  "hs_Recv X N po h = (case po of
     None \<Rightarrow> (Err (Errorf ''message passed in is nil''), h)
   | Some p \<Rightarrow> (case hs_bufReader h of
       None \<Rightarrow> (Panic, h)
     | Some bs \<Rightarrow> (case hi_ReadRequest N bs of
         (Ok r, rest) \<Rightarrow> (let h = h\<lparr>hs_bufReader := Some rest\<rparr> in
           if rq_Path r = [] then (Panic, h)
           else (let hdr = (first_values (rq_Header r))(''Path'' \<mapsto> tl (rq_Path r));
                     hdr = (if hd (rq_Path r) \<noteq> CHR ''/'' then hdr(''Path'' \<mapsto> rq_Path r) else hdr);
                     hdr = hdr(''HttpMethod'' \<mapsto> rq_Method r)
                 in (Ok \<lparr>pk_Header = Some hdr, pk_Body = rq_Body r\<rparr>, if hs_reqQ h = [] then h\<lparr>hs_reqQ := [r]\<rparr> else h)))
       | (Err e, rest) \<Rightarrow> traced X p e (h\<lparr>hs_bufReader := Some rest\<rparr>)
       | (Panic, rest) \<Rightarrow> (Panic, h) | (NoFuel, rest) \<Rightarrow> (NoFuel, h))))"

definition write_response :: "ext \<Rightarrow> httpIf \<Rightarrow> httpResponse \<Rightarrow> httpTransportSocket \<Rightarrow> unit outcome \<times> httpTransportSocket" where
  "write_response X N rsp h = (case hi_WriteResponse N rsp of
     Ok bs \<Rightarrow> (case write_conn X bs (hs_conn h) of (res, c) \<Rightarrow> (res, h\<lparr>hs_conn := c\<rparr>))
   | Err e \<Rightarrow> traced X () e h
   | Panic \<Rightarrow> (Panic, h) | NoFuel \<Rightarrow> (NoFuel, h))"

text \<open>The header of the response is that of the request in the queue, which is changed and goes back into the queue.\<close>

definition hs_Send :: "ext \<Rightarrow> httpIf \<Rightarrow> Package \<Rightarrow> httpTransportSocket \<Rightarrow> unit outcome \<times> httpTransportSocket" where
  "hs_Send X N p h = (case hs_reqQ h of
     [] \<Rightarrow> (NoFuel, h)
   | r # _ \<Rightarrow> (let hdr = pkg_entries N p (rq_Header r) in
       write_response X N \<lparr>rp_Status = ''200 OK'', rp_StatusCode = 200, rp_Header = hdr, rp_Body = pk_Body p\<rparr>
         (h\<lparr>hs_reqQ := [r\<lparr>rq_Header := hdr\<rparr>]\<rparr>)))"

definition hs_error :: "ext \<Rightarrow> httpIf \<Rightarrow> Package \<Rightarrow> httpTransportSocket \<Rightarrow> unit outcome \<times> httpTransportSocket" where
  "hs_error X N p h = write_response X N
     \<lparr>rp_Status = ''500 Internal Server Error'', rp_StatusCode = 500, rp_Header = pkg_entries N p [], rp_Body = pk_Body p\<rparr> h"

definition hs_Close :: "httpTransportSocket \<Rightarrow> unit outcome \<times> httpTransportSocket" where
  "hs_Close h =
     (if hs_once h then (Ok (), h)
      else (case conn_Close (hs_conn h) of (res, c) \<Rightarrow>
        (res, h\<lparr>hs_once := True, hs_bufReader := None, hs_released := hs_released h + 1, hs_conn := c\<rparr>)))"

text \<open>\<^verbatim>\<open>Reset\<close> takes a new connection and a new release function, whose calls are counted anew, but no new reader.\<close>

definition hs_Reset :: "netConn \<Rightarrow> httpTransportSocket \<Rightarrow> httpTransportSocket" where
  "hs_Reset c h = (snd (hs_Close h))\<lparr>hs_conn := c, hs_once := False, hs_released := 0\<rparr>"

section \<open>Listener and transport\<close>

definition http_Accept :: "ext \<Rightarrow> acceptRes list \<Rightarrow> nat \<Rightarrow> unit outcome \<times> httpTransportSocket list \<times> int list \<times> nat" where
  "http_Accept X rs sem = (case Accept_loop X 0 rs sem of (res, cs, ds, sem) \<Rightarrow> (res, map initHTTPTransportSocket cs, ds, sem))"

definition http_Dial :: "ext \<Rightarrow> (string \<Rightarrow> int \<Rightarrow> netConn outcome) \<Rightarrow> string \<Rightarrow> (DialOptions \<Rightarrow> DialOptions) list \<Rightarrow> httpTransportClient outcome" where
  "http_Dial X dial addr opts = (let dopts = dial_options opts in
     case dial addr (do_Timeout dopts) of
       Ok conn \<Rightarrow> Ok (initHTTPTransportClient addr (do_Path dopts) (do_Stream dopts) conn)
     | Err e \<Rightarrow> (case je_Trace X (Some e) of None \<Rightarrow> Panic | Some e \<Rightarrow> Err e)
     | Panic \<Rightarrow> Panic | NoFuel \<Rightarrow> NoFuel)"

record 'l httpTransportListener =
  hl_listener :: 'l
  hl_sem :: nat

definition initHTTPTransportListener :: "'l \<Rightarrow> 'l httpTransportListener" where
  "initHTTPTransportListener l = \<lparr>hl_listener = l, hl_sem = 0\<rparr>"

definition http_Listen :: "ext \<Rightarrow> (string \<Rightarrow> 'l outcome) \<Rightarrow> string \<Rightarrow> 'l httpTransportListener outcome" where
  "http_Listen X listen addr = (case listen_port X listen addr of
     Ok l \<Rightarrow> Ok (initHTTPTransportListener l) | Err e \<Rightarrow> Err e | Panic \<Rightarrow> Panic | NoFuel \<Rightarrow> NoFuel)"

definition newHTTPTransport :: "(tOptions \<Rightarrow> tOptions) list \<Rightarrow> tOptions" where
  "newHTTPTransport opts = fold (\<lambda>f. f) opts \<lparr>to_Addrs = [], to_Timeout = 0\<rparr>"

definition http_String :: string where "http_String = ''http-transport''"

section \<open>Packages over the wire\<close>

text \<open>A package header whose entries need no escaping, and a connection that takes everything that is written to it.\<close>

definition plain_entries :: "string list \<Rightarrow> (string \<rightharpoonup> string) \<Rightarrow> bool" where
  "plain_entries ks m \<longleftrightarrow> finite (dom m) \<and> (\<forall>k v. m k = Some v \<longrightarrow> plain_key k \<and> clean v \<and> k \<notin> set ks)"

definition writable :: "netConn \<Rightarrow> bool" where
  "writable c \<longleftrightarrow> \<not> nc_closed c \<and> (\<forall>bs. nc_write c bs = (length bs, None))"

lemma write_conn_all:
  "trace_ok X \<Longrightarrow> writable c \<Longrightarrow> write_conn X bs c = (Ok (), c\<lparr>nc_out := nc_out c @ bs\<rparr>)"
  using trace_okD(1) [of X] by (simp add: write_conn_def conn_Write_def writable_def)

lemma hset_plain: "plain_key k \<Longrightarrow> clean v \<Longrightarrow> plain_header h \<Longrightarrow> plain_header (hset k v h)"
  using plain_header_filter [of h "\<lambda>(k', _). k' \<noteq> k"] by (auto simp: plain_header_def hset_def plain_key_def)

lemma hset_all_plain: "plain_entries ks m \<Longrightarrow> plain_header h \<Longrightarrow> plain_header (hset_all m xs h)"
  by (induction xs arbitrary: h) (auto simp: hset_all_def plain_entries_def intro!: hset_plain split: option.splits)

lemma hset_all_map:
  assumes "plain_entries ks m"
  shows "map_of (hset_all m xs h) k = (case m k of Some v \<Rightarrow> if k \<in> set xs then Some [v] else map_of h k | None \<Rightarrow> map_of h k)"
proof (induction xs arbitrary: h)
  case (Cons x xs)
  have c: "canonical x = x" if "m x = Some v" for v using assms that by (simp add: plain_entries_def plain_key_def)
  have "hset_all m (x # xs) h = hset_all m xs (case m x of None \<Rightarrow> h | Some v \<Rightarrow> hset x v h)" by (simp add: hset_all_def)
  then show ?case using Cons.IH c by (auto simp: map_of_hset split: option.splits)
qed (auto simp: hset_all_def split: option.splits)

text \<open>A client that may send, and a socket that may receive: nothing is pending, and a kept request has a header that can be written.\<close>

definition client_ready :: "httpTransportClient \<Rightarrow> bool" where
  "client_ready h \<longleftrightarrow> \<not> hk_closed h \<and> \<not> hk_Stream h \<and> hk_r h = [] \<and> hk_bl h = [] \<and> writable (hk_conn h) \<and> hk_addr h \<noteq> [] \<and> clean (hk_addr h) \<and>
     plain_path (hk_Path h)"

definition socket_ready :: "httpTransportSocket \<Rightarrow> bool" where
  "socket_ready s \<longleftrightarrow> (hs_reqQ s = [] \<or> (\<exists>r. hs_reqQ s = [r] \<and> plain_header (rq_Header r))) \<and> writable (hs_conn s)"

lemma writable_out [simp]: "writable (c\<lparr>nc_out := bs\<rparr>) = writable c"
  by (simp add: writable_def)

text \<open>A client that waits for the response to its request; and what the server gets to see of the entries of a package.\<close>

definition client_waiting :: "httpTransportClient \<Rightarrow> bool" where
  "client_waiting h \<longleftrightarrow> client_ready (h\<lparr>hk_r := []\<rparr>) \<and> length (hk_r h) = 1"

definition entries_received :: "(string \<rightharpoonup> string) \<Rightarrow> string \<Rightarrow> (string \<rightharpoonup> string) \<Rightarrow> bool" where
  "entries_received m path hdr \<longleftrightarrow> hdr ''Path'' = Some path \<and> hdr ''HttpMethod'' = Some ''POST'' \<and>
     (\<forall>k. k \<noteq> ''Path'' \<and> k \<noteq> ''HttpMethod'' \<longrightarrow> (\<forall>v. m k = Some v \<longrightarrow> hdr k = Some v) \<and> (m k = None \<and> k \<notin> set request_keys \<longrightarrow> hdr k = None))"

context http_wire
begin

lemma entries_map:
  assumes "plain_entries ks m"
  shows "map_of (pkg_entries N \<lparr>pk_Header = Some m, pk_Body = b\<rparr> h) k = (case m k of Some v \<Rightarrow> Some [v] | None \<Rightarrow> map_of h k)"
  using hset_all_map [OF assms, of "hi_range N m" h k] range_dom [of m] assms by (auto simp: pkg_entries_def plain_entries_def split: option.splits)

lemma entries_plain:
  assumes "plain_entries ks m" "plain_header h"
  shows "plain_header (pkg_entries N \<lparr>pk_Header = Some m, pk_Body = b\<rparr> h)"
  using hset_all_plain [OF assms] by (simp add: pkg_entries_def)

text \<open>What a client sends is received by a socket as the same package, with the path and the method of the request.\<close>

lemma send_received:
  assumes X: "trace_ok X" and m: "plain_entries request_keys m"
    and h: "\<not> hk_closed h" "hk_r h = []" "hk_bl h = []" "writable (hk_conn h)" "hk_addr h \<noteq> []" "clean (hk_addr h)" "plain_path (hk_Path h)"
  obtains bs r where "hk_Send X N \<lparr>pk_Header = Some m, pk_Body = b\<rparr> h =
      (Ok (), h\<lparr>hk_r := [\<lparr>rq_Method = ''POST'', rq_Path = hk_Path h, rq_Host = hk_addr h, rq_Header = pkg_entries N \<lparr>pk_Header = Some m, pk_Body = b\<rparr> [], rq_Body = b\<rparr>],
        hk_conn := (hk_conn h)\<lparr>nc_out := nc_out (hk_conn h) @ bs\<rparr>\<rparr>)"
    "plain_header (rq_Header r)"
    "\<And>s rest. hs_bufReader s = Some (bs @ rest) \<Longrightarrow> hs_Recv X N (Some p) s =
      (Ok \<lparr>pk_Header = Some ((first_values (rq_Header r))(''Path'' \<mapsto> tl (hk_Path h), ''HttpMethod'' \<mapsto> ''POST'')), pk_Body = b\<rparr>,
       s\<lparr>hs_bufReader := Some rest, hs_reqQ := (if hs_reqQ s = [] then [r] else hs_reqQ s)\<rparr>)"
    "\<And>k v. m k = Some v \<Longrightarrow> first_values (rq_Header r) k = Some v"
    "\<And>k. m k = None \<Longrightarrow> k \<notin> set request_keys \<Longrightarrow> first_values (rq_Header r) k = None"
proof -
  let ?p = "\<lparr>pk_Header = Some m, pk_Body = b\<rparr>"
  let ?q = "\<lparr>rq_Method = ''POST'', rq_Path = hk_Path h, rq_Host = hk_addr h, rq_Header = pkg_entries N ?p [], rq_Body = b\<rparr>"
  have "plain_request ?q" using h entries_plain [OF m, of "[]" b] by (simp add: plain_request_def plain_header_def)
  from request_read [OF this] obtain bs q' where q: "hi_WriteRequest N ?q = Ok bs" "\<And>rest. hi_ReadRequest N (bs @ rest) = (Ok q', rest)"
    "rq_Method q' = ''POST''" "rq_Path q' = hk_Path h" "rq_Body q' = b" "plain_header (rq_Header q')"
    "\<And>k. k \<notin> set request_keys \<Longrightarrow> map_of (rq_Header q') k = map_of (pkg_entries N ?p []) k" by auto
  have send: "hk_Send X N ?p h = (Ok (), h\<lparr>hk_r := [?q], hk_conn := (hk_conn h)\<lparr>nc_out := nc_out (hk_conn h) @ bs\<rparr>\<rparr>)"
    using h q(1) write_conn_all [OF X h(4)] by (simp add: hk_Send_def Let_def)
  have path: "hk_Path h \<noteq> []" "hd (hk_Path h) = CHR ''/''" using h(7) by (simp_all add: plain_path_def)
  have recv: "hs_Recv X N (Some p) s =
      (Ok \<lparr>pk_Header = Some ((first_values (rq_Header q'))(''Path'' \<mapsto> tl (hk_Path h), ''HttpMethod'' \<mapsto> ''POST'')), pk_Body = b\<rparr>,
       s\<lparr>hs_bufReader := Some rest, hs_reqQ := (if hs_reqQ s = [] then [q'] else hs_reqQ s)\<rparr>)" if "hs_bufReader s = Some (bs @ rest)" for s rest
    using that q path by (simp add: hs_Recv_def Let_def)
  have val: "first_values (rq_Header q') k = Some v" if "m k = Some v" for k v
    using that m q(7) [of k] entries_map [OF m, of b "[]" k] by (simp add: plain_entries_def first_values_def)
  have none: "first_values (rq_Header q') k = None" if "m k = None" "k \<notin> set request_keys" for k
    using that q(7) [of k] entries_map [OF m, of b "[]" k] by (simp add: first_values_def)
  show ?thesis by (rule that [OF send q(6) recv val none])
qed

text \<open>What the socket sends back is received by the client, if it waits for it.\<close>

lemma reply_received:
  assumes X: "trace_ok X" and m: "plain_entries response_keys m"
    and s: "hs_reqQ s = [r]" "plain_header (rq_Header r)" "writable (hs_conn s)"
  obtains bs hdr where "hs_Send X N \<lparr>pk_Header = Some m, pk_Body = b\<rparr> s = (Ok (), s\<lparr>hs_reqQ := [r\<lparr>rq_Header := pkg_entries N \<lparr>pk_Header = Some m, pk_Body = b\<rparr> (rq_Header r)\<rparr>],
      hs_conn := (hs_conn s)\<lparr>nc_out := nc_out (hs_conn s) @ bs\<rparr>\<rparr>)"
    "\<And>h rest q. hk_r h = [q] \<Longrightarrow> \<not> hk_Stream h \<Longrightarrow> hk_buff h = Some (bs @ rest) \<Longrightarrow> hk_Recv X N p h =
      (Ok \<lparr>pk_Header = Some hdr, pk_Body = b\<rparr>, h\<lparr>hk_r := [], hk_buff := Some rest\<rparr>)"
    "\<And>k v. m k = Some v \<Longrightarrow> hdr k = Some v"
    "\<And>k vs. m k = None \<Longrightarrow> k \<notin> set response_keys \<Longrightarrow> map_of (rq_Header r) k = Some vs \<Longrightarrow> hdr k = Some (if vs \<noteq> [] then hd vs else [])"
proof -
  let ?p = "\<lparr>pk_Header = Some m, pk_Body = b\<rparr>"
  let ?h = "pkg_entries N ?p (rq_Header r)"
  let ?r = "\<lparr>rp_Status = ''200 OK'', rp_StatusCode = 200, rp_Header = ?h, rp_Body = b\<rparr>"
  have ok: "itoa 200 = ''200''" "clean ''OK''" by code_simp+
  have "plain_response ?r" using entries_plain [OF m s(2), of b] ok by (simp add: plain_response_def)
  from response_read [OF this] obtain bs p' where q: "hi_WriteResponse N ?r = Ok bs" "\<And>rest. hi_ReadResponse N (bs @ rest) = (Ok p', rest)"
    "rp_StatusCode p' = 200" "rp_Body p' = b" "\<And>k. k \<notin> set response_keys \<Longrightarrow> map_of (rp_Header p') k = map_of ?h k" by auto
  have send: "hs_Send X N ?p s = (Ok (), s\<lparr>hs_reqQ := [r\<lparr>rq_Header := ?h\<rparr>], hs_conn := (hs_conn s)\<lparr>nc_out := nc_out (hs_conn s) @ bs\<rparr>\<rparr>)"
    using s q(1) write_conn_all [OF X s(3)] by (simp add: hs_Send_def Let_def write_response_def)
  have recv: "hk_Recv X N p h = (Ok \<lparr>pk_Header = Some (first_values (rp_Header p')), pk_Body = b\<rparr>, h\<lparr>hk_r := [], hk_buff := Some rest\<rparr>)"
    if "hk_r h = [q]" "\<not> hk_Stream h" "hk_buff h = Some (bs @ rest)" for h rest q
    using that q by (simp add: hk_Recv_def hk_read_def Let_def)
  have val: "first_values (rp_Header p') k = Some v" if "m k = Some v" for k v
    using that m q(5) [of k] entries_map [OF m, of b "rq_Header r" k] by (simp add: plain_entries_def first_values_def)
  have echo: "first_values (rp_Header p') k = Some (if vs \<noteq> [] then hd vs else [])"
    if "m k = None" "k \<notin> set response_keys" "map_of (rq_Header r) k = Some vs" for k vs
    using that q(5) [of k] entries_map [OF m, of b "rq_Header r" k] by (simp add: first_values_def)
  show ?thesis by (rule that [OF send recv val echo])
qed

text \<open>The same two facts for a client and a socket that are ready, without the states in between.\<close>

lemma send_carried:
  assumes "trace_ok X" "client_ready h" "socket_ready s" "plain_entries request_keys m"
  obtains bs h1 hdr r where "hk_Send X N \<lparr>pk_Header = Some m, pk_Body = b\<rparr> h = (Ok (), h1)" "nc_out (hk_conn h1) = nc_out (hk_conn h) @ bs" "client_waiting h1"
    "hs_Recv X N (Some p) (s\<lparr>hs_bufReader := Some (bs @ rest)\<rparr>) = (Ok \<lparr>pk_Header = Some hdr, pk_Body = b\<rparr>, s\<lparr>hs_bufReader := Some rest, hs_reqQ := [r]\<rparr>)"
    "entries_received m (tl (hk_Path h)) hdr" "plain_header (rq_Header r)" "hs_reqQ s \<noteq> [] \<Longrightarrow> hs_reqQ s = [r]"
proof -
  note c = assms(2) [unfolded client_ready_def] and so = assms(3) [unfolded socket_ready_def]
  obtain bs q where s: "hk_Send X N \<lparr>pk_Header = Some m, pk_Body = b\<rparr> h =
      (Ok (), h\<lparr>hk_r := [\<lparr>rq_Method = ''POST'', rq_Path = hk_Path h, rq_Host = hk_addr h, rq_Header = pkg_entries N \<lparr>pk_Header = Some m, pk_Body = b\<rparr> [], rq_Body = b\<rparr>],
        hk_conn := (hk_conn h)\<lparr>nc_out := nc_out (hk_conn h) @ bs\<rparr>\<rparr>)" (is "_ = (_, ?h1)") "plain_header (rq_Header q)"
    and v: "\<And>s rest. hs_bufReader s = Some (bs @ rest) \<Longrightarrow> hs_Recv X N (Some p) s =
      (Ok \<lparr>pk_Header = Some ((first_values (rq_Header q))(''Path'' \<mapsto> tl (hk_Path h), ''HttpMethod'' \<mapsto> ''POST'')), pk_Body = b\<rparr>,
       s\<lparr>hs_bufReader := Some rest, hs_reqQ := (if hs_reqQ s = [] then [q] else hs_reqQ s)\<rparr>)"
    and k: "\<And>k v. m k = Some v \<Longrightarrow> first_values (rq_Header q) k = Some v"
      "\<And>k. m k = None \<Longrightarrow> k \<notin> set request_keys \<Longrightarrow> first_values (rq_Header q) k = None"
    by (rule send_received [OF assms(1,4), of h b p]) (use c in auto)
  obtain r where r: "(if hs_reqQ s = [] then [q] else hs_reqQ s) = [r]" "plain_header (rq_Header r)" using so s(2) by auto
  have w: "client_waiting ?h1" using c by (simp add: client_waiting_def client_ready_def)
  show ?thesis
    by (rule that [OF s(1) _ w _ _ r(2)])
      (use v [of "s\<lparr>hs_bufReader := Some (bs @ rest)\<rparr>" rest] r(1) k in \<open>auto simp: entries_received_def split: if_splits\<close>)
qed

lemma reply_carried:
  assumes "trace_ok X" "hs_reqQ s = [r]" "socket_ready s" "client_waiting h" "plain_entries response_keys m"
  obtains bs s1 hdr where "hs_Send X N \<lparr>pk_Header = Some m, pk_Body = b\<rparr> s = (Ok (), s1)" "nc_out (hs_conn s1) = nc_out (hs_conn s) @ bs"
    "hs_once s1 = hs_once s" "socket_ready s1"
    "\<forall>rest. \<exists>h2. hk_Recv X N p (h\<lparr>hk_buff := Some (bs @ rest)\<rparr>) = (Ok \<lparr>pk_Header = Some hdr, pk_Body = b\<rparr>, h2) \<and> hk_buff h2 = Some rest \<and> client_ready h2"
    "\<forall>k v. m k = Some v \<longrightarrow> hdr k = Some v"
    "\<forall>k v. m k = None \<and> k \<notin> set response_keys \<and> map_of (rq_Header r) k = Some [v] \<longrightarrow> hdr k = Some v"
proof -
  have r: "plain_header (rq_Header r)" "writable (hs_conn s)" using assms(2,3) by (auto simp: socket_ready_def)
  obtain bs hdr where t: "hs_Send X N \<lparr>pk_Header = Some m, pk_Body = b\<rparr> s = (Ok (), s\<lparr>hs_reqQ := [r\<lparr>rq_Header := pkg_entries N \<lparr>pk_Header = Some m, pk_Body = b\<rparr> (rq_Header r)\<rparr>],
        hs_conn := (hs_conn s)\<lparr>nc_out := nc_out (hs_conn s) @ bs\<rparr>\<rparr>)" (is "_ = (_, ?s1)")
    and u: "\<And>h rest q. hk_r h = [q] \<Longrightarrow> \<not> hk_Stream h \<Longrightarrow> hk_buff h = Some (bs @ rest) \<Longrightarrow> hk_Recv X N p h =
      (Ok \<lparr>pk_Header = Some hdr, pk_Body = b\<rparr>, h\<lparr>hk_r := [], hk_buff := Some rest\<rparr>)"
    and e: "\<And>k v. m k = Some v \<Longrightarrow> hdr k = Some v"
      "\<And>k vs. m k = None \<Longrightarrow> k \<notin> set response_keys \<Longrightarrow> map_of (rq_Header r) k = Some vs \<Longrightarrow> hdr k = Some (if vs \<noteq> [] then hd vs else [])"
    by (rule reply_received [OF assms(1,5,2) r, of b p]) blast
  have ready: "socket_ready ?s1" using r entries_plain [OF assms(5) r(1)] by (simp add: socket_ready_def)
  obtain q where q: "hk_r h = [q]" "client_ready (h\<lparr>hk_r := []\<rparr>)" using assms(4) by (auto simp: client_waiting_def length_Suc_conv)
  have recv: "\<exists>h2. hk_Recv X N p (h\<lparr>hk_buff := Some (bs @ rest)\<rparr>) = (Ok \<lparr>pk_Header = Some hdr, pk_Body = b\<rparr>, h2) \<and> hk_buff h2 = Some rest \<and> client_ready h2" for rest
    using u [of "h\<lparr>hk_buff := Some (bs @ rest)\<rparr>" q rest] q by (simp add: client_ready_def)
  show ?thesis by (rule that [OF t _ _ ready]) (use recv e in auto)
qed

end

section \<open>Exchanging packages\<close>

text \<open>
  C6: An exchange over http: the package that a client sends is received by the socket with its body, its entries, the path without the
  slash and the method, and the package that the socket sends back is received by the client with its body and its entries. Afterwards both are
  ready for the next exchange, and what else is on the connection is still there.
\<close>

theorem http_exchange:
  assumes "http_wire N" "trace_ok X" "client_ready h" "socket_ready s" "plain_entries request_keys m" "plain_entries response_keys m'"
  shows "\<exists>h1 bs s1 hdr s2 bs' h2 hdr'. hk_Send X N \<lparr>pk_Header = Some m, pk_Body = b\<rparr> h = (Ok (), h1) \<and>
    nc_out (hk_conn h1) = nc_out (hk_conn h) @ bs \<and>
    hs_Recv X N (Some p) (s\<lparr>hs_bufReader := Some (bs @ rest)\<rparr>) = (Ok \<lparr>pk_Header = Some hdr, pk_Body = b\<rparr>, s1) \<and> hs_bufReader s1 = Some rest \<and>
    hdr ''Path'' = Some (tl (hk_Path h)) \<and> hdr ''HttpMethod'' = Some ''POST'' \<and>
    (\<forall>k v. m k = Some v \<and> k \<noteq> ''Path'' \<and> k \<noteq> ''HttpMethod'' \<longrightarrow> hdr k = Some v) \<and>
    hs_Send X N \<lparr>pk_Header = Some m', pk_Body = b'\<rparr> s1 = (Ok (), s2) \<and> nc_out (hs_conn s2) = nc_out (hs_conn s) @ bs' \<and>
    hk_Recv X N p' (h1\<lparr>hk_buff := Some (bs' @ rest')\<rparr>) = (Ok \<lparr>pk_Header = Some hdr', pk_Body = b'\<rparr>, h2) \<and> hk_buff h2 = Some rest' \<and>
    (\<forall>k v. m' k = Some v \<longrightarrow> hdr' k = Some v) \<and> client_ready h2 \<and> socket_ready s2"
proof -
  obtain bs h1 hdr r where s: "hk_Send X N \<lparr>pk_Header = Some m, pk_Body = b\<rparr> h = (Ok (), h1)" "nc_out (hk_conn h1) = nc_out (hk_conn h) @ bs" "client_waiting h1"
    "hs_Recv X N (Some p) (s\<lparr>hs_bufReader := Some (bs @ rest)\<rparr>) = (Ok \<lparr>pk_Header = Some hdr, pk_Body = b\<rparr>, s\<lparr>hs_bufReader := Some rest, hs_reqQ := [r]\<rparr>)"
    "entries_received m (tl (hk_Path h)) hdr" "plain_header (rq_Header r)"
    by (rule http_wire.send_carried [OF assms(1-5), of b p rest]) blast
  let ?s1 = "s\<lparr>hs_bufReader := Some rest, hs_reqQ := [r]\<rparr>"
  have s1: "socket_ready ?s1" "hs_reqQ ?s1 = [r]" using assms(4) s(6) by (simp_all add: socket_ready_def)
  obtain bs' s2 hdr' where t: "hs_Send X N \<lparr>pk_Header = Some m', pk_Body = b'\<rparr> ?s1 = (Ok (), s2)" "nc_out (hs_conn s2) = nc_out (hs_conn ?s1) @ bs'" "socket_ready s2"
    "\<forall>rest'. \<exists>h2. hk_Recv X N p' (h1\<lparr>hk_buff := Some (bs' @ rest')\<rparr>) = (Ok \<lparr>pk_Header = Some hdr', pk_Body = b'\<rparr>, h2) \<and> hk_buff h2 = Some rest' \<and> client_ready h2"
    "\<forall>k v. m' k = Some v \<longrightarrow> hdr' k = Some v"
    by (rule http_wire.reply_carried [OF assms(1,2) s1(2,1) s(3) assms(6), of b' p']) blast
  obtain h2 where h2: "hk_Recv X N p' (h1\<lparr>hk_buff := Some (bs' @ rest')\<rparr>) = (Ok \<lparr>pk_Header = Some hdr', pk_Body = b'\<rparr>, h2)" "hk_buff h2 = Some rest'" "client_ready h2"
    using t(4) by blast
  have e: "hdr ''Path'' = Some (tl (hk_Path h))" "hdr ''HttpMethod'' = Some ''POST''" "\<forall>k v. m k = Some v \<and> k \<noteq> ''Path'' \<and> k \<noteq> ''HttpMethod'' \<longrightarrow> hdr k = Some v"
    using s(5) by (auto simp: entries_received_def)
  have out: "nc_out (hs_conn s2) = nc_out (hs_conn s) @ bs'" using t(2) by simp
  show ?thesis
    by (intro exI conjI, rule s(1), rule s(2), rule s(4), simp, rule e(1), rule e(2), rule e(3), rule t(1), rule out, rule h2(1), rule h2(2), rule t(5),
        rule h2(3), rule t(3))
qed

text \<open>
  C36: A socket keeps the first request it receives, and builds every response from the header of that one. An entry of the first request
  comes back with the response to every later request, whatever that contains, unless the response sets it.
\<close>

theorem first_request_echoed:
  assumes "http_wire N" "trace_ok X" "client_ready h" "hs_reqQ s = [r]" "plain_header (rq_Header r)" "writable (hs_conn s)"
    and "plain_entries request_keys m" "plain_entries response_keys m'" "map_of (rq_Header r) k = Some [v]" "m' k = None" "k \<notin> set response_keys"
  shows "\<exists>h1 bs s1 hdr s2 bs' h2 hdr'. hk_Send X N \<lparr>pk_Header = Some m, pk_Body = b\<rparr> h = (Ok (), h1) \<and> nc_out (hk_conn h1) = nc_out (hk_conn h) @ bs \<and>
    hs_Recv X N (Some p) (s\<lparr>hs_bufReader := Some bs\<rparr>) = (Ok \<lparr>pk_Header = Some hdr, pk_Body = b\<rparr>, s1) \<and>
    hs_Send X N \<lparr>pk_Header = Some m', pk_Body = b'\<rparr> s1 = (Ok (), s2) \<and> nc_out (hs_conn s2) = nc_out (hs_conn s) @ bs' \<and>
    hk_Recv X N p' (h1\<lparr>hk_buff := Some bs'\<rparr>) = (Ok \<lparr>pk_Header = Some hdr', pk_Body = b'\<rparr>, h2) \<and> hdr' k = Some v"
proof -
  have so: "socket_ready s" using assms(4-6) by (simp add: socket_ready_def)
  obtain bs h1 hdr where s: "hk_Send X N \<lparr>pk_Header = Some m, pk_Body = b\<rparr> h = (Ok (), h1)" "nc_out (hk_conn h1) = nc_out (hk_conn h) @ bs" "client_waiting h1"
    "hs_Recv X N (Some p) (s\<lparr>hs_bufReader := Some bs\<rparr>) = (Ok \<lparr>pk_Header = Some hdr, pk_Body = b\<rparr>, s\<lparr>hs_bufReader := Some [], hs_reqQ := [r]\<rparr>)"
    using http_wire.send_carried [OF assms(1-3) so assms(7), of b p "[]"] assms(4) by (metis append_Nil2 list.distinct(1) list.inject)
  let ?s1 = "s\<lparr>hs_bufReader := Some [], hs_reqQ := [r]\<rparr>"
  have s1: "socket_ready ?s1" "hs_reqQ ?s1 = [r]" using so assms(5) by (simp_all add: socket_ready_def)
  obtain bs' s2 hdr' where t: "hs_Send X N \<lparr>pk_Header = Some m', pk_Body = b'\<rparr> ?s1 = (Ok (), s2)" "nc_out (hs_conn s2) = nc_out (hs_conn ?s1) @ bs'"
    "\<forall>rest. \<exists>h2. hk_Recv X N p' (h1\<lparr>hk_buff := Some (bs' @ rest)\<rparr>) = (Ok \<lparr>pk_Header = Some hdr', pk_Body = b'\<rparr>, h2) \<and> hk_buff h2 = Some rest \<and> client_ready h2"
    "\<forall>k v. m' k = None \<and> k \<notin> set response_keys \<and> map_of (rq_Header r) k = Some [v] \<longrightarrow> hdr' k = Some v"
    by (rule http_wire.reply_carried [OF assms(1,2) s1(2,1) s(3) assms(8), of b' p']) blast
  obtain h2 where h2: "hk_Recv X N p' (h1\<lparr>hk_buff := Some bs'\<rparr>) = (Ok \<lparr>pk_Header = Some hdr', pk_Body = b'\<rparr>, h2)" using t(3) [rule_format, of "[]"] by auto
  have out: "nc_out (hs_conn s2) = nc_out (hs_conn s) @ bs'" "hdr' k = Some v" using t(2,4) assms(9-11) by simp_all
  show ?thesis by (intro exI conjI, rule s(1), rule s(2), rule s(4), rule t(1), rule out(1), rule h2, rule out(2))
qed

text \<open>
  Only sending moves a waiting request to the channel that receiving takes it from. A client that sends two packages and then receives
  twice waits for ever the second time, although the response is there.
\<close>

theorem second_receive_waits:
  assumes "http_wire N" "trace_ok X" "client_ready h" "plain_entries request_keys m" "plain_entries request_keys m2"
  shows "\<exists>h1 h2. hk_Send X N \<lparr>pk_Header = Some m, pk_Body = b\<rparr> h = (Ok (), h1) \<and> hk_Send X N \<lparr>pk_Header = Some m2, pk_Body = b2\<rparr> h1 = (Ok (), h2) \<and>
    (\<forall>bs. fst (hk_Recv X N p' (snd (hk_Recv X N p (h2\<lparr>hk_buff := Some bs\<rparr>)))) = NoFuel)"
proof -
  note c = assms(3) [unfolded client_ready_def]
  let ?q = "\<lambda>m b. \<lparr>rq_Method = ''POST'', rq_Path = hk_Path h, rq_Host = hk_addr h, rq_Header = pkg_entries N \<lparr>pk_Header = Some m, pk_Body = b\<rparr> [], rq_Body = b\<rparr>"
  have p: "plain_request (?q m b)" "plain_request (?q m2 b2)"
    using c http_wire.entries_plain [OF assms(1,4), of "[]" b] http_wire.entries_plain [OF assms(1,5), of "[]" b2]
    by (simp_all add: plain_request_def plain_header_def)
  obtain bs bs2 where w: "hi_WriteRequest N (?q m b) = Ok bs" "hi_WriteRequest N (?q m2 b2) = Ok bs2"
    using http_wire.request_read [OF assms(1) p(1)] http_wire.request_read [OF assms(1) p(2)] by blast
  let ?h1 = "h\<lparr>hk_r := [?q m b], hk_conn := (hk_conn h)\<lparr>nc_out := nc_out (hk_conn h) @ bs\<rparr>\<rparr>"
  let ?h2 = "?h1\<lparr>hk_bl := [?q m2 b2], hk_conn := (hk_conn ?h1)\<lparr>nc_out := nc_out (hk_conn ?h1) @ bs2\<rparr>\<rparr>"
  have s: "hk_Send X N \<lparr>pk_Header = Some m, pk_Body = b\<rparr> h = (Ok (), ?h1)"
    using c w(1) write_conn_all [OF assms(2), of "hk_conn h" bs] by (simp add: hk_Send_def Let_def)
  have s2: "hk_Send X N \<lparr>pk_Header = Some m2, pk_Body = b2\<rparr> ?h1 = (Ok (), ?h2)"
    using c w(2) write_conn_all [OF assms(2), of "hk_conn ?h1" bs2] by (simp add: hk_Send_def Let_def)
  have r: "fst (hk_Recv X N p' (snd (hk_Recv X N p (?h2\<lparr>hk_buff := Some bs\<rparr>)))) = NoFuel" for bs
  proof -
    obtain h3 where h3: "snd (hk_Recv X N p (?h2\<lparr>hk_buff := Some bs\<rparr>)) = h3" by simp
    have "hk_r h3 = [] \<and> \<not> hk_closed h3 \<and> \<not> hk_Stream h3" unfolding h3 [symmetric]
      using c by (auto simp: hk_Recv_def hk_read_def traced_def Let_def split: prod.split outcome.split)
    then show ?thesis unfolding h3 by (simp add: hk_Recv_def)
  qed
  show ?thesis by (rule exI [of _ ?h1], rule exI [of _ ?h2]) (simp only: s s2 r simp_thms)
qed

text \<open>A socket that has been reset has no reader, and receiving panics.\<close>

lemma reset_unusable: "hs_bufReader s = None \<or> \<not> hs_once s \<Longrightarrow> fst (hs_Recv X N (Some p) (hs_Reset c s)) = Panic"
  by (auto simp: hs_Reset_def hs_Close_def hs_Recv_def split: prod.split)

section \<open>An instance\<close>

definition conn_all :: netConn where
  "conn_all = \<lparr>nc_in = [], nc_out = [], nc_write = (\<lambda>bs. (length bs, None)), nc_closed = False\<rparr>"

definition client1 :: httpTransportClient where
  "client1 = initHTTPTransportClient ''h:1'' ''/s'' False conn_all"

lemma client1_ready: "client_ready client1"
  by (simp add: client_ready_def client1_def initHTTPTransportClient_def conn_all_def writable_def) code_simp

lemma socket1_ready: "socket_ready (initHTTPTransportSocket conn_all)"
  by (simp add: socket_ready_def initHTTPTransportSocket_def conn_all_def writable_def)

lemma timeout_plain: "plain_key ''Timeout''" "clean ''1''" "''Timeout'' \<notin> set request_keys" "''Timeout'' \<notin> set response_keys"
  by code_simp+

lemma entries1: "plain_entries request_keys [''Timeout'' \<mapsto> ''1'']" "plain_entries response_keys Map.empty" "plain_entries request_keys Map.empty"
  using timeout_plain by (simp_all add: plain_entries_def)

theorem http_exchange_witness:
  "\<exists>h1 bs s1 hdr s2 bs' h2 hdr'. hk_Send ext0 plainHttp \<lparr>pk_Header = Some [''Timeout'' \<mapsto> ''1''], pk_Body = [7]\<rparr> client1 = (Ok (), h1) \<and>
    hs_Recv ext0 plainHttp (Some \<lparr>pk_Header = None, pk_Body = []\<rparr>) ((initHTTPTransportSocket conn_all)\<lparr>hs_bufReader := Some (bs @ [])\<rparr>) =
      (Ok \<lparr>pk_Header = Some hdr, pk_Body = [7]\<rparr>, s1) \<and> hdr ''Path'' = Some ''s'' \<and>
    hs_Send ext0 plainHttp \<lparr>pk_Header = Some Map.empty, pk_Body = [1]\<rparr> s1 = (Ok (), s2) \<and>
    hk_Recv ext0 plainHttp \<lparr>pk_Header = None, pk_Body = []\<rparr> (h1\<lparr>hk_buff := Some (bs' @ [])\<rparr>) = (Ok \<lparr>pk_Header = Some hdr', pk_Body = [1]\<rparr>, h2)"
proof -
  have p: "tl (hk_Path client1) = ''s''" by (simp add: client1_def initHTTPTransportClient_def)
  show ?thesis
    using http_exchange [OF plain.http_wire_axioms ext0_ok(2) client1_ready socket1_ready entries1(1,2), of "[7]" "\<lparr>pk_Header = None, pk_Body = []\<rparr>" "[]" "[1]"
        "\<lparr>pk_Header = None, pk_Body = []\<rparr>" "[]", unfolded p] by blast
qed

theorem second_receive_waits_witness:
  "\<exists>h1 h2. hk_Send ext0 plainHttp \<lparr>pk_Header = Some Map.empty, pk_Body = []\<rparr> client1 = (Ok (), h1) \<and>
    hk_Send ext0 plainHttp \<lparr>pk_Header = Some Map.empty, pk_Body = []\<rparr> h1 = (Ok (), h2) \<and>
    fst (hk_Recv ext0 plainHttp \<lparr>pk_Header = None, pk_Body = []\<rparr> (snd (hk_Recv ext0 plainHttp \<lparr>pk_Header = None, pk_Body = []\<rparr> (h2\<lparr>hk_buff := Some []\<rparr>)))) = NoFuel"
  using second_receive_waits [OF plain.http_wire_axioms ext0_ok(2) client1_ready entries1(3,3), of "[]" "[]"] by blast

theorem first_request_echoed_witness:
  "\<exists>h1 bs s1 hdr s2 bs' h2 hdr'. hk_Send ext0 plainHttp \<lparr>pk_Header = Some Map.empty, pk_Body = []\<rparr> client1 = (Ok (), h1) \<and>
    hs_Recv ext0 plainHttp (Some \<lparr>pk_Header = None, pk_Body = []\<rparr>)
      ((initHTTPTransportSocket conn_all)\<lparr>hs_reqQ := [\<lparr>rq_Method = ''POST'', rq_Path = ''/s'', rq_Host = ''h'', rq_Header = [(''Timeout'', [''1''])], rq_Body = []\<rparr>],
         hs_bufReader := Some bs\<rparr>) = (Ok \<lparr>pk_Header = Some hdr, pk_Body = []\<rparr>, s1) \<and>
    hs_Send ext0 plainHttp \<lparr>pk_Header = Some Map.empty, pk_Body = []\<rparr> s1 = (Ok (), s2) \<and>
    hk_Recv ext0 plainHttp \<lparr>pk_Header = None, pk_Body = []\<rparr> (h1\<lparr>hk_buff := Some bs'\<rparr>) = (Ok \<lparr>pk_Header = Some hdr', pk_Body = []\<rparr>, h2) \<and>
    hdr' ''Timeout'' = Some ''1''"
proof -
  let ?r = "\<lparr>rq_Method = ''POST'', rq_Path = ''/s'', rq_Host = ''h'', rq_Header = [(''Timeout'', [''1''])], rq_Body = []\<rparr>"
  let ?s = "(initHTTPTransportSocket conn_all)\<lparr>hs_reqQ := [?r]\<rparr>"
  have s: "hs_reqQ ?s = [?r]" "plain_header (rq_Header ?r)" "writable (hs_conn ?s)" "map_of (rq_Header ?r) ''Timeout'' = Some [''1'']"
    using timeout_plain by (simp_all add: plain_header_def initHTTPTransportSocket_def conn_all_def writable_def)
  show ?thesis
    using first_request_echoed [OF plain.http_wire_axioms ext0_ok(2) client1_ready s(1-3) entries1(3,2) s(4) _ timeout_plain(4), of "[]"
        "\<lparr>pk_Header = None, pk_Body = []\<rparr>" "[]" "\<lparr>pk_Header = None, pk_Body = []\<rparr>"] by (simp only: simp_thms) blast
qed

end
