(* ===== verification/Server_Http.thy ===== *)
theory Server_Http
  imports Server_Json Transport_Http
begin

text \<open>
  The server over the http transport: the loop of a connection ends and closes it, and a call of a JSON-RPC client goes over http to the
  method of a handler and back.
\<close>

section \<open>Connections that run dry\<close>

text \<open>
  What the loop of a connection needs of a socket: receiving a package uses up something that sending does not give back.
\<close>

locale connection =
  fixes S :: "'t socketIf" and left :: "'t \<Rightarrow> nat"
  assumes recv_less: "so_Recv S p t = (Ok q, t') \<Longrightarrow> left t' < left t"
    and send_le: "left (snd (so_Send S p t)) \<le> left t"
begin

lemma write_le:
  assumes "WriteResponse S C r b c = (res, c')"
  shows "left (sk_socket c') \<le> left (sk_socket c)"
proof -
  obtain w k where w: "si_Write C (response_message r) b (si_wreset C (sk_codec c)) = (w, k)" by fastforce
  let ?p = "\<lparr>pk_Header = Some [''Content-Type'' \<mapsto> pkg_get (sk_pkg c) ''Content-Type''], pk_Body = si_wbytes C k\<rparr>"
  obtain x t where s: "so_Send S ?p (sk_socket c) = (x, t)" by fastforce
  then have "left t \<le> left (sk_socket c)" using send_le [of ?p "sk_socket c"] by simp
  then show ?thesis using assms w s by (cases w) (auto simp: WriteResponse_def)
qed

lemma send_response_le: "sendResponse S C E req reply e s c = (res, s', c') \<Longrightarrow> left (sk_socket c') \<le> left (sk_socket c)"
  using sendResponse_write write_le by blast

lemma read_request_socket:
  assumes "readRequest S C E s c = (res, req, keep, s', c')"
  shows "sk_socket c' = sk_socket c"
proof -
  obtain r1 req1 keep1 s1 c1 where h: "readRequestHeader S C s c = (r1, req1, keep1, s1, c1)" by (metis surj_pair)
  then have "sk_socket c1 = sk_socket c"
    by (auto simp: readRequestHeader_def ReadRequestHeader_def read_header_def Let_def split: prod.splits outcome.splits)
  then show ?thesis using assms
    by (auto simp: readRequest_def h Let_def dest!: ReadRequestBody_socket split: outcome.splits if_splits prod.splits option.splits)
qed

lemma serve_le:
  assumes "\<And>m x st r st'. SF m x st = (r, st') \<Longrightarrow> left (sk_socket (ss_codec st')) \<le> left (sk_socket (ss_codec st))"
    and "serveRequest S C E SF ctx s c = (res, s', c')"
  shows "left (sk_socket c') \<le> left (sk_socket c)"
proof -
  obtain r1 req keep s1 c1 where 1: "readRequest S C E s c = (r1, req, keep, s1, c1)" by (metis surj_pair)
  note sock = read_request_socket [OF 1]
  have call: "left (sk_socket c2) \<le> left (sk_socket c1)" if c: "call S C E SF ctx svc mt r a v s1 c1 = (res, s2, c2)" for svc mt r a v s2 c2
  proof (cases "mt_stream mt")
    case True
    show ?thesis
    proof (cases "args_fit E [Some (ge_ctx E), Some (ge_streamType E)] (tl (rm_In (mt_method mt)))")
      case fit: True
      obtain x st where sf: "SF (mt_method mt) ctx \<lparr>ss_seq = sq_Seq r, ss_closed = False, ss_request = r, ss_codec = c1\<rparr> = (x, st)" by fastforce
      have "left (sk_socket (ss_codec st)) \<le> left (sk_socket c1)" using assms(1) [OF sf] by simp
      then show ?thesis using c True fit sf
        by (auto simp: call_def Let_def dest!: send_response_le split: outcome.splits prod.splits)
    qed (use c True in \<open>simp add: call_def Let_def\<close>)
  next
    case False
    then show ?thesis using c
      by (auto simp: call_def Let_def dest!: send_response_le split: outcome.splits prod.splits option.splits)
  qed
  show ?thesis using assms(2) sock
    by (auto simp: serveRequest_def 1 dest!: call send_response_le split: outcome.splits if_splits prod.splits option.splits)
qed

lemma loop_ends:
  assumes "\<And>m x st r st'. SF m x st = (r, st') \<Longrightarrow> left (sk_socket (ss_codec st')) \<le> left (sk_socket (ss_codec st))" "left sock < n"
  shows "handlePkg_loop S D codecs E SF n pkg rpc sock k \<noteq> None"
  using assms(2)
proof (induction n arbitrary: pkg rpc sock k)
  case (Suc n)
  obtain r t where r: "so_Recv S (pk_Reset pkg) sock = (r, t)" by fastforce
  show ?case
  proof (cases r)
    case (Ok q)
    have t: "left t < n" using recv_less [of _ sock q t] r Ok Suc.prems by fastforce
    show ?thesis
    proof (cases "newCodec D codecs (pkg_get q ''Content-Type'')")
      case (Inl C)
      obtain res rpc1 c1 where s: "serveRequest S C E SF (pkg_ctx q) rpc (snewRPCCodec C q t k) = (res, rpc1, c1)" by (metis surj_pair)
      have "left (sk_socket c1) \<le> left (sk_socket (snewRPCCodec C q t k))" by (rule serve_le [OF _ s]) (rule assms(1))
      then have "left (sk_socket c1) < n" using t by (simp add: snewRPCCodec_def)
      then show ?thesis using r Ok Inl s Suc.IH [of "sk_socket c1" q rpc1 "sk_codec c1"] by (cases res) simp_all
    qed (use r Ok in \<open>simp add: Let_def\<close>)
  qed (use r in simp_all)
qed simp

end

section \<open>The http socket\<close>

definition httpSock :: "ext \<Rightarrow> httpIf \<Rightarrow> httpTransportSocket socketIf" where
  "httpSock X N = \<lparr>so_Recv = (\<lambda>p. hs_Recv X N (Some p)), so_Send = hs_Send X N, so_Close = hs_Close\<rparr>"

definition hs_left :: "httpTransportSocket \<Rightarrow> nat" where
  "hs_left s = (case hs_bufReader s of None \<Rightarrow> 0 | Some bs \<Rightarrow> length bs)"

lemma httpSock_connection:
  assumes "http_wire N" "trace_ok X"
  shows "connection (httpSock X N) hs_left"
proof
  show "hs_left t' < hs_left t" if "so_Recv (httpSock X N) p t = (Ok q, t')" for p t q t'
  proof -
    have h: "hs_Recv X N (Some p) t = (Ok q, t')" using that by (simp add: httpSock_def)
    then obtain bs where bs: "hs_bufReader t = Some bs" by (cases "hs_bufReader t") (simp_all add: hs_Recv_def)
    obtain x rest where rd: "hi_ReadRequest N bs = (x, rest)" by fastforce
    show ?thesis
    proof (cases x)
      case (Ok r)
      then have "length rest < length bs" using http_wire.request_less [OF assms(1)] rd by blast
      then show ?thesis using h bs rd Ok by (auto simp: hs_Recv_def hs_left_def Let_def split: if_splits)
    next
      case (Err e)
      then show ?thesis using h bs rd trace_okD(2) [OF assms(2), of e] by (auto simp: hs_Recv_def traced_def)
    qed (use h bs rd in \<open>simp_all add: hs_Recv_def\<close>)
  qed
  show "hs_left (snd (so_Send (httpSock X N) p t)) \<le> hs_left t" for p t
    by (auto simp: httpSock_def hs_Send_def hs_left_def write_response_def traced_def Let_def split: list.splits outcome.splits prod.splits option.splits)
qed

interpretation plain_conn: connection "httpSock ext0 plainHttp" hs_left
  by (rule httpSock_connection [OF plain.http_wire_axioms ext0_ok(2)])

lemma hs_Close_once: "hs_once (snd (hs_Close s))"
  by (auto simp: hs_Close_def split: prod.split)

text \<open>
  C8: The loop of a connection over http ends, within as many rounds as there are bytes to come, and then the socket has been closed, whatever
  is received, whichever codecs there are and however serving ends, if the streaming methods do not make more of the input than
  there is.
\<close>

theorem handlePkg_ends:
  assumes "http_wire N" "trace_ok X" "hs_left sock < n"
    and "\<And>m x st r st'. SF m x st = (r, st') \<Longrightarrow> hs_left (sk_socket (ss_codec st')) \<le> hs_left (sk_socket (ss_codec st))"
  shows "\<exists>rpc' sock' k'. handlePkg (httpSock X N) D codecs E SF n rpc sock k = Some (rpc', sock', k') \<and> hs_once sock'"
proof -
  have "handlePkg_loop (httpSock X N) D codecs E SF n empty_package rpc sock k \<noteq> None"
    by (rule connection.loop_ends [OF httpSock_connection [OF assms(1,2)] _ assms(3)]) (rule assms(4))
  then obtain r where "handlePkg_loop (httpSock X N) D codecs E SF n empty_package rpc sock k = Some r" by blast
  then show ?thesis using hs_Close_once by (cases r) (auto simp: handlePkg_def httpSock_def)
qed

theorem handlePkg_ends_witness:
  "\<exists>rpc' sock' k'. handlePkg (httpSock ext0 plainHttp) codec1 Map.empty env1 (\<lambda>_ _ st. (Ok None, st)) 1 rpc1 (initHTTPTransportSocket conn_all) () =
     Some (rpc', sock', k') \<and> hs_once sock'"
  by (rule handlePkg_ends [OF plain.http_wire_axioms ext0_ok(2)]) (simp_all add: hs_left_def initHTTPTransportSocket_def conn_all_def)

section \<open>JSON-RPC over http\<close>

text \<open>
  C5: A call over JSON-RPC and http. The client encodes a request and sends it to the path of a service; the server receives it, finds the codec by
  its content type and serves it, that is, it calls the method of the registered handler with the decoded argument; the package that it sends back is
  received by the client, which reads what the method left in its reply as the response to its request.
\<close>

theorem json_over_http:
  assumes w: "http_wire N" "trace_ok X" "client_ready hc" "socket_ready sock" "plain_entries request_keys hd1" "tl (hk_Path hc) = sname"
    and ct: "hd1 ''Content-Type'' = Some ''application/json''" "codecs ''application/json'' = None"
    and c: "cc_out c = []" and k: "sv_raw (jc_s k) \<noteq> []" "sv_raw (jc_s k) ! null_ptr = ''null''"
    and m: "m_Method m = str meth" "meth \<noteq> []" "utf8_text meth" "check_param (Some p) = Ok (Some p)" "ga_Marshal p = Ok pt" "json_text pt"
      "hd pt = CHR ''['' \<or> hd pt = CHR ''{''"
    and s: "sname \<noteq> []" "rs_serviceMap s sname = Some svc" "svc_method svc meth = Some mt" "\<not> mt_stream mt"
      "rt_Kind (mt_ArgType mt) \<noteq> KPtr" "mt_ReplyType mt = Some rt" "rt_Elem rt = Some ru"
    and e: "U pt (ge_New E (mt_ArgType mt)) = (None, a)"
      "\<And>ctx. call_unary E mt ctx \<lparr>va_Type = mt_ArgType mt, va_Val = a\<rparr> \<lparr>va_Type = rt_ptr ru, va_Val = ge_New E ru\<rparr> = Ok (None, v)"
      "ga_Marshal (M v) = Ok rtext" "json_text rtext" "\<not> is_null rtext"
  shows "\<exists>c1 hc1 bs pkg sock1 s' c' bs' pkg' hc2 m2 c2. cc_Write m (Some p) c = (Ok (), c1) \<and>
    hk_Send X N \<lparr>pk_Header = Some hd1, pk_Body = str (cc_out c1)\<rparr> hc = (Ok (), hc1) \<and> nc_out (hk_conn hc1) = nc_out (hk_conn hc) @ bs \<and>
    so_Recv (httpSock X N) empty_package (sock\<lparr>hs_bufReader := Some bs\<rparr>) = (Ok pkg, sock1) \<and>
    newCodec (jsonIf U M) codecs (pkg_get pkg ''Content-Type'') = Inl (jsonIf U M) \<and>
    serveRequest (httpSock X N) (jsonIf U M) E SF (pkg_ctx pkg) s (snewRPCCodec (jsonIf U M) pkg sock1 k) = (Ok (), s', c') \<and>
    nc_out (hs_conn (sk_socket c')) = nc_out (hs_conn sock) @ bs' \<and>
    hk_Recv X N empty_package (hc1\<lparr>hk_buff := Some bs'\<rparr>) = (Ok pkg', hc2) \<and>
    cc_ReadHeader norm m' (c1\<lparr>cc_dec := on_wire (chars (pk_Body pkg'))\<rparr>) = (Ok (), m2, c2) \<and>
    m_Method m2 = m_Method m \<and> m_ID m2 = m_ID m AND MAX_JSONRPC_ID \<and> m_Error m2 = [] \<and> cp_Result (cc_resp c2) = Some rtext"
proof -
  obtain c1 where c1: "cc_Write m (Some p) c = (Ok (), c1)" using cc_Write_text [OF m(4), of pt m c] m(5) by auto
  let ?b = "str (cc_out c1)" and ?ct = "[''Content-Type'' \<mapsto> ''application/json'']"
  obtain bs hc1 hdr r where snd: "hk_Send X N \<lparr>pk_Header = Some hd1, pk_Body = ?b\<rparr> hc = (Ok (), hc1)" "nc_out (hk_conn hc1) = nc_out (hk_conn hc) @ bs" "client_waiting hc1"
    "hs_Recv X N (Some empty_package) (sock\<lparr>hs_bufReader := Some (bs @ [])\<rparr>) = (Ok \<lparr>pk_Header = Some hdr, pk_Body = ?b\<rparr>, sock\<lparr>hs_bufReader := Some [], hs_reqQ := [r]\<rparr>)"
    "entries_received hd1 (tl (hk_Path hc)) hdr" "plain_header (rq_Header r)"
    by (rule http_wire.send_carried [OF w(1-5), of ?b empty_package "[]"]) blast
  let ?sock = "sock\<lparr>hs_bufReader := Some [], hs_reqQ := [r]\<rparr>" and ?pkg = "\<lparr>pk_Header = Some hdr, pk_Body = ?b\<rparr>"
  have recv: "so_Recv (httpSock X N) empty_package (sock\<lparr>hs_bufReader := Some bs\<rparr>) = (Ok ?pkg, ?sock)" using snd(4) by (simp add: httpSock_def)
  have s1: "socket_ready ?sock" "hs_reqQ ?sock = [r]" using w(4) snd(6) by (simp_all add: socket_ready_def)
  have h: "hdr ''HttpMethod'' = Some ''POST''" "hdr ''Path'' = Some sname" "hdr ''Content-Type'' = Some ''application/json''"
    using snd(5) w(6) ct(1) by (simp_all add: entries_received_def)
  have cod: "newCodec (jsonIf U M) codecs (pkg_get ?pkg ''Content-Type'') = Inl (jsonIf U M)"
    using h(3) ct(2) by (simp add: pkg_get_def newCodec_def defaultCodecs_def)
  have pl: "plain_entries response_keys ?ct" by (simp add: plain_entries_def) code_simp
  have cth: "(case hdr ''Content-Type'' of None \<Rightarrow> [] | Some t \<Rightarrow> t) = ''application/json''" using h(3) by simp
  have sok: "fst (so_Send (httpSock X N) \<lparr>pk_Header = Some [''Content-Type'' \<mapsto> (case hdr ''Content-Type'' of None \<Rightarrow> [] | Some t \<Rightarrow> t)], pk_Body = b\<rparr> ?sock) = Ok ()" for b
    unfolding cth by (rule http_wire.reply_carried [OF w(1,2) s1(2,1) snd(3) pl, of b empty_package]) (simp add: httpSock_def)
  obtain c1' s' c' body m2 c2 where call: "cc_Write m (Some p) c = (Ok (), c1')"
    "serveRequest (httpSock X N) (jsonIf U M) E SF (pkg_ctx ?pkg) s (snewRPCCodec (jsonIf U M) \<lparr>pk_Header = Some hdr, pk_Body = str (cc_out c1')\<rparr> ?sock k) = (Ok (), s', c')"
    "sk_socket c' = snd (so_Send (httpSock X N) \<lparr>pk_Header = Some [''Content-Type'' \<mapsto> (case hdr ''Content-Type'' of None \<Rightarrow> [] | Some t \<Rightarrow> t)], pk_Body = body\<rparr> ?sock)"
    "cc_ReadHeader norm m' (c1'\<lparr>cc_dec := on_wire (chars body)\<rparr>) = (Ok (), m2, c2)" "m_Method m2 = m_Method m"
    "m_ID m2 = m_ID m AND MAX_JSONRPC_ID" "m_Error m2 = []" "cp_Result (cc_resp c2) = Some rtext"
    using json_call_served [where S = "httpSock X N" and sock = ?sock and h = hdr and U = U and E = E and M = M and SF = SF and norm = norm
      and m' = m' and ctx = "pkg_ctx ?pkg" and s = s, OF c k m h(1,2) s e sok] by blast
  have same: "c1' = c1" using call(1) c1 by simp
  obtain bs' s2 hdr' where t: "hs_Send X N \<lparr>pk_Header = Some ?ct, pk_Body = body\<rparr> ?sock = (Ok (), s2)" "nc_out (hs_conn s2) = nc_out (hs_conn ?sock) @ bs'"
    "\<forall>rest. \<exists>h2. hk_Recv X N empty_package (hc1\<lparr>hk_buff := Some (bs' @ rest)\<rparr>) = (Ok \<lparr>pk_Header = Some hdr', pk_Body = body\<rparr>, h2) \<and> hk_buff h2 = Some rest \<and> client_ready h2"
    by (rule http_wire.reply_carried [OF w(1,2) s1(2,1) snd(3) pl, of body empty_package]) blast
  obtain hc2 where reply: "hk_Recv X N empty_package (hc1\<lparr>hk_buff := Some bs'\<rparr>) = (Ok \<lparr>pk_Header = Some hdr', pk_Body = body\<rparr>, hc2)"
    using t(3) [rule_format, of "[]"] by auto
  have out: "nc_out (hs_conn (sk_socket c')) = nc_out (hs_conn sock) @ bs'" using call(3) t(1,2) unfolding cth by (simp add: httpSock_def)
  have read: "cc_ReadHeader norm m' (c1\<lparr>cc_dec := on_wire (chars (pk_Body \<lparr>pk_Header = Some hdr', pk_Body = body\<rparr>))\<rparr>) = (Ok (), m2, c2)"
    using call(4) by (simp add: same)
  show ?thesis
    by (intro exI conjI, rule c1, rule snd(1), rule snd(2), rule recv, rule cod, rule call(2) [unfolded same], rule out, rule reply, rule read) (rule call)+
qed

theorem json_over_http_witness:
  "\<exists>c1 hc1 bs pkg sock1 s' c' bs' pkg' hc2 m2 c2. cc_Write post_message (Some arg1) (newClientCodec []) = (Ok (), c1) \<and>
    hk_Send ext0 plainHttp \<lparr>pk_Header = Some [''Content-Type'' \<mapsto> ''application/json''], pk_Body = str (cc_out c1)\<rparr> client1 = (Ok (), hc1) \<and>
    so_Recv (httpSock ext0 plainHttp) empty_package ((initHTTPTransportSocket conn_all)\<lparr>hs_bufReader := Some bs\<rparr>) = (Ok pkg, sock1) \<and>
    serveRequest (httpSock ext0 plainHttp) (jsonIf (\<lambda>s x. (None, s)) marshal1) env1 (\<lambda>_ _ st. (Ok None, st)) (pkg_ctx pkg) rpc1
      (snewRPCCodec (jsonIf (\<lambda>s x. (None, s)) marshal1) pkg sock1 (jc_NewCodec [] raw0)) = (Ok (), s', c') \<and>
    hk_Recv ext0 plainHttp empty_package (hc1\<lparr>hk_buff := Some bs'\<rparr>) = (Ok pkg', hc2) \<and>
    cc_ReadHeader id Message0 (c1\<lparr>cc_dec := on_wire (chars (pk_Body pkg'))\<rparr>) = (Ok (), m2, c2) \<and> cp_Result (cc_resp c2) = Some ''[1]''"
proof -
  have e: "plain_entries request_keys [''Content-Type'' \<mapsto> ''application/json'']" by (simp add: plain_entries_def) code_simp
  have t: "tl (hk_Path client1) = ''s''" by (simp add: client1_def initHTTPTransportClient_def)
  have ct: "[''Content-Type'' \<mapsto> ''application/json''] ''Content-Type'' = Some ''application/json''" by simp
  note call = json_over_http [where U = "\<lambda>s x. (None, s)" and a = "''[1]''" and v = "''[1]''" and E = env1 and M = marshal1 and codecs = Map.empty
      and norm = id and m' = Message0 and SF = "\<lambda>_ _ st. (Ok None, st)",
      OF plain.http_wire_axioms ext0_ok(2) client1_ready socket1_ready e t ct _ codecs1 post_message_simps(1) values1(5) utf8_m arg1_simps values1(4)
        values1(6) service1 refl values1(1,2) arg1_simps(3) values1(3)]
  show ?thesis using call by blast
qed

section \<open>The tcp socket\<close>

definition tcpSock :: "ext \<Rightarrow> netConn socketIf" where
  "tcpSock X = \<lparr>so_Recv = (\<lambda>p. sock_Recv (Some p)), so_Send = sock_Send X, so_Close = sock_Close X\<rparr>"

text \<open>
  C37: Over tcp a server serves nothing. It takes nothing from a connection, whatever the client has sent, answers that the empty content
  type is not supported, and closes the connection.
\<close>

theorem tcp_server_deaf:
  assumes "trace_ok X" "writable c" "codecs [] = None"
  shows "\<exists>c'. handlePkg (tcpSock X) D codecs E SF (Suc n) rpc c k = Some (rpc, c', k) \<and> nc_in c' = nc_in c \<and>
    nc_out c' = nc_out c @ str ''Unsupported Content-Type: '' \<and> nc_closed c'"
proof -
  have o: "\<not> nc_closed c" "nc_write c bs = (length bs, None)" for bs using assms(2) by (simp_all add: writable_def)
  have r: "so_Recv (tcpSock X) (pk_Reset empty_package) c = (Ok empty_package, c)"
    using o(1) by (simp add: tcpSock_def sock_Recv_def pk_Reset_def empty_package_def conn_Read_def)
  have n: "newCodec D codecs (pkg_get empty_package ''Content-Type'') = Inr (Errorf ''Unsupported Content-Type: '')"
    using assms(3) by (simp add: newCodec_def pkg_get_def empty_package_def defaultCodecs_def)
  let ?t = "str ''Unsupported Content-Type: ''"
  have s: "so_Send (tcpSock X) \<lparr>pk_Header = Some [''Content-Type'' \<mapsto> ''text/plain''], pk_Body = ?t\<rparr> c = (Ok (), c\<lparr>nc_out := nc_out c @ ?t\<rparr>)"
    unfolding tcpSock_def socketIf.simps sock_Send_def conn_Write_def Package.simps using o by (simp del: str_simps)
  have e: "str (err_text (Errorf ''Unsupported Content-Type: '')) = ?t" by simp
  have l: "handlePkg_loop (tcpSock X) D codecs E SF (Suc n) empty_package rpc c k = Some (rpc, c\<lparr>nc_out := nc_out c @ ?t\<rparr>, k)"
    unfolding handlePkg_loop.simps r prod.case outcome.case Let_def n sum.case e s by simp
  show ?thesis unfolding handlePkg_def l using o(1) by (simp add: tcpSock_def sock_Close_def conn_Close_def)
qed

theorem tcp_server_deaf_witness:
  "\<exists>c'. handlePkg (tcpSock ext0) codec1 Map.empty env1 (\<lambda>_ _ st. (Ok None, st)) 1 rpc1 (conn_all\<lparr>nc_in := [[1, 2]]\<rparr>) () = Some (rpc1, c', ()) \<and>
    nc_in c' = [[1, 2]] \<and> nc_closed c'"
proof -
  have w: "writable (conn_all\<lparr>nc_in := [[1, 2]]\<rparr>)" by (simp add: writable_def conn_all_def)
  have "Map.empty ([] :: string) = (None :: (unit, string) serverIf option)" by simp
  from tcp_server_deaf [OF ext0_ok(2) w this, where D = codec1 and E = env1 and SF = "\<lambda>_ _ st. (Ok None, st)" and n = 0 and rpc = rpc1 and k = "()"]
  show ?thesis by (simp only: conn_all_def netConn.simps One_nat_def) blast
qed

end
