(* ===== verification/Client_Pool.thy ===== *)
theory Client_Pool
  imports Go_Prelude
begin

text \<open>
  The connection pool of the client, \<^verbatim>\<open>client/rpc_pool.go\<close>. A pooled connection is a pointer that the
  pool, the calls and the garbage collector share, so connections live in a list and are named by
  their index. \<open>ps_closes\<close> records every call of \<^verbatim>\<open>Close\<close> on a transport client, the last one first.
\<close>

section \<open>Connections\<close>

text \<open>\<open>pc_once\<close> says that the \<^verbatim>\<open>sync.Once\<close> has run; \<open>pc_created\<close> is 0 for a connection that was closed through it.\<close>

record poolConn =
  pc_once :: bool
  pc_created :: int

record pool =
  ps_size :: int
  ps_ttl :: int
  ps_conns :: "string \<Rightarrow> nat list"
  ps_heap :: "poolConn list"
  ps_closes :: "nat list"

text \<open>The lifetime is cut to whole seconds; \<open>ttl\<close> is in nanoseconds.\<close>

definition newPool :: "int \<Rightarrow> int \<Rightarrow> pool" where
  "newPool sz ttl = \<lparr>ps_size = sz, ps_ttl = go_div ttl 1000000000, ps_conns = (\<lambda>_. []), ps_heap = [], ps_closes = []\<rparr>"

text \<open>\<^verbatim>\<open>Close\<close> of the transport client of a connection, past the once.\<close>

definition client_Close :: "nat \<Rightarrow> pool \<Rightarrow> pool" where
  "client_Close i p = p\<lparr>ps_closes := i # ps_closes p\<rparr>"

definition poolConn_Close :: "nat \<Rightarrow> pool \<Rightarrow> unit outcome \<times> pool" where
  "poolConn_Close i p = (let conn = ps_heap p ! i in
     if pc_once conn then (Err (Errorf ''close poolConn{%#v} again''), p)
     else (Ok (), (client_Close i p)\<lparr>ps_heap := (ps_heap p)[i := conn\<lparr>pc_once := True, pc_created := 0\<rparr>]\<rparr>))"

section \<open>Taking and returning connections\<close>

definition pool_key :: "string \<Rightarrow> string \<Rightarrow> string" where
  "pool_key protocol addr = addr @ ''@'' @ protocol"

text \<open>
  The loop takes connections from the end of the list; \<open>rs\<close> is the list in reverse. It closes those
  that are too old, and stops at the first that is not.
\<close>

fun getConn_loop :: "string \<Rightarrow> int \<Rightarrow> nat list \<Rightarrow> pool \<Rightarrow> nat option \<times> pool" where
  "getConn_loop key now [] p = (None, p)"
| "getConn_loop key now (i # rs) p =
     (let p = p\<lparr>ps_conns := (ps_conns p)(key := rev rs)\<rparr>
      in if now - pc_created (ps_heap p ! i) > ps_ttl p then getConn_loop key now rs (client_Close i p)
         else (Some i, p))"

text \<open>\<open>dial\<close> is the result of dialling, which happens only if no connection is left.\<close>

definition getConn ::
  "ext \<Rightarrow> string \<Rightarrow> string \<Rightarrow> int \<Rightarrow> int \<Rightarrow> unit outcome \<Rightarrow> pool \<Rightarrow> nat outcome \<times> pool" where
  "getConn X protocol addr now now' dial p = (let key = pool_key protocol addr in
     case getConn_loop key now (rev (ps_conns p key)) p of
       (Some i, p) \<Rightarrow> (Ok i, p)
     | (None, p) \<Rightarrow>
         (case dial of
            Ok _ \<Rightarrow> (Ok (length (ps_heap p)), p\<lparr>ps_heap := ps_heap p @ [\<lparr>pc_once = False, pc_created = now'\<rparr>]\<rparr>)
          | Err e \<Rightarrow> traced X 0 e p
          | Panic \<Rightarrow> (Panic, p) | NoFuel \<Rightarrow> (NoFuel, p)))"

text \<open>\<open>conn\<close> is \<open>None\<close> for a nil pointer; \<open>err\<close> is the error of the call.\<close>

definition release :: "string \<Rightarrow> string \<Rightarrow> nat option \<Rightarrow> goerr option \<Rightarrow> pool \<Rightarrow> pool" where
  "release protocol addr conn err p = (case conn of
     None \<Rightarrow> p
   | Some i \<Rightarrow>
       if pc_created (ps_heap p ! i) = 0 then p
       else if err \<noteq> None then snd (poolConn_Close i p)
       else (let key = pool_key protocol addr; conns = ps_conns p key in
             if int (length conns) \<ge> ps_size p then client_Close i p
             else p\<lparr>ps_conns := (ps_conns p)(key := conns @ [i])\<rparr>))"

section \<open>Calls that share a pool\<close>

text \<open>
  What the calls of one client do with the pool: a call takes a connection, ends by returning it if
  its request is a stream, and leaves its stream to the garbage collector, which closes the
  connection through its once. \<open>ss_running\<close> are the connections of running calls, \<open>ss_gc\<close> those of the
  streams that wait to be closed.
\<close>

record poolsys =
  ss_pool :: pool
  ss_running :: "nat list"
  ss_gc :: "nat list"

inductive pool_step :: "ext \<Rightarrow> poolsys \<Rightarrow> poolsys \<Rightarrow> bool" for X where
  step_begin: "getConn X protocol addr now now' dial (ss_pool s) = (Ok i, p) \<Longrightarrow>
     pool_step X s (s\<lparr>ss_pool := p, ss_running := i # ss_running s\<rparr>)"
| step_fail: "getConn X protocol addr now now' dial (ss_pool s) = (Err e, p) \<Longrightarrow> pool_step X s (s\<lparr>ss_pool := p\<rparr>)"
| step_end: "i \<in> set (ss_running s) \<Longrightarrow>
     pool_step X s (s\<lparr>ss_running := remove1 i (ss_running s), ss_gc := ss_gc s @ [i],
       ss_pool := (if stream then release protocol addr (Some i) err (ss_pool s) else ss_pool s)\<rparr>)"
| step_gc: "ss_gc s = i # rest \<Longrightarrow> pool_step X s (s\<lparr>ss_gc := rest, ss_pool := snd (poolConn_Close i (ss_pool s))\<rparr>)"

inductive pool_reachable :: "ext \<Rightarrow> int \<Rightarrow> int \<Rightarrow> poolsys \<Rightarrow> bool" for X sz ttl where
  reach_pool: "pool_reachable X sz ttl \<lparr>ss_pool = newPool sz ttl, ss_running = [], ss_gc = []\<rparr>"
| reach_pool_step: "pool_reachable X sz ttl s \<Longrightarrow> pool_step X s s' \<Longrightarrow> pool_reachable X sz ttl s'"

text \<open>
  The invariant: the lists of the pool and the running calls do not share a connection, and no
  list is longer than the size of the pool.
\<close>

definition pool_inv :: "int \<Rightarrow> poolsys \<Rightarrow> bool" where
  "pool_inv sz s \<longleftrightarrow> (let p = ss_pool s in
     ps_size p = sz \<and> distinct (ss_running s) \<and> (\<forall>i \<in> set (ss_running s) \<union> set (ss_gc s). i < length (ps_heap p)) \<and>
     (\<forall>k. distinct (ps_conns p k) \<and> int (length (ps_conns p k)) \<le> max 0 sz \<and>
          (\<forall>i \<in> set (ps_conns p k). i < length (ps_heap p) \<and> i \<notin> set (ss_running s))) \<and>
     (\<forall>k k' i. i \<in> set (ps_conns p k) \<longrightarrow> i \<in> set (ps_conns p k') \<longrightarrow> k = k'))"

lemma pool_invI:
  assumes "ps_size (ss_pool s) = sz" "distinct (ss_running s)"
    "\<And>i. i \<in> set (ss_running s) \<Longrightarrow> i < length (ps_heap (ss_pool s))"
    "\<And>i. i \<in> set (ss_gc s) \<Longrightarrow> i < length (ps_heap (ss_pool s))"
    "\<And>k. distinct (ps_conns (ss_pool s) k)" "\<And>k. int (length (ps_conns (ss_pool s) k)) \<le> max 0 sz"
    "\<And>k i. i \<in> set (ps_conns (ss_pool s) k) \<Longrightarrow> i < length (ps_heap (ss_pool s))"
    "\<And>k i. i \<in> set (ps_conns (ss_pool s) k) \<Longrightarrow> i \<notin> set (ss_running s)"
    "\<And>k k' i. i \<in> set (ps_conns (ss_pool s) k) \<Longrightarrow> i \<in> set (ps_conns (ss_pool s) k') \<Longrightarrow> k = k'"
  shows "pool_inv sz s"
  unfolding pool_inv_def Let_def using assms by blast

lemma pool_invD:
  assumes "pool_inv sz s"
  shows "ps_size (ss_pool s) = sz" "distinct (ss_running s)"
    "\<And>i. i \<in> set (ss_running s) \<Longrightarrow> i < length (ps_heap (ss_pool s))"
    "\<And>i. i \<in> set (ss_gc s) \<Longrightarrow> i < length (ps_heap (ss_pool s))"
    "\<And>k. distinct (ps_conns (ss_pool s) k)" "\<And>k. int (length (ps_conns (ss_pool s) k)) \<le> max 0 sz"
    "\<And>k i. i \<in> set (ps_conns (ss_pool s) k) \<Longrightarrow> i < length (ps_heap (ss_pool s))"
    "\<And>k i. i \<in> set (ps_conns (ss_pool s) k) \<Longrightarrow> i \<notin> set (ss_running s)"
    "\<And>k k' i. i \<in> set (ps_conns (ss_pool s) k) \<Longrightarrow> i \<in> set (ps_conns (ss_pool s) k') \<Longrightarrow> k = k'"
  using assms unfolding pool_inv_def Let_def by blast+

text \<open>What taking a connection does: a suffix of one list goes, and its last element is the result.\<close>

lemma getConn_loop_spec:
  assumes "ps_conns p key = rev rs" "getConn_loop key now rs p = (r, p')"
  shows "ps_size p' = ps_size p \<and> ps_heap p' = ps_heap p \<and> (\<forall>k. k \<noteq> key \<longrightarrow> ps_conns p' k = ps_conns p k) \<and>
    (case r of None \<Rightarrow> ps_conns p' key = [] | Some i \<Rightarrow> \<exists>t. ps_conns p key = ps_conns p' key @ i # t)"
  using assms
proof (induction rs arbitrary: p)
  case (Cons i rs)
  let ?p = "p\<lparr>ps_conns := (ps_conns p)(key := rev rs)\<rparr>"
  show ?case
  proof (cases "now - pc_created (ps_heap p ! i) > ps_ttl p")
    case True
    then have "getConn_loop key now rs (client_Close i ?p) = (r, p')" using Cons.prems by simp
    from Cons.IH [OF _ this] show ?thesis using Cons.prems(1) by (auto simp: client_Close_def split: option.splits)
  next
    case False
    then show ?thesis using Cons.prems by auto
  qed
qed auto

lemma getConn_spec:
  assumes "trace_ok X" "getConn X protocol addr now now' dial p = (res, p')"
  shows "ps_size p' = ps_size p \<and> (\<forall>k. \<exists>t. ps_conns p k = ps_conns p' k @ t) \<and> (\<exists>h. ps_heap p' = ps_heap p @ h)"
    "res = Ok i \<Longrightarrow> i = length (ps_heap p) \<and> i < length (ps_heap p') \<or> (\<exists>k t. ps_conns p k = ps_conns p' k @ i # t)"
proof -
  let ?key = "pool_key protocol addr"
  obtain r p1 where l: "getConn_loop ?key now (rev (ps_conns p ?key)) p = (r, p1)" by fastforce
  note sp = getConn_loop_spec [OF _ l, simplified]
  have t: "\<exists>t. ps_conns p k = ps_conns p1 k @ t" for k
    using sp by (cases "k = ?key") (auto split: option.splits)
  have p': "ps_size p' = ps_size p1 \<and> ps_conns p' = ps_conns p1 \<and> (\<exists>h. ps_heap p' = ps_heap p1 @ h)"
    using assms(2) l by (cases r; cases dial) (auto simp: getConn_def traced_def)
  then show "ps_size p' = ps_size p \<and> (\<forall>k. \<exists>t. ps_conns p k = ps_conns p' k @ t) \<and> (\<exists>h. ps_heap p' = ps_heap p @ h)"
    using sp t by simp
  assume ok: "res = Ok i"
  show "i = length (ps_heap p) \<and> i < length (ps_heap p') \<or> (\<exists>k t. ps_conns p k = ps_conns p' k @ i # t)"
  proof (cases r)
    case (Some j)
    then have "j = i" "p' = p1" using assms(2) l ok by (simp_all add: getConn_def)
    then show ?thesis using sp Some by auto
  next
    case None
    then show ?thesis using assms l ok sp
      by (cases dial) (auto simp: getConn_def error_not_Ok [OF assms(1)])
  qed
qed

lemma pool_inv_getConn:
  assumes "trace_ok X" "getConn X protocol addr now now' dial (ss_pool s) = (res, p')" "pool_inv sz s"
  shows "pool_inv sz (s\<lparr>ss_pool := p'\<rparr>)"
    "res = Ok i \<Longrightarrow> pool_inv sz (s\<lparr>ss_pool := p', ss_running := i # ss_running s\<rparr>)"
proof -
  let ?p = "ss_pool s"
  note sp = getConn_spec [OF assms(1,2)] and inv = pool_invD [OF assms(3)]
  obtain h where h: "ps_heap p' = ps_heap ?p @ h" using sp(1) by blast
  have c: "\<exists>t. ps_conns ?p k = ps_conns p' k @ t" for k using sp(1) by blast
  have sub: "\<And>i. i \<in> set (ps_conns p' k) \<Longrightarrow> i \<in> set (ps_conns ?p k)" "distinct (ps_conns p' k)"
    "int (length (ps_conns p' k)) \<le> int (length (ps_conns ?p k))" for k
    using c [of k] inv(5) [of k] by auto
  have len: "int (length (ps_conns p' k)) \<le> max 0 sz" for k
    using inv(6) [of k] sub(3) [of k] by linarith
  have b: "i < length (ps_heap ?p) \<Longrightarrow> i < length (ps_heap p')" for i using h by simp
  show i1: "pool_inv sz (s\<lparr>ss_pool := p'\<rparr>)"
    by (rule pool_invI) (use sp(1) inv(1-4,7-9) sub(1,2) len b in \<open>simp_all; blast\<close>)+
  assume "res = Ok i"
  then consider "i = length (ps_heap ?p)" "i < length (ps_heap p')" | k t where "ps_conns ?p k = ps_conns p' k @ i # t"
    using sp(2) by blast
  then have i: "i < length (ps_heap p')" "i \<notin> set (ss_running s)" "\<And>k. i \<notin> set (ps_conns p' k)"
  proof (atomize (full), cases)
    case 1
    then show "i < length (ps_heap p') \<and> i \<notin> set (ss_running s) \<and> (\<forall>k. i \<notin> set (ps_conns p' k))"
      using inv(3) [of i] inv(7) [of i] sub(1) [of i] by auto
  next
    case (2 k t)
    have m: "i \<in> set (ps_conns ?p k)" "i \<notin> set (ps_conns p' k)" using 2 inv(5) [of k] by auto
    then show "i < length (ps_heap p') \<and> i \<notin> set (ss_running s) \<and> (\<forall>k. i \<notin> set (ps_conns p' k))"
      using b inv(7-9) sub(1) by metis
  qed
  show "pool_inv sz (s\<lparr>ss_pool := p', ss_running := i # ss_running s\<rparr>)"
    by (rule pool_invI) (use pool_invD [OF i1] i in \<open>auto; blast\<close>)+
qed

lemma pool_inv_close:
  "pool_inv sz s \<Longrightarrow> pool_inv sz (s\<lparr>ss_pool := snd (poolConn_Close i (ss_pool s))\<rparr>)"
  by (auto simp: pool_inv_def poolConn_Close_def client_Close_def Let_def)

lemma pool_inv_end:
  assumes "pool_inv sz s" "i \<in> set (ss_running s)"
  shows "pool_inv sz (s\<lparr>ss_running := remove1 i (ss_running s), ss_gc := ss_gc s @ [i]\<rparr>)"
  by (rule pool_invI)
    (use pool_invD [OF assms(1)] assms(2) in \<open>auto simp: distinct_remove1 dest: notin_set_remove1\<close>)

lemma pool_inv_release:
  assumes "pool_inv sz s" "i < length (ps_heap (ss_pool s))" "i \<notin> set (ss_running s)" "\<And>k. i \<notin> set (ps_conns (ss_pool s) k)"
  shows "pool_inv sz (s\<lparr>ss_pool := release protocol addr (Some i) err (ss_pool s)\<rparr>)"
proof -
  let ?p = "ss_pool s" and ?key = "pool_key protocol addr"
  note inv = pool_invD [OF assms(1)]
  have a: "pool_inv sz (s\<lparr>ss_pool := ?p\<lparr>ps_conns := (ps_conns ?p)(?key := ps_conns ?p ?key @ [i])\<rparr>\<rparr>)"
    if "int (length (ps_conns ?p ?key)) < ps_size ?p"
  proof (rule pool_invI)
    show "int (length (ps_conns (ss_pool (s\<lparr>ss_pool := ?p\<lparr>ps_conns := (ps_conns ?p)(?key := ps_conns ?p ?key @ [i])\<rparr>\<rparr>)) k)) \<le> max 0 sz" for k
      using that inv(1) inv(6) [of k] by simp
    show "k = k'" if "j \<in> set (ps_conns (ss_pool (s\<lparr>ss_pool := ?p\<lparr>ps_conns := (ps_conns ?p)(?key := ps_conns ?p ?key @ [i])\<rparr>\<rparr>)) k)"
      "j \<in> set (ps_conns (ss_pool (s\<lparr>ss_pool := ?p\<lparr>ps_conns := (ps_conns ?p)(?key := ps_conns ?p ?key @ [i])\<rparr>\<rparr>)) k')" for k k' j
      using that inv(9) [of j k k'] assms(4) by (auto split: if_splits)
  qed (use inv(1-5,7,8) assms(2-4) in \<open>auto split: if_splits\<close>)
  have b: "pool_inv sz (s\<lparr>ss_pool := client_Close i ?p\<rparr>)"
    by (rule pool_invI) (use inv in \<open>auto simp: client_Close_def\<close>)
  have c: "pool_inv sz (s\<lparr>ss_pool := ?p\<rparr>)" using assms(1) by simp
  show ?thesis
    using a b c pool_inv_close [OF assms(1), of i]
    by (auto simp: release_def Let_def)
qed

lemma pool_inv_step: "trace_ok X \<Longrightarrow> pool_inv sz s \<Longrightarrow> pool_step X s s' \<Longrightarrow> pool_inv sz s'"
proof (erule pool_step.cases, goal_cases)
  case (1 protocol addr now now' dial s i p)
  then show ?case using pool_inv_getConn(2) [of X protocol addr now now' dial s "Ok i" p sz i] by simp
next
  case (2 protocol addr now now' dial s e p)
  then show ?case using pool_inv_getConn(1) by metis
next
  case (3 i s stream protocol addr err)
  let ?t = "s\<lparr>ss_running := remove1 i (ss_running s), ss_gc := ss_gc s @ [i]\<rparr>"
  note inv = pool_invD [OF 3(2) [unfolded 3(3)]]
  have e: "pool_inv sz ?t" using 3 pool_inv_end by metis
  have "pool_inv sz (?t\<lparr>ss_pool := release protocol addr (Some i) err (ss_pool ?t)\<rparr>)"
    by (rule pool_inv_release [OF e]) (use 3(5) inv(2,3,8) in \<open>auto\<close>)
  then show ?case using e 3(3,4) by (cases stream) simp_all
next
  case (4 s i rest)
  then have "pool_inv sz (s\<lparr>ss_gc := rest\<rparr>)" by (intro pool_invI) (auto dest: pool_invD)
  from pool_inv_close [OF this, of i] show ?case using 4 by simp
qed

section \<open>Properties\<close>

text \<open>
  C16: Whatever calls, ends of calls and runs of the garbage collector happen in whatever order, no
  connection belongs to two running calls, none is both in use and in the pool or twice in the
  pool, and the pool keeps at most its size of connections for an address and protocol.
\<close>

theorem pool_exclusive:
  assumes "pool_reachable X sz ttl s" and "trace_ok X"
  shows "distinct (ss_running s) \<and>
    (\<forall>k. distinct (ps_conns (ss_pool s) k) \<and> set (ps_conns (ss_pool s) k) \<inter> set (ss_running s) = {} \<and>
         int (length (ps_conns (ss_pool s) k)) \<le> max 0 sz) \<and>
    (\<forall>k k'. k \<noteq> k' \<longrightarrow> set (ps_conns (ss_pool s) k) \<inter> set (ps_conns (ss_pool s) k') = {})"
proof -
  have "pool_inv sz s" using assms(1)
  proof induction
    case reach_pool
    show ?case by (simp add: pool_inv_def newPool_def)
  qed (use pool_inv_step [OF assms(2)] in blast)
  from pool_invD [OF this] show ?thesis by auto
qed

theorem pool_exclusive_witness:
  "\<exists>s. pool_reachable ext0 1 0 s \<and> ss_running s = [0] \<and> distinct (ss_running s) \<and>
     int (length (ps_conns (ss_pool s) [])) \<le> 1"
proof -
  let ?s0 = "\<lparr>ss_pool = newPool 1 0, ss_running = [], ss_gc = []\<rparr>"
  obtain p where p: "getConn ext0 ''dubbo'' ''h'' 0 0 (Ok ()) (ss_pool ?s0) = (Ok 0, p)"
    by (simp add: getConn_def newPool_def)
  have r: "pool_reachable ext0 1 0 (?s0\<lparr>ss_pool := p, ss_running := 0 # ss_running ?s0\<rparr>)"
    by (rule pool_reachable.reach_pool_step [OF pool_reachable.reach_pool pool_step.step_begin [OF p]])
  then have "distinct (ss_running (?s0\<lparr>ss_pool := p, ss_running := 0 # ss_running ?s0\<rparr>))"
    "int (length (ps_conns p [])) \<le> 1" using pool_exclusive [OF r ext0_ok(2)] by simp_all
  then show ?thesis using r by (intro exI [of _ "?s0\<lparr>ss_pool := p, ss_running := 0 # ss_running ?s0\<rparr>"]) simp
qed

lemma getConn_top:
  assumes "ps_conns p (pool_key protocol addr) = cs @ [i]"
  shows "now - pc_created (ps_heap p ! i) \<le> ps_ttl p \<Longrightarrow>
      getConn X protocol addr now now' dial p = (Ok i, p\<lparr>ps_conns := (ps_conns p)(pool_key protocol addr := cs)\<rparr>)"
    "now - pc_created (ps_heap p ! i) > ps_ttl p \<Longrightarrow> cs = [] \<Longrightarrow> getConn X protocol addr now now' (Ok ()) p =
      (Ok (length (ps_heap p)), p\<lparr>ps_conns := (ps_conns p)(pool_key protocol addr := []), ps_closes := i # ps_closes p,
         ps_heap := ps_heap p @ [\<lparr>pc_once = False, pc_created = now'\<rparr>]\<rparr>)"
  using assms by (simp_all add: getConn_def Let_def client_Close_def)



end
