(* ===== verification/Client_Call.thy ===== *)
theory Client_Call
  imports Client_Codec Client_Pool Zk_Registry
begin

text \<open>
  The client, \<^verbatim>\<open>client/rpc_client.go\<close>: how a call chooses its timeout, takes a connection, returns it, and
  how often it is tried. With it the errors of \<^verbatim>\<open>common/errors.go\<close>, the options of \<^verbatim>\<open>client/options.go\<close> and the
  requests of \<^verbatim>\<open>client/rpc_request.go\<close>. Durations are in nanoseconds. What happens on the network and in the
  context while a call waits is given as a value.
\<close>

section \<open>Errors\<close>

text \<open>The texts of \<^verbatim>\<open>http.StatusText\<close> for the codes that the sources use; the others are not needed.\<close>

definition StatusText :: "int \<Rightarrow> string" where
  "StatusText code =
     (if code = 400 then ''Bad Request'' else if code = 401 then ''Unauthorized'' else if code = 403 then ''Forbidden''
      else if code = 404 then ''Not Found'' else if code = 408 then ''Request Timeout''
      else if code = 500 then ''Internal Server Error'' else [])"

definition NewError :: "string \<Rightarrow> string \<Rightarrow> int \<Rightarrow> goerr" where
  "NewError ident detail code = CommonError ident code detail (StatusText code)"

definition BadRequest :: "string \<Rightarrow> string \<Rightarrow> goerr" where
  "BadRequest ident detail = CommonError ident 400 detail (StatusText 400)"

definition Unauthorized :: "string \<Rightarrow> string \<Rightarrow> goerr" where
  "Unauthorized ident detail = CommonError ident 401 detail (StatusText 401)"

definition Forbidden :: "string \<Rightarrow> string \<Rightarrow> goerr" where
  "Forbidden ident detail = CommonError ident 403 detail (StatusText 403)"

definition NotFound :: "string \<Rightarrow> string \<Rightarrow> goerr" where
  "NotFound ident detail = CommonError ident 404 detail (StatusText 404)"

definition InternalServerError :: "string \<Rightarrow> string \<Rightarrow> goerr" where
  "InternalServerError ident detail = CommonError ident 500 detail (StatusText 500)"

section \<open>Options and requests\<close>

record 'n CallOptions =
  co_DialTimeout :: int
  co_Retries :: int
  co_RequestTimeout :: int
  co_Next :: "'n option"

definition DefaultRetries :: int where "DefaultRetries = 1"
definition DefaultRequestTimeout :: int where "DefaultRequestTimeout = 5000000000"
definition DefaultPoolSize :: int where "DefaultPoolSize = 0"
definition DefaultPoolTTL :: int where "DefaultPoolTTL = 60000000000"

record ('n, 'r, 's) Options =
  op_CodecType :: int
  op_Registry :: "'r option"
  op_Selector :: "'s option"
  op_PoolSize :: int
  op_PoolTTL :: int
  op_CallOptions :: "'n CallOptions"

text \<open>The options that a client starts with; the given ones are applied to them in order.\<close>

definition newOptions :: "(('n, 'r, 's) Options \<Rightarrow> ('n, 'r, 's) Options) list \<Rightarrow> ('n, 'r, 's) Options outcome" where
  "newOptions options =
     (let opts = fold (\<lambda>f o1. f o1) options \<lparr>op_CodecType = 0, op_Registry = None, op_Selector = None,
          op_PoolSize = DefaultPoolSize, op_PoolTTL = DefaultPoolTTL,
          op_CallOptions = \<lparr>co_DialTimeout = DefaultDialTimeout, co_Retries = DefaultRetries,
            co_RequestTimeout = DefaultRequestTimeout, co_Next = None\<rparr>\<rparr>
      in if op_Registry opts = None then Panic
         else if op_Selector opts = None then Panic
         else if CodecType_String (op_CodecType opts) = [] then Panic
         else Ok opts)"

definition WithDialTimeout :: "int \<Rightarrow> 'n CallOptions \<Rightarrow> 'n CallOptions" where
  "WithDialTimeout d o1 = o1\<lparr>co_DialTimeout := d\<rparr>"

definition WithRetries :: "int \<Rightarrow> 'n CallOptions \<Rightarrow> 'n CallOptions" where
  "WithRetries i o1 = o1\<lparr>co_Retries := i\<rparr>"

definition WithRequestTimeout :: "int \<Rightarrow> 'n CallOptions \<Rightarrow> 'n CallOptions" where
  "WithRequestTimeout d o1 = o1\<lparr>co_RequestTimeout := d\<rparr>"

text \<open>The options of the client itself; those of a call are set in its defaults.\<close>

definition opt_CodecType :: "int \<Rightarrow> ('n, 'r, 's) Options \<Rightarrow> ('n, 'r, 's) Options" where
  "opt_CodecType t o1 = o1\<lparr>op_CodecType := t\<rparr>"

definition PoolSize :: "int \<Rightarrow> ('n, 'r, 's) Options \<Rightarrow> ('n, 'r, 's) Options" where
  "PoolSize d o1 = o1\<lparr>op_PoolSize := d\<rparr>"

definition PoolTTL :: "int \<Rightarrow> ('n, 'r, 's) Options \<Rightarrow> ('n, 'r, 's) Options" where
  "PoolTTL d o1 = o1\<lparr>op_PoolTTL := d\<rparr>"

definition client_Registry :: "'r \<Rightarrow> ('n, 'r, 's) Options \<Rightarrow> ('n, 'r, 's) Options" where
  "client_Registry r o1 = o1\<lparr>op_Registry := Some r\<rparr>"

definition client_Selector :: "'s \<Rightarrow> ('n, 'r, 's) Options \<Rightarrow> ('n, 'r, 's) Options" where
  "client_Selector s o1 = o1\<lparr>op_Selector := Some s\<rparr>"

definition Retries :: "int \<Rightarrow> ('n, 'r, 's) Options \<Rightarrow> ('n, 'r, 's) Options" where
  "Retries i o1 = o1\<lparr>op_CallOptions := WithRetries i (op_CallOptions o1)\<rparr>"

definition RequestTimeout :: "int \<Rightarrow> ('n, 'r, 's) Options \<Rightarrow> ('n, 'r, 's) Options" where
  "RequestTimeout d o1 = o1\<lparr>op_CallOptions := WithRequestTimeout d (op_CallOptions o1)\<rparr>"

definition DialTimeout :: "int \<Rightarrow> ('n, 'r, 's) Options \<Rightarrow> ('n, 'r, 's) Options" where
  "DialTimeout d o1 = o1\<lparr>op_CallOptions := WithDialTimeout d (op_CallOptions o1)\<rparr>"

record rpcRequest =
  rr_group :: string
  rr_protocol :: string
  rr_version :: string
  rr_service :: string
  rr_method :: string
  rr_contentType :: string
  rr_Stream :: bool

definition rr_ServiceConfig :: "rpcRequest \<Rightarrow> ServiceConfig" where
  "rr_ServiceConfig r = \<lparr>sc_Protocol = rr_protocol r, sc_Service = rr_service r, sc_Group = rr_group r, sc_Version = rr_version r\<rparr>"

definition codec2ContentType :: "string \<Rightarrow> string" where
  "codec2ContentType c = (if c = ''jsonrpc'' then ''application/json'' else if c = ''dubbo'' then ''application/dubbo'' else [])"

text \<open>The transport of a codec in \<^verbatim>\<open>dubbogoClientConfigMap\<close>, 0 for a codec that is not there.\<close>

definition config_transport :: "int \<Rightarrow> int" where
  "config_transport c = (if c = CODECTYPE_JSONRPC then TRANSPORT_HTTP else if c = CODECTYPE_DUBBO then TRANSPORT_TCP else 0)"

definition NewRequest :: "int \<Rightarrow> string \<Rightarrow> string \<Rightarrow> string \<Rightarrow> string \<Rightarrow> bool \<Rightarrow> rpcRequest" where
  "NewRequest codecType grp version service method stream =
     (let c = CodecType_String codecType
      in \<lparr>rr_group = grp, rr_protocol = c, rr_version = version, rr_service = service, rr_method = method,
          rr_contentType = codec2ContentType c, rr_Stream = stream \<or> config_transport codecType = TRANSPORT_TCP\<rparr>)"

text \<open>The function that chooses the service of an attempt: that of the call, or what the selector gives for the service.\<close>

definition rc_next :: "(ServiceConfig \<Rightarrow> 'n outcome) \<Rightarrow> rpcRequest \<Rightarrow> 'n CallOptions \<Rightarrow> 'n outcome" where
  "rc_next sel req opts = (case co_Next opts of Some f \<Rightarrow> Ok f | None \<Rightarrow> sel (rr_ServiceConfig req))"

text \<open>
  \<^verbatim>\<open>Close\<close> of the client: the channel \<open>done\<close> is closed first, every time; the selector and the registry once. \<open>cs\<close> and
  \<open>cr\<close> close them.
\<close>

record ('r, 's) clientState =
  cl_done :: bool
  cl_once :: bool
  cl_Selector :: "'s option"
  cl_Registry :: "'r option"

definition rpcClient_Close :: "('s \<Rightarrow> 's) \<Rightarrow> ('r \<Rightarrow> 'r) \<Rightarrow> ('r, 's) clientState \<Rightarrow> unit outcome \<times> 's option \<times> 'r option \<times> ('r, 's) clientState" where
  "rpcClient_Close cs cr c =
     (if cl_done c then (Panic, None, None, c)
      else (let c = c\<lparr>cl_done := True\<rparr> in
        if cl_once c then (Ok (), None, None, c)
        else (Ok (), map_option cs (cl_Selector c), map_option cr (cl_Registry c), c\<lparr>cl_once := True, cl_Selector := None, cl_Registry := None\<rparr>)))"

lemma close_twice: "fst (rpcClient_Close cs cr (snd (snd (snd (rpcClient_Close cs cr c))))) = Panic"
  by (simp add: rpcClient_Close_def Let_def)

section \<open>One call\<close>

text \<open>
  The timeout of a call: that of the options or, if the service names a shorter one in milliseconds,
  that of the service; the default if it is not positive. The product is taken in 64 bits.
\<close>

definition call_timeout :: "int \<Rightarrow> urlvalues \<Rightarrow> int" where
  "call_timeout reqTimeout q =
     (let t = Get q ''timeout'';
          d = (if t = [] then reqTimeout
               else (case Atoi t of
                 None \<Rightarrow> reqTimeout
               | Some n \<Rightarrow>
                   let d = sint (word_of_int (n * 1000000) :: int64) in if d < reqTimeout then d else reqTimeout))
      in if d \<le> 0 then DefaultRequestTimeout else d)"

text \<open>The package: the headers of the context, if it has any, and only then those of the call.\<close>

definition call_package :: "int \<Rightarrow> (string \<rightharpoonup> string) option \<Rightarrow> string \<Rightarrow> int \<Rightarrow> Package" where
  "call_package codecType md contentType reqTimeout =
     \<lparr>pk_Header =
        (if codecType = CODECTYPE_DUBBO then None
         else (case md of
           None \<Rightarrow> Some Map.empty
         | Some md \<Rightarrow> Some (md(''Timeout'' \<mapsto> itoa reqTimeout, ''Content-Type'' \<mapsto> contentType, ''Accept'' \<mapsto> contentType)))),
      pk_Body = []\<rparr>"

text \<open>How a call ends: the exchange on its stream returns an error or nil, or its context is done first.\<close>

datatype callEnd = Answer "goerr option" | CtxDone goerr

text \<open>
  \<^verbatim>\<open>call\<close>: a connection is taken, the exchange runs on it, and at the end the connection of a streaming
  request is returned to the pool and the stream is given to the garbage collector.
\<close>

definition rpc_call ::
  "ext \<Rightarrow> int \<Rightarrow> rpcRequest \<Rightarrow> ServiceURL \<Rightarrow> int \<Rightarrow> int \<Rightarrow> unit outcome \<Rightarrow> (nat \<Rightarrow> callEnd) \<Rightarrow> poolsys
   \<Rightarrow> unit outcome \<times> poolsys" where
  "rpc_call X codecType req service now now' dial exchange s =
     (case getConn X (CodecType_String codecType) (su_Location service) now now' dial (ss_pool s) of
        (Err e, p) \<Rightarrow> (Err (InternalServerError ''dubbogo.client'' ''Error sending request: %v''), s\<lparr>ss_pool := p\<rparr>)
      | (Ok i, p) \<Rightarrow>
          (let (gerr, res) = (case exchange i of
                 Answer err \<Rightarrow> (err, ret () (je_Trace X err))
               | CtxDone e \<Rightarrow> (Some e, Err (NewError ''dubbogo.client'' ''%v'' 408)));
               p = (if rr_Stream req then release (rr_protocol req) (su_Location service) (Some i) gerr p else p)
           in (res, s\<lparr>ss_gc := ss_gc s @ [i], ss_pool := p\<rparr>))
      | (Panic, p) \<Rightarrow> (Panic, s\<lparr>ss_pool := p\<rparr>) | (NoFuel, p) \<Rightarrow> (NoFuel, s\<lparr>ss_pool := p\<rparr>))"

section \<open>Retrying\<close>

text \<open>The error that the client reports for an error of the selector.\<close>

definition selector_error :: "goerr \<Rightarrow> goerr" where
  "selector_error e = (if e = ErrNotFound then NotFound ''dubbogo.client'' ''%v'' else InternalServerError ''dubbogo.client'' ''%v'')"

text \<open>
  One attempt: the closure \<^verbatim>\<open>call\<close> of \<^verbatim>\<open>Call\<close>, which asks for the next service and calls it.
\<close>

definition call_attempt ::
  "ext \<Rightarrow> int \<Rightarrow> rpcRequest \<Rightarrow> ServiceURL outcome \<Rightarrow> int \<Rightarrow> int \<Rightarrow> unit outcome \<Rightarrow> (nat \<Rightarrow> callEnd) \<Rightarrow> poolsys
   \<Rightarrow> unit outcome \<times> poolsys" where
  "call_attempt X codecType req nxt now now' dial exchange s = (case nxt of
     Err e \<Rightarrow> (Err (selector_error e), s)
   | Ok service \<Rightarrow>
       otry (rpc_call X codecType req service now now' dial exchange s) (traced X ())
         (\<lambda>u s. (ret u (je_Trace X None), s))
   | Panic \<Rightarrow> (Panic, s) | NoFuel \<Rightarrow> (NoFuel, s))"

text \<open>
  The loop of \<^verbatim>\<open>Call\<close>: attempt \<open>i\<close> of \<open>retries\<close>; \<open>txt\<close> is the method \<^verbatim>\<open>Error()\<close> of an error. The result counts the
  attempts that were started. \<open>NoFuel\<close> is a call that still waits.
\<close>

fun Call_loop ::
  "ext \<Rightarrow> (goerr \<Rightarrow> string) \<Rightarrow> int \<Rightarrow> int \<Rightarrow> callEnd list \<Rightarrow> goerr option \<Rightarrow> unit outcome \<times> int" where
  "Call_loop X txt retries i [] gerr = (if \<not> i < retries then (ret () gerr, i) else (NoFuel, i + 1))"
| "Call_loop X txt retries i (a # as) gerr =
     (if \<not> i < retries then (ret () gerr, i)
      else (case a of
        CtxDone e \<Rightarrow> (Err (NewError ''dubbogo.client'' ''%v'' 408), i + 1)
      | Answer None \<Rightarrow> (Ok (), i + 1)
      | Answer (Some e) \<Rightarrow>
          if txt e = [] then (Ok (), i + 1)
          else Call_loop X txt retries (i + 1) as (je_Trace X (Some e))))"

text \<open>
  \<^verbatim>\<open>Call\<close> itself: \<open>next\<close> is the result of the selector, \<open>done\<close> the error of a context that is done before the
  first attempt. A negative number of retries is a negative channel size.
\<close>

definition Call ::
  "ext \<Rightarrow> (goerr \<Rightarrow> string) \<Rightarrow> 'n outcome \<Rightarrow> goerr option \<Rightarrow> 'n CallOptions \<Rightarrow> callEnd list \<Rightarrow> unit outcome \<times> int" where
  "Call X txt next done opts ends =
     (case (case co_Next opts of Some f \<Rightarrow> Ok f | None \<Rightarrow> next) of
        Err e \<Rightarrow> (Err (selector_error e), 0)
      | Ok _ \<Rightarrow>
          (case done of
             Some e \<Rightarrow> (Err (NewError ''dubbogo.client'' ''%v'' 408), 0)
           | None \<Rightarrow> if co_Retries opts < 0 then (Panic, 0) else Call_loop X txt (co_Retries opts) 0 ends None)
      | Panic \<Rightarrow> (Panic, 0) | NoFuel \<Rightarrow> (NoFuel, 0))"

section \<open>What the attempts amount to\<close>

lemma Call_loop_spec:
  assumes "trace_ok X" "i \<le> retries" "retries - i \<le> int (length errs)"
  shows "Call_loop X txt retries i (map Answer errs) gerr =
    (let n = nat (retries - i); bad = takeWhile (\<lambda>e. \<exists>x. e = Some x \<and> txt x \<noteq> []) (take n errs)
     in if length bad < n then (Ok (), i + int (length bad) + 1)
        else (ret () (if n = 0 then gerr else je_Trace X (last bad)), retries))"
  using assms(2,3)
proof (induction errs arbitrary: i gerr)
  case (Cons e errs)
  show ?case
  proof (cases "i < retries")
    case True
    then obtain n where n: "nat (retries - i) = Suc n" "nat (retries - (i + 1)) = n"
      by (cases "nat (retries - i)") auto
    have IH: "Call_loop X txt retries (i + 1) (map Answer errs) g =
      (let bad = takeWhile (\<lambda>e. \<exists>x. e = Some x \<and> txt x \<noteq> []) (take n errs)
       in if length bad < n then (Ok (), i + 1 + int (length bad) + 1)
          else (ret () (if n = 0 then g else je_Trace X (last bad)), retries))" for g
      using Cons.IH [of "i + 1" g] True Cons.prems unfolding n(2) by simp
    show ?thesis
    proof (cases "\<exists>x. e = Some x \<and> txt x \<noteq> []")
      case bad: True
      have "takeWhile (\<lambda>e. \<exists>x. e = Some x \<and> txt x \<noteq> []) (take n errs) \<noteq> []"
        if "n \<noteq> 0" "\<not> length (takeWhile (\<lambda>e. \<exists>x. e = Some x \<and> txt x \<noteq> []) (take n errs)) < n"
        using that by auto
      then show ?thesis using True bad by (auto simp: IH n(1) Let_def)
    next
      case False
      then have "Call_loop X txt retries i (map Answer (e # errs)) gerr = (Ok (), i + 1)"
        using True by (cases e) auto
      moreover have "\<not> (\<exists>x. e = Some x \<and> txt x \<noteq> [])" using False .
      ultimately show ?thesis unfolding n(1) take_Suc_Cons takeWhile.simps if_not_P [OF False] by (auto simp del: Call_loop.simps)
    qed
  next
    case False
    then show ?thesis using Cons.prems by simp
  qed
qed simp

section \<open>Properties\<close>

text \<open>
  C20: What a call returns. With \<open>n\<close> retries configured it succeeds at the first of the first \<open>n\<close> attempts that
  ends without an error, and starts no further one; if all of them fail, it reports the last error.
  With no retries it reports success without any attempt.
\<close>

theorem call_result:
  assumes "trace_ok X" and "co_Next opts = Some f \<or> next = Ok f" and "0 \<le> co_Retries opts"
    and "n = nat (co_Retries opts)" and "n \<le> length errs"
    and "bad = takeWhile (\<lambda>e. \<exists>x. e = Some x \<and> txt x \<noteq> []) (take n errs)"
  shows "Call X txt next None opts (map Answer errs) =
    (if n = 0 then (Ok (), 0)
     else if length bad < n then (Ok (), int (length bad) + 1)
     else (ret () (je_Trace X (last bad)), int n)) \<and>
    (length bad = n \<and> 0 < n \<longrightarrow> (\<exists>e. fst (Call X txt next None opts (map Answer errs)) = Err e))"
proof -
  have c: "Call X txt next None opts (map Answer errs) = Call_loop X txt (co_Retries opts) 0 (map Answer errs) None"
    using assms(2,3) by (auto simp: Call_def split: option.splits)
  have l: "Call_loop X txt (co_Retries opts) 0 (map Answer errs) None =
    (if n = 0 then (Ok (), 0) else if length bad < n then (Ok (), int (length bad) + 1)
     else (ret () (je_Trace X (last bad)), int n))"
    using Call_loop_spec [OF assms(1,3), of errs "txt" None] assms(3-6) by (simp add: Let_def)
  have "\<exists>e. ret () (je_Trace X (last bad)) = Err e" if "bad \<noteq> []"
  proof -
    have "last bad \<in> set bad" using that by simp
    then obtain x where "last bad = Some x" unfolding assms(6) by (auto dest: set_takeWhileD)
    then show ?thesis using trace_okD(2) [OF assms(1), of x] by auto
  qed
  then show ?thesis unfolding c l by auto
qed

theorem call_result_witness:
  "Call ext0 (\<lambda>_. ''x'') (Ok ()) None \<lparr>co_DialTimeout = 0, co_Retries = 3, co_RequestTimeout = 0, co_Next = None\<rparr>
     (map Answer [Some EOF, None, Some EOF]) = (Ok (), 2)"
  using call_result [OF ext0_ok(2), of "\<lparr>co_DialTimeout = 0, co_Retries = 3, co_RequestTimeout = 0, co_Next = None\<rparr>" "()" "Ok ()"
      3 "[Some EOF, None, Some EOF]" "[Some EOF]" "\<lambda>_. ''x''"]
  by (simp add: numeral_3_eq_3)

text \<open>
  The unit of a timeout is lost between the two sides: a provider writes the timeout of its registry,
  which is in seconds, into its url, and a client takes the number as milliseconds. If the
  number of milliseconds is below the timeout of the client's options, requests to this provider are
  cut off after a thousandth of the time that was configured.
\<close>

theorem provider_timeout:
  assumes "scheme_name (sc_Protocol (pc_ServiceConfig conf))" and "plain_name (sc_Service (pc_ServiceConfig conf))"
    and "pc_Path conf = ip @ '':'' @ port" and "plain_name ip" and "plain_name port"
    and "0 < zr_Timeout (pr_reg p)" and "zr_Timeout (pr_reg p) * 1000000 < reqTimeout" and "reqTimeout < 2 ^ 63"
  shows "\<exists>u. NewServiceURL (QueryEscape (provider_url P p conf)) = Ok u \<and>
    call_timeout reqTimeout (su_Query u) = zr_Timeout (pr_reg p) * 1000000"
proof -
  let ?sc = "pc_ServiceConfig conf" and ?ps = "provider_params P p conf" and ?t = "zr_Timeout (pr_reg p)"
  have pp: "plain_name (provider_path p (sc_Service ?sc))" using assms(2) by (rule provider_path_plain)
  have u: "provider_url P p conf = sc_Protocol ?sc @ ''://'' @ (ip @ '':'' @ port) @ ''/'' @
      provider_path p (sc_Service ?sc) @ ''?'' @ Values_Encode ?ps"
    by (simp add: provider_url_def Let_def assms(3))
  have g: "Get (Values_of ?ps) ''timeout'' = itoa ?t"
    by (simp add: provider_params_def common_params_def Let_def Values_of_def Get_def)
  have a: "Atoi (itoa ?t) = Some ?t" using assms(6-8) by (intro Atoi_itoa) simp_all
  have w: "sint (word_of_int (?t * 1000000) :: int64) = ?t * 1000000"
    by (rule sint_word_of_int_small) (use assms(6-8) in simp_all)
  have n: "itoa ?t \<noteq> []" using assms(6) by (simp add: itoa_def)
  have "call_timeout reqTimeout (Values_of ?ps) = ?t * 1000000"
    unfolding call_timeout_def g a Let_def option.case w using n assms(6,7) by simp
  then show ?thesis unfolding u NewServiceURL_built [OF assms(1,4,5) pp, of ?ps] by simp
qed

theorem provider_timeout_witness:
  "\<exists>u. NewServiceURL (QueryEscape (provider_url proc1 preg1 pconf1)) = Ok u \<and>
     call_timeout DefaultRequestTimeout (su_Query u) = 1000000"
  using provider_timeout [of pconf1 "''h''" "''80''" preg1 DefaultRequestTimeout proc1]
  by (auto simp: preg1_def pconf1_def conf1_def scheme_name_def plain_name_def unreserved_def is_letter_def is_digit_def
      between_def DefaultRequestTimeout_def)

end
