(* ===== verification/Rpc_Http.thy ===== *)
theory Rpc_Http
  imports Server_Http Client_Call
begin

text \<open>The package that a call of the client prepares, at a server of the same program.\<close>

lemma unsupported_no_json: "scan_value (scan_fuel ''Unsupported Content-Type: '') ''Unsupported Content-Type: '' = Bad"
  by code_simp

lemma unsupported_skip: "skip ''Unsupported Content-Type: '' = ''Unsupported Content-Type: ''"
  by code_simp

text \<open>
  C38: A JSON-RPC call whose context carries no header map never reaches a method. The client sends no content type then; the server answers with a
  text and closes the connection; the client takes the answer for a response, since its status is that of a success, and fails to
  decode it.
\<close>

theorem call_without_metadata:
  assumes w: "http_wire N" "trace_ok X" "client_ready h" "socket_ready sock" "\<not> hs_once sock" "codecs [] = None"
    and c: "cc_dec c = on_wire ''Unsupported Content-Type: ''"
  shows "\<exists>h1 bs sock' bs' pkg' h2. hk_Send X N ((call_package CODECTYPE_JSONRPC None ct t)\<lparr>pk_Body := b\<rparr>) h = (Ok (), h1) \<and>
    nc_out (hk_conn h1) = nc_out (hk_conn h) @ bs \<and>
    handlePkg (httpSock X N) D codecs E SF (Suc n) rpc (sock\<lparr>hs_bufReader := Some bs\<rparr>) k = Some (rpc, sock', k) \<and> hs_once sock' \<and>
    nc_out (hs_conn sock') = nc_out (hs_conn sock) @ bs' \<and>
    hk_Recv X N empty_package (h1\<lparr>hk_buff := Some bs'\<rparr>) = (Ok pkg', h2) \<and> pk_Body pkg' = str ''Unsupported Content-Type: '' \<and>
    (\<exists>e. fst (cc_ReadHeader norm m c) = Err e)"
proof -
  let ?t = "str ''Unsupported Content-Type: ''" and ?m = "[''Content-Type'' \<mapsto> ''text/plain'']"
  have e: "plain_entries request_keys Map.empty" "plain_entries response_keys ?m" by (simp add: plain_entries_def) (simp add: plain_entries_def, code_simp)
  have pkg: "(call_package CODECTYPE_JSONRPC None ct t)\<lparr>pk_Body := b\<rparr> = \<lparr>pk_Header = Some Map.empty, pk_Body = b\<rparr>" by (simp add: call_package_def)
  obtain bs h1 hdr r where snd: "hk_Send X N \<lparr>pk_Header = Some Map.empty, pk_Body = b\<rparr> h = (Ok (), h1)" "nc_out (hk_conn h1) = nc_out (hk_conn h) @ bs" "client_waiting h1"
    "hs_Recv X N (Some (pk_Reset empty_package)) (sock\<lparr>hs_bufReader := Some (bs @ [])\<rparr>) =
      (Ok \<lparr>pk_Header = Some hdr, pk_Body = b\<rparr>, sock\<lparr>hs_bufReader := Some [], hs_reqQ := [r]\<rparr>)"
    "entries_received Map.empty (tl (hk_Path h)) hdr" "plain_header (rq_Header r)"
    by (rule http_wire.send_carried [OF w(1-4) e(1), of b "pk_Reset empty_package" "[]"]) blast
  let ?s = "sock\<lparr>hs_bufReader := Some [], hs_reqQ := [r]\<rparr>" and ?pkg = "\<lparr>pk_Header = Some hdr, pk_Body = b\<rparr>"
  have recv: "so_Recv (httpSock X N) (pk_Reset empty_package) (sock\<lparr>hs_bufReader := Some bs\<rparr>) = (Ok ?pkg, ?s)" using snd(4) by (simp add: httpSock_def)
  have "''Content-Type'' \<notin> set request_keys" by code_simp
  then have cod: "newCodec D codecs (pkg_get ?pkg ''Content-Type'') = Inr (Errorf ''Unsupported Content-Type: '')"
    using w(6) snd(5) by (simp add: entries_received_def newCodec_def pkg_get_def defaultCodecs_def)
  have s1: "socket_ready ?s" "hs_reqQ ?s = [r]" using w(4) snd(6) by (simp_all add: socket_ready_def)
  obtain bs' s2 hdr' where t: "hs_Send X N \<lparr>pk_Header = Some ?m, pk_Body = ?t\<rparr> ?s = (Ok (), s2)" "nc_out (hs_conn s2) = nc_out (hs_conn ?s) @ bs'"
    "hs_once s2 = hs_once ?s"
    "\<forall>rest. \<exists>h2. hk_Recv X N empty_package (h1\<lparr>hk_buff := Some (bs' @ rest)\<rparr>) = (Ok \<lparr>pk_Header = Some hdr', pk_Body = ?t\<rparr>, h2) \<and> hk_buff h2 = Some rest \<and> client_ready h2"
    by (rule http_wire.reply_carried [OF w(1,2) s1(2,1) snd(3) e(2), of ?t empty_package]) blast
  obtain h2 where reply: "hk_Recv X N empty_package (h1\<lparr>hk_buff := Some bs'\<rparr>) = (Ok \<lparr>pk_Header = Some hdr', pk_Body = ?t\<rparr>, h2)"
    using t(4) [rule_format, of "[]"] by auto
  have send: "so_Send (httpSock X N) \<lparr>pk_Header = Some ?m, pk_Body = ?t\<rparr> ?s = (Ok (), s2)" using t(1) by (simp only: httpSock_def socketIf.simps)
  have et: "str (err_text (Errorf ''Unsupported Content-Type: '')) = ?t" by (simp only: err_text.simps)
  have loop: "handlePkg_loop (httpSock X N) D codecs E SF (Suc n) empty_package rpc (sock\<lparr>hs_bufReader := Some bs\<rparr>) k = Some (rpc, s2, k)"
    unfolding handlePkg_loop.simps recv prod.case outcome.case Let_def cod sum.case et send by simp
  have serve: "handlePkg (httpSock X N) D codecs E SF (Suc n) rpc (sock\<lparr>hs_bufReader := Some bs\<rparr>) k = Some (rpc, snd (hs_Close s2), k)"
    unfolding handlePkg_def loop by (simp only: httpSock_def socketIf.simps option.map prod.case)
  have out: "hs_once (snd (hs_Close s2))" "nc_out (hs_conn (snd (hs_Close s2))) = nc_out (hs_conn sock) @ bs'"
    using w(5) t(2,3) hs_Close_once by (simp_all add: hs_Close_def conn_Close_def)
  obtain er where err: "fst (cc_ReadHeader norm m c) = Err er"
    using c unsupported_no_json unsupported_skip by (simp add: cc_ReadHeader_def Decode_raw_def on_wire_def jd_fail_def Let_def)
  show ?thesis unfolding pkg by (intro exI conjI, rule snd(1), rule snd(2), rule serve, rule out(1), rule out(2), rule reply, simp, rule err)
qed

theorem call_without_metadata_witness:
  "\<exists>h1 bs sock' bs' pkg' h2. hk_Send ext0 plainHttp ((call_package CODECTYPE_JSONRPC None ''application/json'' 5)\<lparr>pk_Body := []\<rparr>) client1 = (Ok (), h1) \<and>
    handlePkg (httpSock ext0 plainHttp) codec1 Map.empty env1 (\<lambda>_ _ st. (Ok None, st)) (Suc 0) rpc1 ((initHTTPTransportSocket conn_all)\<lparr>hs_bufReader := Some bs\<rparr>) () =
      Some (rpc1, sock', ()) \<and>
    hk_Recv ext0 plainHttp empty_package (h1\<lparr>hk_buff := Some bs'\<rparr>) = (Ok pkg', h2) \<and> pk_Body pkg' = str ''Unsupported Content-Type: '' \<and>
    (\<exists>e. fst (cc_ReadHeader id Message0 (newClientCodec ''Unsupported Content-Type: '')) = Err e)"
proof -
  have o: "\<not> hs_once (initHTTPTransportSocket conn_all)" by (simp add: initHTTPTransportSocket_def)
  have n: "Map.empty ([] :: string) = (None :: (unit, string) serverIf option)" by simp
  have c: "cc_dec (newClientCodec ''Unsupported Content-Type: '') = on_wire ''Unsupported Content-Type: ''" by (simp add: newClientCodec_def on_wire_def)
  show ?thesis
    using call_without_metadata [OF plain.http_wire_axioms ext0_ok(2) client1_ready socket1_ready o n c, where ct = "''application/json''" and t = 5 and b = "[]"
        and D = codec1 and E = env1 and SF = "\<lambda>_ _ st. (Ok None, st)" and n = 0 and rpc = rpc1 and k = "()" and norm = id and m = Message0] by blast
qed

end
