(* ===== verification/Common_Misc.thy ===== *)
theory Common_Misc
  imports Client_Call Jsonrpc
begin

text \<open>
  Helpers of \<^verbatim>\<open>src/common\<close>: the text of an error and its parsing (\<^verbatim>\<open>errors.go\<close>), and the search for the address of the host
  (\<^verbatim>\<open>net.go\<close>). The network interfaces of the host are given.
\<close>

section \<open>Errors as text\<close>

text \<open>The fields of an error, whose code is a 32-bit integer.\<close>

definition set_code :: "string \<Rightarrow> int \<Rightarrow> int \<times> bool" where
  "set_code raw old = (if is_null raw then (old, False)
     else (case Atoi raw of None \<Rightarrow> (old, True) | Some i \<Rightarrow> if - (2 ^ 31) \<le> i \<and> i < 2 ^ 31 then (i, False) else (old, True)))"

record commonError =
  ce_ID :: string
  ce_Code :: int
  ce_Detail :: string
  ce_Status :: string

definition commonError0 :: commonError where
  "commonError0 = \<lparr>ce_ID = [], ce_Code = 0, ce_Detail = [], ce_Status = []\<rparr>"

definition commonError_Error :: "commonError \<Rightarrow> string" where
  "commonError_Error e = object_text [(''id'', quote (ce_ID e)), (''code'', itoa (ce_Code e)), (''detail'', quote (ce_Detail e)), (''status'', quote (ce_Status e))]"

definition set_commonError :: "string \<Rightarrow> string \<Rightarrow> commonError \<Rightarrow> commonError \<times> bool" where
  "set_commonError k v e =
     (if json_fold k = ''id'' then (case set_string v (ce_ID e) of (x, b) \<Rightarrow> (e\<lparr>ce_ID := x\<rparr>, b))
      else if json_fold k = ''code'' then (case set_code v (ce_Code e) of (x, b) \<Rightarrow> (e\<lparr>ce_Code := x\<rparr>, b))
      else if json_fold k = ''detail'' then (case set_string v (ce_Detail e) of (x, b) \<Rightarrow> (e\<lparr>ce_Detail := x\<rparr>, b))
      else if json_fold k = ''status'' then (case set_string v (ce_Status e) of (x, b) \<Rightarrow> (e\<lparr>ce_Status := x\<rparr>, b))
      else (e, False))"

text \<open>\<^verbatim>\<open>Parse\<close>: what cannot be decoded becomes the detail, beside the fields that could.\<close>

definition Parse :: "string \<Rightarrow> commonError" where
  "Parse err = (case checkValid err of
     Some _ \<Rightarrow> commonError0\<lparr>ce_Detail := err\<rparr>
   | None \<Rightarrow> (case decode_struct set_commonError err commonError0 of (e, bad) \<Rightarrow> if bad then e\<lparr>ce_Detail := err\<rparr> else e))"

lemma checkValid_object: "members_ok ms \<Longrightarrow> checkValid (object_text ms) = None"
  by (rule checkValid_json_text) (rule object_text_json)

lemma json_fold_error_names [simp]: "json_fold ''id'' = ''id''" "json_fold ''code'' = ''code''" "json_fold ''detail'' = ''detail''" "json_fold ''status'' = ''status''"
  by code_simp+

lemma error_keys [simp]: "key_text ''id''" "key_text ''code''" "key_text ''detail''" "key_text ''status''"
  "unquote ''id'' = ''id''" "unquote ''code'' = ''code''" "unquote ''detail'' = ''detail''" "unquote ''status'' = ''status''"
  by code_simp+

lemma set_string_quote: "utf8_text s \<Longrightarrow> set_string (quote s) old = (s, False)"
  by (simp add: set_string_def quote_def is_null_def unquote_quote)

lemma set_code_itoa: "0 \<le> c \<Longrightarrow> c < 2 ^ 31 \<Longrightarrow> set_code (itoa c) old = (c, False)"
  using Atoi_itoa [of c] itoa_not_null [of c] by (simp add: set_code_def)

text \<open>
  The text of an error is parsed back to the error, and a text that is no JSON value becomes the detail of an error that is otherwise empty.
\<close>

theorem error_parsed_back:
  assumes "utf8_text (ce_ID e)" "utf8_text (ce_Detail e)" "utf8_text (ce_Status e)" "0 \<le> ce_Code e" "ce_Code e < 2 ^ 31"
  shows "Parse (commonError_Error e) = e \<and> (checkValid t \<noteq> None \<longrightarrow> Parse t = commonError0\<lparr>ce_Detail := t\<rparr>)"
proof -
  let ?ms = "[(''id'', quote (ce_ID e)), (''code'', itoa (ce_Code e)), (''detail'', quote (ce_Detail e)), (''status'', quote (ce_Status e))]"
  have ok: "members_ok ?ms" using assms by (simp add: members_ok_def quote_json_text itoa_json_text)
  have n: "\<not> is_null (skip (object_text ?ms))" by (simp add: object_text_def skip_def json_space_def is_null_def)
  have "decode_struct set_commonError (object_text ?ms) commonError0 = (e, False)"
    using n object_members_text [OF ok, of "[]"] assms
    by (simp add: decode_struct_def set_commonError_def set_string_quote set_code_itoa commonError0_def)
  then show ?thesis using checkValid_object [OF ok] by (auto simp: Parse_def commonError_Error_def)
qed


lemma error_parsed_back_witness:
  "Parse (commonError_Error \<lparr>ce_ID = ''d'', ce_Code = 408, ce_Detail = ''late'', ce_Status = []\<rparr>) =
     \<lparr>ce_ID = ''d'', ce_Code = 408, ce_Detail = ''late'', ce_Status = []\<rparr>"
proof -
  have u: "utf8_text ''d''" "utf8_text ''late''" "utf8_text []" by (rule ascii_utf8_text; auto)+
  show ?thesis using error_parsed_back [of "\<lparr>ce_ID = ''d'', ce_Code = 408, ce_Detail = ''late'', ce_Status = []\<rparr>" "[]"] u by simp
qed

section \<open>The address of the host\<close>

text \<open>
  An address of \<^verbatim>\<open>net.InterfaceAddrs\<close> and the parts of \<^verbatim>\<open>net\<close> that are used on it: \<^verbatim>\<open>IP.To4\<close>, \<^verbatim>\<open>IP.IsLoopback\<close>, the text of an
  IPv4 address and its parsing. Texts of IPv6 addresses are not parsed, as \<^verbatim>\<open>GetLocalIP\<close> never asks for one.
\<close>

datatype ifaceAddr = IPAddr "byte list" | IPNet "byte list" "byte list" | OtherAddr

definition To4 :: "byte list \<Rightarrow> byte list option" where
  "To4 ip = (if length ip = 4 then Some ip
     else if length ip = 16 \<and> take 12 ip = replicate 10 0 @ [0xFF, 0xFF] then Some (drop 12 ip) else None)"

definition IsLoopback :: "byte list \<Rightarrow> bool" where
  "IsLoopback ip = (case To4 ip of Some b \<Rightarrow> hd b = 127 | None \<Rightarrow> ip = replicate 15 0 @ [1])"

definition IPv4_String :: "byte list \<Rightarrow> string" where
  "IPv4_String b = Join CHR ''.'' (map (nat_str \<circ> unat) b)"

definition octet :: "string \<Rightarrow> byte option" where
  "octet w = (if w = [] then None
     else (case digits_val 0 w of Some n \<Rightarrow> if n < 256 then Some (of_nat n) else None | None \<Rightarrow> None))"

definition ParseIPv4 :: "string \<Rightarrow> byte list option" where
  "ParseIPv4 s = (let os = map octet (Split CHR ''.'' s) in
     if length os = 4 \<and> None \<notin> set os then Some (map the os) else None)"

text \<open>The networks \<^verbatim>\<open>10.0.0.0/8\<close>, \<^verbatim>\<open>172.16.0.0/12\<close> and \<^verbatim>\<open>192.168.0.0/16\<close>, with their masks.\<close>

definition privateBlocks :: "(byte list \<times> byte list) list" where
  "privateBlocks = [([10, 0, 0, 0], [255, 0, 0, 0]), ([172, 16, 0, 0], [255, 240, 0, 0]), ([192, 168, 0, 0], [255, 255, 0, 0])]"

definition block_Contains :: "byte list \<times> byte list \<Rightarrow> byte list \<Rightarrow> bool" where
  "block_Contains blk ip = (case blk of (net, m) \<Rightarrow>
     length ip = length net \<and> map2 and net m = map2 and ip m)"

definition isPrivateIP :: "string \<Rightarrow> bool" where
  "isPrivateIP s = (case ParseIPv4 s of None \<Rightarrow> False | Some ip \<Rightarrow> list_ex (\<lambda>b. block_Contains b ip) privateBlocks)"

text \<open>The loop of \<^verbatim>\<open>GetLocalIP\<close>: the first address that is none of the skipped ones.\<close>

fun private_addr :: "ifaceAddr list \<Rightarrow> byte list option" where
  "private_addr [] = None"
| "private_addr (OtherAddr # as) = private_addr as"
| "private_addr (IPAddr ip # as) =
     (if IsLoopback ip then private_addr as
      else (case To4 ip of None \<Rightarrow> private_addr as
        | Some b \<Rightarrow> if isPrivateIP (IPv4_String b) then Some b else private_addr as))"
| "private_addr (IPNet ip m # as) =
     (if IsLoopback ip then private_addr as
      else (case To4 ip of None \<Rightarrow> private_addr as
        | Some b \<Rightarrow> if isPrivateIP (IPv4_String b) then Some b else private_addr as))"

definition GetLocalIP :: "ifaceAddr list outcome \<Rightarrow> string \<Rightarrow> string outcome" where
  "GetLocalIP ifaces addr =
     (if addr \<noteq> [] \<and> addr \<noteq> ''0.0.0.0'' \<and> addr \<noteq> ''[::]'' then Ok addr
      else (case ifaces of
        Ok as \<Rightarrow> (case private_addr as of
            None \<Rightarrow> Err (Errorf ''No private IP address found, and explicit IP not provided'')
          | Some b \<Rightarrow> Ok (IPv4_String b))
      | Err e \<Rightarrow> Err (Errorf ''Failed to get interface addresses! Err: %v'') | Panic \<Rightarrow> Panic | NoFuel \<Rightarrow> NoFuel))"

text \<open>Texts of IPv4 addresses are read back.\<close>

lemma octet_nat_str: "octet (nat_str (unat b)) = Some b"
  using unsigned_less [of b, where ?'a = nat] by (simp add: octet_def digits_val_nat_str)

lemma dot_no_digit: "CHR ''.'' \<notin> set (nat_str n)"
proof
  assume "CHR ''.'' \<in> set (nat_str n)"
  from nat_str_digit [OF this] show False by (simp add: digit_val_def)
qed

lemma ParseIPv4_String:
  assumes "length b = 4"
  shows "ParseIPv4 (IPv4_String b) = Some b"
proof -
  obtain p q r s where "b = [p, q, r, s]" using assms by (auto simp: eval_nat_numeral length_Suc_conv)
  then show ?thesis
    by (simp add: ParseIPv4_def IPv4_String_def Split_append Split_word dot_no_digit octet_nat_str)
qed

lemma To4_length: "To4 ip = Some b \<Longrightarrow> length b = 4"
  by (auto simp: To4_def split: if_splits)

text \<open>What a private address is, in the terms of RFC 1918.\<close>

definition rfc1918 :: "byte list \<Rightarrow> bool" where
  "rfc1918 b = (b ! 0 = 10 \<or> b ! 0 = 172 \<and> 16 \<le> b ! 1 \<and> b ! 1 \<le> 31 \<or> b ! 0 = 192 \<and> b ! 1 = 168)"

lemma byte_cases:
  fixes P :: "byte \<Rightarrow> bool"
  assumes "list_all (P \<circ> of_nat) [0..<256]"
  shows "P q"
proof -
  have "unat q \<in> set [0..<256]" using unsigned_less [of q, where ?'a = nat] by simp
  then have "(P \<circ> of_nat) (unat q)" using assms unfolding list_all_iff by blast
  then show ?thesis by simp
qed

lemma and_255: "and (q::byte) 255 = q"
  by (rule byte_cases [of "\<lambda>q. and q 255 = q"]) code_simp

lemma and_240: "and (q::byte) 240 = 16 \<longleftrightarrow> 16 \<le> q \<and> q \<le> 31"
  by (rule byte_cases [of "\<lambda>q. and q 240 = 16 \<longleftrightarrow> 16 \<le> q \<and> q \<le> 31"]) code_simp

lemma isPrivateIP_rfc1918:
  assumes "length b = 4"
  shows "isPrivateIP (IPv4_String b) \<longleftrightarrow> rfc1918 b"
proof -
  obtain p q r s where b: "b = [p, q, r, s]" using assms by (auto simp: eval_nat_numeral length_Suc_conv)
  have m: "and (172::byte) 255 = 172" "and (16::byte) 240 = 16" by code_simp+
  show ?thesis unfolding isPrivateIP_def ParseIPv4_String [OF assms]
    using and_240 [of q] by (auto simp: b privateBlocks_def block_Contains_def rfc1918_def and_255 m)
qed


definition private_of :: "ifaceAddr \<Rightarrow> byte list list" where
  "private_of a = (case a of OtherAddr \<Rightarrow> []
     | IPAddr ip \<Rightarrow> (case To4 ip of Some b \<Rightarrow> if rfc1918 b then [b] else [] | None \<Rightarrow> [])
     | IPNet ip m \<Rightarrow> (case To4 ip of Some b \<Rightarrow> if rfc1918 b then [b] else [] | None \<Rightarrow> []))"

lemma loopback_not_private: "IsLoopback ip \<Longrightarrow> To4 ip = Some b \<Longrightarrow> \<not> rfc1918 b"
  using To4_length [of ip b] by (cases b) (auto simp: IsLoopback_def rfc1918_def)

lemma private_addr_first: "private_addr as = (case concat (map private_of as) of [] \<Rightarrow> None | b # _ \<Rightarrow> Some b)"
proof (induction as)
  case (Cons a as)
  show ?case
  proof (cases a)
    case (IPAddr ip)
    then show ?thesis using Cons loopback_not_private [of ip] isPrivateIP_rfc1918 [OF To4_length [of ip]]
      by (auto simp: private_of_def split: option.split)
  next
    case (IPNet ip m)
    then show ?thesis using Cons loopback_not_private [of ip] isPrivateIP_rfc1918 [OF To4_length [of ip]]
      by (auto simp: private_of_def split: option.split)
  qed (use Cons in \<open>simp add: private_of_def\<close>)
qed simp

text \<open>
  Without an explicit address, \<^verbatim>\<open>GetLocalIP\<close> answers the first IPv4 address of the host that RFC 1918 calls private, and fails
  when there is none; an explicit address is answered as it is.
\<close>

theorem local_ip_private:
  "GetLocalIP (Ok as) addr =
     (if addr \<in> {[], ''0.0.0.0'', ''[::]''}
      then (case concat (map private_of as) of
              [] \<Rightarrow> Err (Errorf ''No private IP address found, and explicit IP not provided'')
            | b # _ \<Rightarrow> Ok (IPv4_String b))
      else Ok addr)"
proof -
  have "(case (case l of [] \<Rightarrow> None | b # _ \<Rightarrow> Some b) of None \<Rightarrow> Err (x :: goerr) | Some b \<Rightarrow> Ok (IPv4_String b)) =
      (case l of [] \<Rightarrow> Err x | b # _ \<Rightarrow> Ok (IPv4_String b))" for l x
    by (cases l) simp_all
  then show ?thesis by (simp add: GetLocalIP_def private_addr_first del: concat_eq_Nil_conv)
qed

lemma local_ip_example:
  "GetLocalIP (Ok [IPAddr [127, 0, 0, 1], OtherAddr, IPNet [8, 8, 8, 8] [], IPNet [172, 31, 0, 5] []]) [] = Ok ''172.31.0.5''"
  by (simp add: GetLocalIP_def private_addr_first private_of_def To4_def rfc1918_def IPv4_String_def nat_str.simps) code_simp

end
