(* ===== verification/Spec2Isabelle.thy ===== *)
theory Spec2Isabelle
  imports Zk_Watch Server_Start Server_Handle Rpc_Http Common_Misc
begin

text \<open>
  A verification library for dubbogo, a Go implementation of the Dubbo RPC framework.

  The program. A consumer calls a method of a remote service. Its client (\<^verbatim>\<open>src/client\<close>) asks a selector
  (\<^verbatim>\<open>src/selector\<close>) for a provider of the service, takes a connection to it from a pool, encodes the
  request with a codec (\<^verbatim>\<open>src/codec\<close>) and exchanges packages over a transport (\<^verbatim>\<open>src/transport\<close>). The selector
  keeps lists of providers that it gets from a registry (\<^verbatim>\<open>src/registry\<close>) and that the watcher of the registry
  keeps up to date; providers and consumers register themselves as nodes of a ZooKeeper server.

  Foundations, each a model of what the sources use of Go and its standard library:
  \<^item> \<open>Go_Prelude\<close>: machine integers, error values, the outcomes of a call (\<open>Ok\<close>, \<open>Err\<close>, \<open>Panic\<close>, and \<open>NoFuel\<close> for a
    model that has used up its fuel), sequencing of calls, and the external packages as a record \<open>ext\<close>, whose
    documented behaviour is \<open>slice_ok\<close> and \<open>trace_ok\<close>.
  \<^item> \<open>Go_Bufio\<close>, \<open>Go_Utf8\<close>, \<open>Go_Strings\<close>, \<open>Go_Url\<close>, \<open>Go_Slice\<close>: \<^verbatim>\<open>bufio.Reader\<close> (with a locale for the laws of a byte stream),
    runes, strings and paths, urls, and slices on a heap of arrays, so that sharing and in-place changes show.

  The Hessian codec (\<^verbatim>\<open>src/codec/hessian\<close>):
  \<^item> \<open>Hessian_Const\<close>, \<open>Hessian_Pack\<close>, \<open>Hessian_Int\<close>, \<open>Hessian_Scalar\<close>, \<open>Hessian_Text\<close>: tags, big-endian packing, integers, dates
    and doubles, and the chunk loops of strings and binary data. Round trips with the exact set of values
    on which they fail, and what malformed input does.
  \<^item> \<open>Hessian_Pojo\<close>: the registry of structs, with its invariant and the lookups after a registration.
  \<^item> \<open>Hessian_Encode\<close>, \<open>Hessian_Decode\<close>, \<open>Hessian_Roundtrip\<close>: values of any nesting. The decoder is fuelled, since it can
    recurse for ever, which \<open>decode_never_ends\<close> shows; the round trip gives fuel that is enough.
  \<^item> \<open>Codec_Message\<close>, \<open>Hessian_Frame\<close>: messages, request and response frames, and the copy of a result into the
    variable of the caller.

  Finding a provider:
  \<^item> \<open>Registry_Url\<close> (\<^verbatim>\<open>registry/config.go\<close>, \<^verbatim>\<open>service_url.go\<close>): services and configurations, and the parsing of the
    name of a node.
  \<^item> \<open>Selector_Mode\<close>, \<open>Selector_Cache\<close> (\<^verbatim>\<open>selector/mode.go\<close>, \<^verbatim>\<open>selector/cache/cache.go\<close>): the choice of a service, and the cache. The
    cache has an invariant on its heap and refines a map of lists; a list that is handed out stays
    unchanged, except in the one case where it is not copied. The registry that the selector asks is
    the locale \<open>registry_service\<close>.
  \<^item> \<open>Zk_Client\<close>, \<open>Zk_Registry\<close>, \<open>Zk_Watch\<close> (\<^verbatim>\<open>registry/zk\<close>): the ZooKeeper client over a record of the operations of
    the go-zookeeper package, with the documented behaviour of \<^verbatim>\<open>Create\<close> as the hypothesis \<open>zk_create_ok\<close>; the
    registries of consumers (an interpretation of \<open>registry_service\<close>) and providers; the watcher. Shown: what
    creating a path does, that a connection is closed once, that a consumer reads back what a provider
    registers, that the events of the watcher bring the selector's list in step with the nodes, what a
    restart registers, and that a second restart never ends. Goroutines are functions of what their select
    statements receive; the rounds of a restart are bounded by a number, and the theorems hold for every
    number.

  Calling it:
  \<^item> \<open>Transport_Tcp\<close> (\<^verbatim>\<open>transport/tcp_transport.go\<close>, \<^verbatim>\<open>listen\<close> of \<^verbatim>\<open>http_transport.go\<close>): packages, tcp clients and sockets, the
    accept loop, dialling and listening, and the search for a port.
  \<^item> \<open>Go_Http\<close>, \<open>Transport_Http\<close> (\<^verbatim>\<open>transport/http_transport.go\<close>): what the sources use of \<^verbatim>\<open>net/http\<close>, and the http transport on it. Writing
    and reading a message are a record of functions. The locale \<open>http_wire\<close> states their documented behaviour:
    what is written without unusual entries is read back, with entries that the package adds, and reading uses up
    bytes. A plain form of HTTP/1.1 satisfies it. Shown: an exchange over http brings both packages over; the header of the first
    request comes back with every response; two requests in a row cannot both be answered.
  \<^item> \<open>Client_Pool\<close> (\<^verbatim>\<open>client/rpc_pool.go\<close>): the pool, and a step relation for calls and the garbage collector that
    share it. In every reachable state a connection has one owner and the pool keeps its size; a
    returned connection is closed nevertheless.
  \<^item> \<open>Client_Codec\<close> (\<^verbatim>\<open>client/rpc_codec.go\<close>, \<^verbatim>\<open>rpc_stream.go\<close>): packages and messages, over any codec and transport. The locale
    \<open>receiver\<close> says that receiving uses up what there is; it holds for the tcp client, and the read loops end
    with fuel above the bytes and chunks that are left.
  \<^item> \<open>Client_Call\<close> (\<^verbatim>\<open>client/rpc_client.go\<close>, \<^verbatim>\<open>options.go\<close>, \<^verbatim>\<open>rpc_request.go\<close>, \<^verbatim>\<open>common/errors.go\<close>): timeouts, one call, retries.
  \<^item> \<open>Common_Misc\<close> (\<^verbatim>\<open>common/errors.go\<close>, \<^verbatim>\<open>common/net.go\<close>): the text of an error, which is read back, and the address of the host,
    given what \<^verbatim>\<open>net.InterfaceAddrs\<close> answers.

  The JSON-RPC codec (\<^verbatim>\<open>src/codec/jsonrpc\<close>):
  \<^item> \<open>Go_Json\<close>: the scanner of \<^verbatim>\<open>encoding/json\<close>, members and elements of a text, strings with their escapes. The scanner
    has fuel of twice the length of the text and two, which is shown to be enough.
  \<^item> \<open>Jsonrpc_Error\<close>, \<open>Jsonrpc_Client\<close>, \<open>Jsonrpc_Server\<close>, \<open>Jsonrpc\<close> (\<^verbatim>\<open>errors.go\<close>, \<^verbatim>\<open>client.go\<close>, \<^verbatim>\<open>server.go\<close>, \<^verbatim>\<open>jsonrpc.go\<close>): error
    values, the two sides of the codec, and what one makes of the messages of the other. Raw messages of
    the server are on a heap, because requests share and reuse them. Shown: which texts are requests,
    that pending ids stay, that a request is answered once, and the exchange of a request and its response.

  The server (\<^verbatim>\<open>src/server\<close>):
  \<^item> \<open>Go_Reflect\<close>, \<open>Server_Service\<close>, \<open>Server_Rpc\<close> (\<^verbatim>\<open>rpc_server.go\<close>, \<^verbatim>\<open>rpc_codec.go\<close>, \<^verbatim>\<open>rpc_stream.go\<close>): types and kinds; the methods of a
    handler that can be called; reading a request, calling its method and sending the response. The values
    of the program are of any type, and what is done with them is the record \<open>goenv\<close>. Shown: in every state
    that registering and serving reach, calls are well-typed and the free lists are bounded; a request
    is answered by one response.
  \<^item> \<open>Server\<close>, \<open>Server_Start\<close> (\<^verbatim>\<open>server.go\<close>, \<^verbatim>\<open>options.go\<close>): options, the loop of a connection, registration; starting and stopping
    as steps of the goroutines. Shown: stopping completes, and which table serves a connection.
  \<^item> \<open>Server_Handle\<close>: when a handler is registered, as one list of publications instead of the two loops of the code.

  The composition:
  \<^item> \<open>Server_Json\<close>: a call that a client writes as JSON-RPC is served by the method of a handler, and the client reads what it
    replied.
  \<^item> \<open>Server_Http\<close>: the same over the http transport, from the client to the client. The locale \<open>connection\<close> says that a socket uses up
    its input, which the http socket does, so the loop of a connection ends. Over tcp a server receives nothing.
  \<^item> \<open>Rpc_Http\<close>: the package of a call without metadata, followed through the transport, the server and the client.

  Not modelled: logging; timers, delays and the timeouts of connections; the addresses of sockets; \<^verbatim>\<open>Future\<close>, \<^verbatim>\<open>Goid\<close> and the
  version strings; and the locks, since every modelled operation holds its lock from beginning to end.
\<close>

end
